(* ===== verification/Prelude.thy ===== *)
theory Prelude
  imports Complex_Main "HOL-Library.Sublist" "HOL-Library.AList"
begin

text \<open>
  Shared vocabulary of the development.

  \<^item> Machine integers. Counters of the code are \<open>u32\<close> or \<open>u64\<close>; they are naturals here, with
    the width written out in the operations that can reach it: \<open>sat_add32\<close> and \<open>sat_add64\<close> are
    \<open>saturating_add\<close>, \<open>wrap_add32\<close> and \<open>wrap_add64\<close> are the plain \<open>+\<close> of a release build, and
    truncated subtraction on naturals is \<open>saturating_sub\<close>.
  \<^item> Text. A Rust \<open>str\<close> is its UTF-8 byte sequence, a HOL \<open>string\<close> whose characters are bytes.
    \<open>uchars\<close> groups the bytes into Unicode scalar values (a lead byte and its continuation
    bytes), so \<open>char_count\<close>, \<open>take_chars\<close> and \<open>skip_chars\<close> are \<open>chars().count()\<close>,
    \<open>chars().take(n)\<close> and \<open>chars().skip(n)\<close>, while \<open>length\<close> is \<open>len()\<close>.
  \<^item> Hash maps with a few keys are association lists, updated with \<open>AList.update\<close>.
\<close>

type_synonym u32 = nat
type_synonym u64 = nat
type_synonym usize = nat

named_theorems text_simps \<open>facts on text that component proofs rewrite with\<close>
named_theorems arith_bounds \<open>bounds of the fixed-width operations\<close>

section \<open>Fixed-width arithmetic\<close>

definition U32_MAX :: nat where "U32_MAX = 4294967295"
definition U64_MAX :: nat where "U64_MAX = 18446744073709551615"

definition sat_add32 :: "u32 \<Rightarrow> u32 \<Rightarrow> u32" where
  "sat_add32 a b = min (a + b) U32_MAX"

definition sat_mul32 :: "u32 \<Rightarrow> u32 \<Rightarrow> u32" where
  "sat_mul32 a b = min (a * b) U32_MAX"

definition sat_add64 :: "u64 \<Rightarrow> u64 \<Rightarrow> u64" where
  "sat_add64 a b = min (a + b) U64_MAX"

definition wrap_add32 :: "u32 \<Rightarrow> u32 \<Rightarrow> u32" where
  "wrap_add32 a b = (a + b) mod (U32_MAX + 1)"

definition wrap_mul32 :: "u32 \<Rightarrow> u32 \<Rightarrow> u32" where
  "wrap_mul32 a b = (a * b) mod (U32_MAX + 1)"

definition wrap_sub32 :: "u32 \<Rightarrow> u32 \<Rightarrow> u32" where
  "wrap_sub32 a b = (a + (U32_MAX + 1) - b) mod (U32_MAX + 1)"

definition wrap_add64 :: "u64 \<Rightarrow> u64 \<Rightarrow> u64" where
  "wrap_add64 a b = (a + b) mod (U64_MAX + 1)"

lemma sat_add32_le [arith_bounds]: "sat_add32 a b \<le> U32_MAX"
  by (simp add: sat_add32_def)

lemma sat_add64_le [arith_bounds]: "sat_add64 a b \<le> U64_MAX"
  by (simp add: sat_add64_def)

lemma wrap_add32_le [arith_bounds]: "wrap_add32 a b \<le> U32_MAX"
  unfolding wrap_add32_def
  by (metis Suc_eq_plus1 less_Suc_eq_le mod_less_divisor zero_less_Suc)

lemma wrap_add64_le [arith_bounds]: "wrap_add64 a b \<le> U64_MAX"
  unfolding wrap_add64_def
  by (metis Suc_eq_plus1 less_Suc_eq_le mod_less_divisor zero_less_Suc)

lemma sat_add32_mono: "a \<le> U32_MAX \<Longrightarrow> a \<le> sat_add32 a b"
  by (simp add: sat_add32_def)

lemma sat_add64_mono: "a \<le> U64_MAX \<Longrightarrow> a \<le> sat_add64 a b"
  by (simp add: sat_add64_def)

lemma sat_add64_exact: "a + b \<le> U64_MAX \<Longrightarrow> sat_add64 a b = a + b"
  by (simp add: sat_add64_def)

lemma sat_add32_exact: "a + b \<le> U32_MAX \<Longrightarrow> sat_add32 a b = a + b"
  by (simp add: sat_add32_def)

lemma wrap_add32_exact: "a + b \<le> U32_MAX \<Longrightarrow> wrap_add32 a b = a + b"
  by (simp add: wrap_add32_def)

lemma wrap_add64_exact: "a + b \<le> U64_MAX \<Longrightarrow> wrap_add64 a b = a + b"
  by (simp add: wrap_add64_def)

lemma wrap_mul32_exact: "a * b \<le> U32_MAX \<Longrightarrow> wrap_mul32 a b = a * b"
  by (simp add: wrap_mul32_def)

lemma wrap_sub32_exact:
  assumes "b \<le> a" "a \<le> U32_MAX"
  shows "wrap_sub32 a b = a - b"
proof -
  have "a + (U32_MAX + 1) - b = (a - b) + (U32_MAX + 1)" using assms by simp
  moreover have "a - b < U32_MAX + 1" using assms by simp
  ultimately show ?thesis unfolding wrap_sub32_def by (metis mod_add_self2 mod_less)
qed

lemma sat_add64_assoc: "sat_add64 (sat_add64 a b) c = sat_add64 a (sat_add64 b c)"
  by (simp add: sat_add64_def)

lemma sat_add64_comm: "sat_add64 a b = sat_add64 b a"
  by (simp add: sat_add64_def add.commute)

section \<open>Unicode scalars of a UTF-8 string\<close>

definition byte :: "char \<Rightarrow> nat" where "byte c = of_char c"

definition is_cont :: "char \<Rightarrow> bool" where
  "is_cont c \<longleftrightarrow> 128 \<le> byte c \<and> byte c < 192"

function uchars :: "string \<Rightarrow> string list" where
  "uchars [] = []"
| "uchars (c # cs) = (c # takeWhile is_cont cs) # uchars (dropWhile is_cont cs)"
  by pat_completeness auto
termination
  by (relation "measure length") (auto simp: le_imp_less_Suc length_dropWhile_le)

definition char_count :: "string \<Rightarrow> nat" where
  "char_count s = length (uchars s)"

definition take_chars :: "nat \<Rightarrow> string \<Rightarrow> string" where
  "take_chars n s = concat (take n (uchars s))"

definition skip_chars :: "nat \<Rightarrow> string \<Rightarrow> string" where
  "skip_chars n s = concat (drop n (uchars s))"

lemma concat_uchars [simp, text_simps]: "concat (uchars s) = s"
  by (induction s rule: uchars.induct) auto

lemma uchars_nonempty: "g \<in> set (uchars s) \<Longrightarrow> g \<noteq> []"
  by (induction s rule: uchars.induct) auto

lemma take_skip_chars [text_simps]: "take_chars n s @ skip_chars n s = s"
  unfolding take_chars_def skip_chars_def
  by (metis append_take_drop_id concat_append concat_uchars)

lemma char_count_Nil [simp]: "char_count [] = 0"
  by (simp add: char_count_def)

text \<open>A string starts a scalar when its first byte is not a continuation byte.\<close>

definition starts_scalar :: "string \<Rightarrow> bool" where
  "starts_scalar s \<longleftrightarrow> s = [] \<or> \<not> is_cont (hd s)"

lemma uchars_append:
  "starts_scalar b \<Longrightarrow> uchars (a @ b) = uchars a @ uchars b"
proof (induction a rule: uchars.induct)
  case 1
  then show ?case by simp
next
  case (2 c cs)
  show ?case
  proof (cases "\<forall>x\<in>set cs. is_cont x")
    case True
    then have "takeWhile is_cont (cs @ b) = cs" "dropWhile is_cont (cs @ b) = b"
      using 2(2) by (cases b; simp add: starts_scalar_def)+
    then show ?thesis using True by (simp add: takeWhile_eq_all_conv[THEN iffD2] dropWhile_eq_Nil_conv[THEN iffD2])
  next
    case False
    then obtain x where x: "x \<in> set cs" "\<not> is_cont x" by blast
    then have "takeWhile is_cont (cs @ b) = takeWhile is_cont cs"
      "dropWhile is_cont (cs @ b) = dropWhile is_cont cs @ b"
      by (auto simp: takeWhile_append1 dropWhile_append1)
    then show ?thesis using 2 by simp
  qed
qed

lemma uchars_tail_starts:
  "uchars s = g # gs \<Longrightarrow> starts_scalar (concat gs)"
proof (cases s)
  case (Cons c cs)
  assume "uchars s = g # gs"
  with Cons have "gs = uchars (dropWhile is_cont cs)" by simp
  then have "concat gs = dropWhile is_cont cs" by simp
  then show ?thesis
    unfolding starts_scalar_def by (metis hd_dropWhile)
qed simp

lemma drop_uchars:
  "uchars (concat (drop n (uchars s))) = drop n (uchars s)"
proof (induction n arbitrary: s)
  case 0
  then show ?case by simp
next
  case (Suc n)
  show ?case
  proof (cases s)
    case Nil
    then show ?thesis by simp
  next
    case (Cons c cs)
    then show ?thesis using Suc[of "dropWhile is_cont cs"] by simp
  qed
qed

lemma take_uchars:
  "uchars (concat (take n (uchars s))) = take n (uchars s)"
proof (induction n arbitrary: s)
  case 0
  then show ?case by simp
next
  case (Suc n)
  show ?case
  proof (cases s)
    case Nil
    then show ?thesis by simp
  next
    case (Cons c cs)
    let ?r = "dropWhile is_cont cs"
    let ?t = "concat (take n (uchars ?r))"
    have st: "starts_scalar ?t"
    proof (cases ?r)
      case Nil
      show ?thesis unfolding Nil by (simp add: starts_scalar_def)
    next
      case (Cons d ds)
      have "\<not> is_cont d" using Cons by (metis hd_dropWhile list.sel(1) list.distinct(1))
      then show ?thesis unfolding Cons by (cases n) (simp_all add: starts_scalar_def)
    qed
    have "\<forall>x\<in>set (takeWhile is_cont cs). is_cont x" by (auto dest: set_takeWhileD)
    then have tw: "takeWhile is_cont (takeWhile is_cont cs) = takeWhile is_cont cs"
      and dw: "dropWhile is_cont (takeWhile is_cont cs) = []"
      by (simp_all only: takeWhile_eq_all_conv dropWhile_eq_Nil_conv)
    have "uchars (c # takeWhile is_cont cs) = [c # takeWhile is_cont cs]"
      by (simp only: uchars.simps tw dw)
    then have "uchars ((c # takeWhile is_cont cs) @ ?t) = (c # takeWhile is_cont cs) # uchars ?t"
      using uchars_append[OF st, of "c # takeWhile is_cont cs"] by simp
    then show ?thesis using Suc[of ?r] Cons by simp
  qed
qed

lemma char_count_take [text_simps]: "char_count (take_chars n s) = min n (char_count s)"
  by (simp add: char_count_def take_chars_def take_uchars)

lemma char_count_skip [text_simps]: "char_count (skip_chars n s) = char_count s - n"
  by (simp add: char_count_def skip_chars_def drop_uchars)

lemma take_chars_all: "char_count s \<le> n \<Longrightarrow> take_chars n s = s"
  by (simp add: take_chars_def char_count_def)

lemma starts_scalar_skip: "starts_scalar s \<Longrightarrow> starts_scalar (skip_chars n s)"
proof (induction n arbitrary: s)
  case 0
  then show ?case by (simp add: skip_chars_def)
next
  case (Suc n)
  show ?case
  proof (cases s)
    case Nil
    then show ?thesis by (simp add: skip_chars_def starts_scalar_def)
  next
    case (Cons c cs)
    have "starts_scalar (dropWhile is_cont cs)"
      unfolding starts_scalar_def by (metis hd_dropWhile)
    then show ?thesis using Suc.IH Cons by (simp add: skip_chars_def)
  qed
qed

text \<open>Concatenation never yields more scalars than the two parts have together.\<close>

lemma char_count_append_le [text_simps]: "char_count (a @ b) \<le> char_count a + char_count b"
proof (induction a rule: uchars.induct)
  case 1
  then show ?case by (simp add: char_count_def)
next
  case (2 c cs)
  have drop_le: "length (uchars (dropWhile is_cont b)) \<le> length (uchars b)"
    by (cases b) auto
  show ?case
  proof (cases "\<forall>x\<in>set cs. is_cont x")
    case True
    then have "dropWhile is_cont (cs @ b) = dropWhile is_cont b"
      by (simp add: dropWhile_append2)
    moreover have "dropWhile is_cont cs = []" using True by (simp add: dropWhile_eq_Nil_conv)
    ultimately show ?thesis using drop_le by (simp add: char_count_def)
  next
    case False
    then have "dropWhile is_cont (cs @ b) = dropWhile is_cont cs @ b"
      by (metis dropWhile_append1)
    then show ?thesis using 2 by (simp add: char_count_def)
  qed
qed

lemma char_count_append:
  "starts_scalar b \<Longrightarrow> char_count (a @ b) = char_count a + char_count b"
  by (simp add: char_count_def uchars_append)

section \<open>Text operations of the standard library\<close>

text \<open>
  \<open>White_Space\<close> of Unicode, the characters \<open>trim\<close> and \<open>split_whitespace\<close> remove: the six
  ASCII ones and the encodings of U+0085, U+00A0, U+1680, U+2000 to U+200A, U+2028, U+2029,
  U+202F, U+205F and U+3000.
\<close>

definition is_ascii_ws :: "char \<Rightarrow> bool" where
  "is_ascii_ws c \<longleftrightarrow> byte c \<in> {9, 10, 11, 12, 13, 32}"

definition is_ws :: "string \<Rightarrow> bool" where
  "is_ws g \<longleftrightarrow> (case g of
      [c] \<Rightarrow> is_ascii_ws c
    | [c, d] \<Rightarrow> byte c = 194 \<and> (byte d = 133 \<or> byte d = 160)
    | [c, d, e] \<Rightarrow>
        (byte c = 225 \<and> byte d = 154 \<and> byte e = 128)
        \<or> (byte c = 226 \<and> byte d = 128
            \<and> (128 \<le> byte e \<and> byte e \<le> 138 \<or> byte e = 168 \<or> byte e = 169 \<or> byte e = 175))
        \<or> (byte c = 226 \<and> byte d = 129 \<and> byte e = 159)
        \<or> (byte c = 227 \<and> byte d = 128 \<and> byte e = 128)
    | _ \<Rightarrow> False)"

definition trim_end :: "string \<Rightarrow> string" where
  "trim_end s = concat (rev (dropWhile is_ws (rev (uchars s))))"

definition trim :: "string \<Rightarrow> string" where
  "trim s = concat (rev (dropWhile is_ws (rev (dropWhile is_ws (uchars s)))))"

text \<open>
  \<open>to_lowercase\<close>: the ASCII letters, and the two other scalars whose lower case holds an ASCII
  letter (U+212A, the Kelvin sign, and U+0130). The remaining scalars are left as they are: their
  lower case is not ASCII, so no test of the code against an ASCII word can see it.
\<close>

definition lower_byte :: "char \<Rightarrow> char" where
  "lower_byte c = (if 65 \<le> byte c \<and> byte c \<le> 90 then char_of (byte c + 32) else c)"

definition lower_scalar :: "string \<Rightarrow> string" where
  "lower_scalar g =
     (if map byte g = [226, 132, 170] then ''k''
      else if map byte g = [196, 176] then [CHR ''i'', CHR 0xCC, CHR 0x87]
      else map lower_byte g)"

definition to_lowercase :: "string \<Rightarrow> string" where
  "to_lowercase s = concat (map lower_scalar (uchars s))"

text \<open>\<open>find\<close>, \<open>contains\<close>, \<open>starts_with\<close>, \<open>strip_prefix\<close>; offsets are byte offsets.\<close>

fun find_str :: "string \<Rightarrow> string \<Rightarrow> nat option" where
  "find_str p [] = (if p = [] then Some 0 else None)"
| "find_str p (c # cs) =
     (if prefix p (c # cs) then Some 0 else map_option Suc (find_str p cs))"

definition str_contains :: "string \<Rightarrow> string \<Rightarrow> bool" where
  "str_contains s p \<longleftrightarrow> find_str p s \<noteq> None"

definition contains_any :: "string list \<Rightarrow> string \<Rightarrow> bool" where
  "contains_any ps s \<longleftrightarrow> list_ex (str_contains s) ps"

definition strip_prefix :: "string \<Rightarrow> string \<Rightarrow> string option" where
  "strip_prefix p s = (if prefix p s then Some (drop (length p) s) else None)"

fun split_on :: "char \<Rightarrow> string \<Rightarrow> string list" where
  "split_on d [] = [[]]"
| "split_on d (c # cs) =
     (if c = d then [] # split_on d cs
      else (case split_on d cs of [] \<Rightarrow> [[c]] | g # gs \<Rightarrow> (c # g) # gs))"

fun join :: "string \<Rightarrow> string list \<Rightarrow> string" where
  "join sep [] = []"
| "join sep [x] = x"
| "join sep (x # y # ys) = x @ sep @ join sep (y # ys)"

text \<open>\<open>replace\<close>: every non-overlapping occurrence from the left.\<close>

function replace_str :: "string \<Rightarrow> string \<Rightarrow> string \<Rightarrow> string" where
  "replace_str p r [] = []"
| "replace_str p r (c # cs) =
     (if p \<noteq> [] \<and> prefix p (c # cs) then r @ replace_str p r (drop (length p) (c # cs))
      else c # replace_str p r cs)"
  by pat_completeness auto
termination
  by (relation "measure (\<lambda>(_, _, s). length s)") auto

text \<open>\<open>split_whitespace\<close>: the runs of scalars between white space, none of them empty.\<close>

fun split_ws :: "string list \<Rightarrow> string \<Rightarrow> string list" where
  "split_ws [] acc = (if acc = [] then [] else [acc])"
| "split_ws (g # gs) acc =
     (if is_ws g then (if acc = [] then split_ws gs [] else acc # split_ws gs [])
      else split_ws gs (acc @ g))"

definition split_whitespace :: "string \<Rightarrow> string list" where
  "split_whitespace s = split_ws (uchars s) []"

text \<open>\<open>parse\<close> of the integer types: an optional sign, at least one digit, and the range.\<close>

definition is_digit :: "char \<Rightarrow> bool" where
  "is_digit c \<longleftrightarrow> 48 \<le> byte c \<and> byte c \<le> 57"

definition digits_value :: "string \<Rightarrow> nat option" where
  "digits_value s =
     (if s \<noteq> [] \<and> list_all is_digit s
      then Some (foldl (\<lambda>n c. 10 * n + (byte c - 48)) 0 s) else None)"

definition parse_u64 :: "string \<Rightarrow> nat option" where
  "parse_u64 s =
     (case digits_value (if prefix ''+'' s then drop 1 s else s) of
        None \<Rightarrow> None
      | Some n \<Rightarrow> if n \<le> U64_MAX then Some n else None)"

definition parse_i64 :: "string \<Rightarrow> int option" where
  "parse_i64 s =
     (case digits_value (if prefix ''+'' s \<or> prefix ''-'' s then drop 1 s else s) of
        None \<Rightarrow> None
      | Some n \<Rightarrow>
          if prefix ''-'' s
          then (if n \<le> 9223372036854775808 then Some (- int n) else None)
          else (if n \<le> 9223372036854775807 then Some (int n) else None))"

text \<open>\<open>lines\<close>: the text between line feeds, a carriage return before the feed dropped, and no
  empty last line.\<close>

fun str_lines_of :: "string list \<Rightarrow> string list" where
  "str_lines_of [] = []"
| "str_lines_of [l] = (if l = [] then [] else [l])"
| "str_lines_of (l # ls) =
     (if l \<noteq> [] \<and> last l = CHR 0x0D then butlast l else l) # str_lines_of ls"

definition str_lines :: "string \<Rightarrow> string list" where
  "str_lines s = str_lines_of (split_on (CHR 0x0A) s)"

text \<open>Decimal rendering of a natural, the \<open>Display\<close> of every unsigned integer.\<close>

fun dec :: "nat \<Rightarrow> string" where
  "dec n = (if n < 10 then [char_of (48 + n)] else dec (n div 10) @ [char_of (48 + n mod 10)])"

declare dec.simps [simp del]

definition newline :: string where "newline = [CHR 0x0A]"

lemma find_str_Some:
  "find_str p s = Some i \<Longrightarrow> \<exists>r. s = take i s @ p @ r \<and> i + length p \<le> length s"
proof (induction p s arbitrary: i rule: find_str.induct)
  case (1 p)
  then show ?case by (simp split: if_splits)
next
  case (2 p c cs)
  show ?case
  proof (cases "prefix p (c # cs)")
    case True
    then obtain zs where z: "c # cs = p @ zs" by (auto simp: prefix_def)
    then have "length p \<le> length (c # cs)" by simp
    moreover have "i = 0" using 2 True by simp
    ultimately show ?thesis using z by simp
  next
    case False
    then obtain j where j: "find_str p cs = Some j" "i = Suc j" using 2 by auto
    then show ?thesis using 2 False by fastforce
  qed
qed

lemma find_str_sublist: "find_str p (a @ p @ b) \<noteq> None"
proof (induction a)
  case Nil
  have "prefix p (p @ b)" by simp
  then show ?case by (cases "p @ b") (auto simp del: prefix_code)
next
  case (Cons c cs)
  then show ?case by auto
qed

lemma str_contains_iff [text_simps]: "str_contains s p \<longleftrightarrow> (\<exists>a b. s = a @ p @ b)"
  unfolding str_contains_def using find_str_Some find_str_sublist
  by (metis option.exhaust_sel)

lemma str_contains_refl [simp]: "str_contains s s"
  unfolding str_contains_iff by (metis append.left_neutral append_Nil2)

lemma str_contains_Nil [simp]: "str_contains s []"
  unfolding str_contains_iff by (metis append.left_neutral)

lemma find_str_least:
  "find_str p s = Some i \<Longrightarrow> j < i \<Longrightarrow> \<not> prefix p (drop j s)"
proof (induction p s arbitrary: i j rule: find_str.induct)
  case (1 p)
  then show ?case by (simp split: if_splits)
next
  case (2 p c cs)
  then show ?case by (cases j) (auto split: if_splits)
qed

lemma split_on_not_Nil [simp]: "split_on d s \<noteq> []"
  by (cases s) (auto split: list.splits)

lemma join_split_on: "join [d] (split_on d s) = s"
proof (induction d s rule: split_on.induct)
  case (2 d c cs)
  then obtain g gs where "split_on d cs = g # gs" by (meson neq_Nil_conv split_on_not_Nil)
  then show ?case using 2 by (cases gs) auto
qed simp

lemma split_on_no_sep: "g \<in> set (split_on d s) \<Longrightarrow> d \<notin> set g"
proof (induction d s arbitrary: g rule: split_on.induct)
  case (2 d c cs)
  then show ?case by (auto split: if_splits list.splits)
qed simp

lemma concat_dropWhile_suffix: "\<exists>a. concat xs = a @ concat (dropWhile P xs)"
  by (metis concat_append takeWhile_dropWhile_id)

lemma trim_end_prefix: "\<exists>b. s = trim_end s @ b"
proof -
  have "rev (uchars s) = takeWhile is_ws (rev (uchars s)) @ dropWhile is_ws (rev (uchars s))"
    by simp
  then have "uchars s = rev (dropWhile is_ws (rev (uchars s))) @ rev (takeWhile is_ws (rev (uchars s)))"
    by (metis rev_append rev_rev_ident)
  then show ?thesis unfolding trim_end_def by (metis concat_append concat_uchars)
qed

lemma length_trim_end: "length (trim_end s) \<le> length s"
  using trim_end_prefix[of s] by (metis le_add1 length_append)

lemma prefix_append_cancel [text_simps]: "prefix (a @ b) (a @ c) \<longleftrightarrow> prefix b c"
  by simp

section \<open>Association lists as maps\<close>

lemma map_of_update: "map_of (AList.update k v m) k' = (if k' = k then Some v else map_of m k')"
  by (simp add: update_conv')

lemma map_of_filter_values:
  "distinct (map fst m) \<Longrightarrow>
   map_of (filter (\<lambda>(k, v). P v) m) k =
     (case map_of m k of None \<Rightarrow> None | Some v \<Rightarrow> if P v then Some v else None)"
  by (induction m) (auto split: option.splits simp: map_of_eq_None_iff dest: map_of_SomeD)

section \<open>Errors as values\<close>

text \<open>The \<open>?\<close> operator: an error returns early, a value goes on.\<close>

definition try_then :: "'e + 'a \<Rightarrow> ('a \<Rightarrow> 'e + 'b) \<Rightarrow> 'e + 'b" where
  "try_then r k = (case r of Inl e \<Rightarrow> Inl e | Inr x \<Rightarrow> k x)"

lemma try_then_simps [simp]: "try_then (Inl e) k = Inl e" "try_then (Inr x) k = k x"
  by (simp_all add: try_then_def)

lemma try_then_Inr: "try_then r k = Inr y \<longleftrightarrow> (\<exists>x. r = Inr x \<and> k x = Inr y)"
  by (cases r) auto

lemma try_then_unit: "try_then r k = Inr y \<longleftrightarrow> r = Inr () \<and> k () = Inr y"
  by (cases r) auto

lemma try_then_Inl: "try_then r k = Inl e \<longleftrightarrow> r = Inl e \<or> (\<exists>x. r = Inr x \<and> k x = Inl e)"
  by (cases r) auto

end
