(* ===== verification/Budget.thy ===== *)
theory Budget
  imports Prelude
begin

text \<open>
  The budget owner, \<open>crates/agent-budget\<close>: the static caps (\<open>config.rs\<close>), the counters and halt
  names (\<open>types.rs\<close>) and the guard with its two one-shot latches (\<open>guard.rs\<close>). Instants and
  durations are nanosecond counts; a guard operation that reads the clock takes the reading
  \<open>now\<close> as an argument. The locale \<open>metered_gate\<close> is what the run loop relies on: admitting a
  step uses up a finite allowance. Its interpretation on the guard gives the bound on the number
  of admitted steps of any run.
\<close>

section \<open>Counters, halts and configuration\<close>

record budget_counters =
  steps :: u32
  tokens :: u64
  spent_cents :: u64
  refunds :: u32
  same_action_streak :: u32
  actions_this_trial :: u32

datatype budget_halt = HSteps | HTokens | HWallclock | HSpend | HSameAction | HTrialActions

datatype nudge = WrapUp string

record budget_exceeded =
  be_halt :: budget_halt
  be_spent :: u64
  be_limit :: u64

fun halt_name :: "budget_halt \<Rightarrow> string" where
  "halt_name HSteps = ''steps''"
| "halt_name HTokens = ''tokens''"
| "halt_name HWallclock = ''wallclock''"
| "halt_name HSpend = ''spend''"
| "halt_name HSameAction = ''same-action''"
| "halt_name HTrialActions = ''trial-actions''"

record budget_config =
  max_steps :: u32
  warn_steps :: u32
  max_tokens :: u64
  max_wallclock :: nat
  max_spend_cents :: "u64 option"
  same_action_cycles :: u32
  actions_per_trial :: u32
  max_refunds :: u32

datatype capability = Interactive | UnattendedBatch | LongTask | Subagent | Eval

definition SPEND_ON_CENTS :: u64 where "SPEND_ON_CENTS = 400"

definition nanos :: "nat \<Rightarrow> nat" where "nanos s = s * 1000000000"

definition as_secs :: "nat \<Rightarrow> nat" where "as_secs d = d div 1000000000"

definition config_for :: "capability \<Rightarrow> budget_config" where
  "config_for cap =
     (let (st, warn, wall_secs, spend) =
        (case cap of
           Interactive \<Rightarrow> (100, 80, 3600, None)
         | UnattendedBatch \<Rightarrow> (20, 12, 900, Some SPEND_ON_CENTS)
         | LongTask \<Rightarrow> (40, 25, 3600, Some SPEND_ON_CENTS)
         | Subagent \<Rightarrow> (50, 40, 300, None)
         | Eval \<Rightarrow> (20, 12, 3600, Some SPEND_ON_CENTS))
      in \<lparr>max_steps = st, warn_steps = warn, max_tokens = 50000, max_wallclock = nanos wall_secs,
          max_spend_cents = spend, same_action_cycles = 3, actions_per_trial = 30,
          max_refunds = st div 4\<rparr>)"

definition with_steps :: "budget_config \<Rightarrow> u32 \<Rightarrow> budget_config" where
  "with_steps base st =
     base\<lparr>warn_steps := min (warn_steps base) (max (st - 1) 1),
          max_refunds := st div 4,
          max_steps := st\<rparr>"

text \<open>The non-zero fields and the widths every configuration of the code has.\<close>

definition config_ok :: "budget_config \<Rightarrow> bool" where
  "config_ok c \<longleftrightarrow> 0 < max_steps c \<and> max_steps c \<le> U32_MAX \<and> 0 < warn_steps c
     \<and> warn_steps c \<le> U32_MAX \<and> max_refunds c \<le> U32_MAX \<and> actions_per_trial c \<le> U32_MAX"

section \<open>The guard\<close>

record budget_guard =
  config :: budget_config
  counters :: budget_counters
  started :: nat
  grace_used :: bool
  nudge_fired :: bool

definition zero_counters :: budget_counters where
  "zero_counters = \<lparr>steps = 0, tokens = 0, spent_cents = 0, refunds = 0,
     same_action_streak = 0, actions_this_trial = 0\<rparr>"

definition new_guard :: "budget_config \<Rightarrow> nat \<Rightarrow> budget_guard" where
  "new_guard cfg st = \<lparr>config = cfg, counters = zero_counters, started = st,
     grace_used = False, nudge_fired = False\<rparr>"

definition elapsed :: "budget_guard \<Rightarrow> nat \<Rightarrow> nat" where
  "elapsed g now = now - started g"

definition peek :: "budget_guard \<Rightarrow> nat \<Rightarrow> budget_halt option" where
  "peek g now =
     (let c = counters g; cfg = config g in
      if max_steps cfg \<le> steps c then Some HSteps
      else if 0 < max_tokens cfg \<and> max_tokens cfg \<le> tokens c then Some HTokens
      else if max_wallclock cfg \<noteq> 0 \<and> max_wallclock cfg \<le> elapsed g now then Some HWallclock
      else if (case max_spend_cents cfg of Some limit \<Rightarrow> limit \<le> spent_cents c | None \<Rightarrow> False)
        then Some HSpend
      else if 0 < same_action_cycles cfg \<and> same_action_cycles cfg \<le> same_action_streak c
        then Some HSameAction
      else if 0 < actions_per_trial cfg \<and> actions_per_trial cfg \<le> actions_this_trial c
        then Some HTrialActions
      else None)"

definition may_step :: "budget_guard \<Rightarrow> nat \<Rightarrow> (budget_halt + unit) \<times> budget_guard" where
  "may_step g now =
     (case peek g now of
        None \<Rightarrow> (Inr (), g)
      | Some halt \<Rightarrow>
          if \<not> grace_used g then (Inr (), g\<lparr>grace_used := True\<rparr>) else (Inl halt, g))"

definition spent_limit :: "budget_guard \<Rightarrow> nat \<Rightarrow> budget_halt \<Rightarrow> u64 \<times> u64" where
  "spent_limit g now halt =
     (let c = counters g; cfg = config g in
      case halt of
        HSteps \<Rightarrow> (steps c, max_steps cfg)
      | HTokens \<Rightarrow> (tokens c, max_tokens cfg)
      | HWallclock \<Rightarrow> (as_secs (elapsed g now), as_secs (max_wallclock cfg))
      | HSpend \<Rightarrow> (spent_cents c, case max_spend_cents cfg of Some l \<Rightarrow> l | None \<Rightarrow> 0)
      | HSameAction \<Rightarrow> (same_action_streak c, same_action_cycles cfg)
      | HTrialActions \<Rightarrow> (actions_this_trial c, actions_per_trial cfg))"

definition exceeded :: "budget_guard \<Rightarrow> nat \<Rightarrow> budget_exceeded option" where
  "exceeded g now =
     map_option (\<lambda>halt. let (sp, li) = spent_limit g now halt
                        in \<lparr>be_halt = halt, be_spent = sp, be_limit = li\<rparr>) (peek g now)"

definition record_step :: "budget_guard \<Rightarrow> budget_guard" where
  "record_step g = g\<lparr>counters := (counters g)\<lparr>steps := sat_add32 (steps (counters g)) 1\<rparr>\<rparr>"

definition refund_step :: "budget_guard \<Rightarrow> budget_guard" where
  "refund_step g =
     (let c = counters g in
      if max_refunds (config g) \<le> refunds c then g
      else if 0 < steps c
        then g\<lparr>counters := c\<lparr>steps := steps c - 1, refunds := sat_add32 (refunds c) 1\<rparr>\<rparr>
      else g)"

definition record_tokens :: "budget_guard \<Rightarrow> u64 \<Rightarrow> budget_guard" where
  "record_tokens g n =
     g\<lparr>counters := (counters g)\<lparr>tokens := sat_add64 (tokens (counters g)) n\<rparr>\<rparr>"

definition record_spend_cents :: "budget_guard \<Rightarrow> u64 \<Rightarrow> budget_guard" where
  "record_spend_cents g n =
     g\<lparr>counters := (counters g)\<lparr>spent_cents := sat_add64 (spent_cents (counters g)) n\<rparr>\<rparr>"

definition nudge_due :: "budget_guard \<Rightarrow> nat \<Rightarrow> nudge option \<times> budget_guard" where
  "nudge_due g now =
     (if nudge_fired g then (None, g)
      else
        let mx = max_steps (config g);
            threshold = min (warn_steps (config g)) (max (mx - 1) 1);
            steps_due = threshold \<le> steps (counters g);
            wall_due = max_wallclock (config g) \<noteq> 0
              \<and> max_wallclock (config g) div 5 * 4 \<le> elapsed g now
        in if steps_due \<or> wall_due
           then (Some (WrapUp (''wrap up: step '' @ dec (steps (counters g)) @ ''/'' @ dec mx
                   @ ''; close out now'')), g\<lparr>nudge_fired := True\<rparr>)
           else (None, g))"

section \<open>The interface of a metered gate\<close>

text \<open>
  A client of the gate alternates \<open>admit\<close> and \<open>charge\<close> with work of its own that never gives
  allowance back. \<open>admissions\<close> counts the admitted steps of such a client; \<open>work\<close> is what it does
  between one step head and the next, \<open>ts\<close> the clock readings at the step heads.
\<close>

fun admissions ::
  "('g \<Rightarrow> nat \<Rightarrow> bool \<times> 'g) \<Rightarrow> ('g \<Rightarrow> 'g) \<Rightarrow> (nat \<Rightarrow> 'g \<Rightarrow> 'g) \<Rightarrow> 'g \<Rightarrow> nat list \<Rightarrow> nat" where
  "admissions adm chg work g [] = 0"
| "admissions adm chg work g (t # ts) =
     (case adm g t of
        (True, g') \<Rightarrow> Suc (admissions adm chg work (work t (chg g')) ts)
      | (False, g') \<Rightarrow> admissions adm chg work (work t g') ts)"

locale metered_gate =
  fixes adm :: "'g \<Rightarrow> nat \<Rightarrow> bool \<times> 'g"
    and chg :: "'g \<Rightarrow> 'g"
    and allowance :: "'g \<Rightarrow> nat"
    and ok :: "'g \<Rightarrow> bool"
  assumes admit_uses: "ok g \<Longrightarrow> adm g t = (True, g') \<Longrightarrow> allowance (chg g') < allowance g"
    and admit_ok: "ok g \<Longrightarrow> adm g t = (True, g') \<Longrightarrow> ok (chg g')"
    and refuse_keeps: "ok g \<Longrightarrow> adm g t = (False, g') \<Longrightarrow> allowance g' \<le> allowance g \<and> ok g'"
begin

lemma admissions_bounded:
  assumes "\<And>t g. ok g \<Longrightarrow> ok (work t g) \<and> allowance (work t g) \<le> allowance g"
  shows "ok g \<Longrightarrow> admissions adm chg work g ts \<le> allowance g"
proof (induction ts arbitrary: g)
  case Nil
  then show ?case by simp
next
  case (Cons t ts)
  obtain b g' where a: "adm g t = (b, g')" by fastforce
  show ?case
  proof (cases b)
    case True
    let ?h = "work t (chg g')"
    have a': "adm g t = (True, g')" using a True by simp
    have "ok (chg g')" by (rule admit_ok[OF Cons.prems a'])
    then have "ok ?h" "allowance ?h \<le> allowance (chg g')" using assms by simp_all
    moreover have "allowance (chg g') < allowance g" by (rule admit_uses[OF Cons.prems a'])
    ultimately have "ok ?h" "allowance ?h < allowance g" by simp_all
    then show ?thesis using a True Cons.IH[of ?h] by simp
  next
    case False
    let ?h = "work t g'"
    have a': "adm g t = (False, g')" using a False by simp
    have "allowance g' \<le> allowance g" "ok g'" using refuse_keeps[OF Cons.prems a'] by simp_all
    then have "ok ?h" "allowance ?h \<le> allowance g" using assms[of g' t] by simp_all
    then show ?thesis using a False Cons.IH[of ?h] by simp
  qed
qed

end

text \<open>
  The guard as a metered gate: its allowance is the steps left to the cap, the refunds left, and
  the grace step.
\<close>

definition guard_allowance :: "budget_guard \<Rightarrow> nat" where
  "guard_allowance g =
     (max_steps (config g) - steps (counters g))
     + (max_refunds (config g) - refunds (counters g))
     + (if grace_used g then 0 else 1)"

definition guard_ok :: "budget_guard \<Rightarrow> bool" where
  "guard_ok g \<longleftrightarrow> config_ok (config g) \<and> steps (counters g) \<le> U32_MAX
     \<and> tokens (counters g) \<le> U64_MAX \<and> spent_cents (counters g) \<le> U64_MAX
     \<and> refunds (counters g) \<le> max_refunds (config g)"

definition admit :: "budget_guard \<Rightarrow> nat \<Rightarrow> bool \<times> budget_guard" where
  "admit g now = (case may_step g now of (Inr _, g') \<Rightarrow> (True, g') | (Inl _, g') \<Rightarrow> (False, g'))"

lemmas guard_defs = record_step_def refund_step_def record_tokens_def record_spend_cents_def
  may_step_def nudge_due_def Let_def

lemma peek_steps: "max_steps (config g) \<le> steps (counters g) \<Longrightarrow> peek g now = Some HSteps"
  by (simp add: peek_def Let_def)

lemma peek_None_steps: "peek g now = None \<Longrightarrow> steps (counters g) < max_steps (config g)"
  by (rule ccontr) (simp add: peek_steps)

lemma may_step_Inr:
  "may_step g now = (Inr u, g') \<Longrightarrow>
     (peek g now = None \<and> g' = g) \<or> (peek g now \<noteq> None \<and> \<not> grace_used g \<and> g' = g\<lparr>grace_used := True\<rparr>)"
  by (auto simp: may_step_def split: option.splits if_splits)

lemma may_step_Inl:
  "may_step g now = (Inl h, g') \<Longrightarrow> peek g now = Some h \<and> grace_used g \<and> g' = g"
  by (auto simp: may_step_def split: option.splits if_splits)

lemma guard_ok_new: "config_ok cfg \<Longrightarrow> guard_ok (new_guard cfg t)"
  by (simp add: guard_ok_def new_guard_def zero_counters_def)

lemma guard_ok_record_step [simp]: "guard_ok g \<Longrightarrow> guard_ok (record_step g)"
  by (simp add: guard_ok_def record_step_def sat_add32_le)

lemma guard_ok_grace [simp]: "guard_ok (g\<lparr>grace_used := b\<rparr>) = guard_ok g"
  by (simp add: guard_ok_def)

lemma guard_ok_may_step: "guard_ok g \<Longrightarrow> guard_ok (snd (may_step g now))"
  by (auto simp: may_step_def split: option.splits)

lemma guard_ok_refund [simp]: "guard_ok g \<Longrightarrow> guard_ok (refund_step g)"
  by (auto simp: guard_ok_def refund_step_def Let_def sat_add32_def)

lemma guard_ok_tokens [simp]: "guard_ok g \<Longrightarrow> guard_ok (record_tokens g n)"
  by (simp add: guard_ok_def record_tokens_def sat_add64_le)

lemma guard_ok_spend [simp]: "guard_ok g \<Longrightarrow> guard_ok (record_spend_cents g n)"
  by (simp add: guard_ok_def record_spend_cents_def sat_add64_le)

lemma guard_ok_nudge: "guard_ok g \<Longrightarrow> guard_ok (snd (nudge_due g now))"
  by (simp add: guard_ok_def nudge_due_def Let_def)

lemma allowance_refund: "guard_ok g \<Longrightarrow> guard_allowance (refund_step g) \<le> guard_allowance g"
  by (auto simp: guard_allowance_def refund_step_def Let_def guard_ok_def config_ok_def sat_add32_def)

lemma allowance_tokens [simp]: "guard_allowance (record_tokens g n) = guard_allowance g"
  by (simp add: guard_allowance_def record_tokens_def)

lemma allowance_spend [simp]: "guard_allowance (record_spend_cents g n) = guard_allowance g"
  by (simp add: guard_allowance_def record_spend_cents_def)

lemma allowance_nudge [simp]: "guard_allowance (snd (nudge_due g now)) = guard_allowance g"
  by (simp add: guard_allowance_def nudge_due_def Let_def)

lemma allowance_admit:
  assumes "guard_ok g" "may_step g now = (Inr u, g')"
  shows "guard_allowance (record_step g') < guard_allowance g"
proof -
  have "steps (counters g) < max_steps (config g) \<Longrightarrow>
      sat_add32 (steps (counters g)) 1 = steps (counters g) + 1"
    using assms(1) by (simp add: guard_ok_def config_ok_def sat_add32_def)
  moreover have "steps (counters g) \<le> sat_add32 (steps (counters g)) 1"
    using assms(1) by (simp add: guard_ok_def sat_add32_def)
  ultimately show ?thesis
    using may_step_Inr[OF assms(2)]
    by (auto simp: guard_allowance_def record_step_def dest: peek_None_steps)
qed

interpretation guard: metered_gate admit record_step guard_allowance guard_ok
proof
  fix g t g'
  assume ok: "guard_ok g" and a: "admit g t = (True, g')"
  then obtain u where m: "may_step g t = (Inr u, g')"
    by (auto simp: admit_def split: prod.splits sum.splits)
  show "guard_allowance (record_step g') < guard_allowance g"
    by (rule allowance_admit[OF ok m])
  show "guard_ok (record_step g')"
    using guard_ok_may_step[OF ok, of t] m by simp
next
  fix g t g'
  assume ok: "guard_ok g" and a: "admit g t = (False, g')"
  then have "g' = g"
    by (auto simp: admit_def dest: may_step_Inl split: prod.splits sum.splits)
  then show "guard_allowance g' \<le> guard_allowance g \<and> guard_ok g'" using ok by simp
qed

section \<open>Runs of guard operations\<close>

datatype guard_op =
    OpMayStep nat
  | OpRecordStep
  | OpRefund
  | OpTokens u64
  | OpSpend u64
  | OpNudge nat

fun guard_step :: "budget_guard \<Rightarrow> guard_op \<Rightarrow> budget_guard" where
  "guard_step g (OpMayStep t) = snd (may_step g t)"
| "guard_step g OpRecordStep = record_step g"
| "guard_step g OpRefund = refund_step g"
| "guard_step g (OpTokens n) = record_tokens g n"
| "guard_step g (OpSpend n) = record_spend_cents g n"
| "guard_step g (OpNudge t) = snd (nudge_due g t)"

definition guard_run :: "budget_guard \<Rightarrow> guard_op list \<Rightarrow> budget_guard" where
  "guard_run g ops = fold (\<lambda>oper g. guard_step g oper) ops g"

lemma guard_run_simps [simp]:
  "guard_run g [] = g"
  "guard_run g (oper # ops) = guard_run (guard_step g oper) ops"
  by (simp_all add: guard_run_def)

text \<open>How often a run admits a step although a cap is exhausted, and how often it nudges.\<close>

fun grace_admissions :: "budget_guard \<Rightarrow> guard_op list \<Rightarrow> nat" where
  "grace_admissions g [] = 0"
| "grace_admissions g (oper # ops) =
     (case oper of
        OpMayStep t \<Rightarrow> (if peek g t \<noteq> None \<and> fst (may_step g t) = Inr () then 1 else 0)
      | _ \<Rightarrow> 0) + grace_admissions (guard_step g oper) ops"

fun nudges :: "budget_guard \<Rightarrow> guard_op list \<Rightarrow> nat" where
  "nudges g [] = 0"
| "nudges g (oper # ops) =
     (case oper of OpNudge t \<Rightarrow> (if fst (nudge_due g t) \<noteq> None then 1 else 0) | _ \<Rightarrow> 0)
     + nudges (guard_step g oper) ops"

lemma guard_step_config [simp]: "config (guard_step g oper) = config g"
  by (cases oper) (auto simp: guard_defs split: option.splits)

lemma guard_step_ok: "guard_ok g \<Longrightarrow> guard_ok (guard_step g oper)"
  by (cases oper) (auto intro: guard_ok_may_step guard_ok_nudge)

lemma allowance_may_step: "guard_allowance (snd (may_step g t)) \<le> guard_allowance g"
  by (auto simp: may_step_def guard_allowance_def split: option.splits)

lemma allowance_record_step: "guard_ok g \<Longrightarrow> guard_allowance (record_step g) \<le> guard_allowance g"
  using sat_add32_mono[of "steps (counters g)" 1]
  by (simp add: guard_allowance_def record_step_def guard_ok_def diff_le_mono2 diff_le_mono)

lemma guard_step_allowance: "guard_ok g \<Longrightarrow> guard_allowance (guard_step g oper) \<le> guard_allowance g"
  by (cases oper) (auto simp: allowance_may_step allowance_record_step allowance_refund)

lemma guard_run_ok:
  "guard_ok g \<Longrightarrow> guard_ok (guard_run g ops) \<and> guard_allowance (guard_run g ops) \<le> guard_allowance g
     \<and> config (guard_run g ops) = config g"
proof (induction ops arbitrary: g)
  case (Cons oper ops)
  note step = guard_step_ok[OF Cons.prems, of oper] guard_step_allowance[OF Cons.prems, of oper]
  from Cons.IH[OF step(1)] step(2) show ?case by simp
qed simp

lemma guard_step_grace_mono: "grace_used g \<Longrightarrow> grace_used (guard_step g oper)"
  by (cases oper) (auto simp: guard_defs split: option.splits)

lemma guard_step_nudge_mono: "nudge_fired g \<Longrightarrow> nudge_fired (guard_step g oper)"
  by (cases oper) (auto simp: guard_defs split: option.splits)

lemma grace_admissions_bound:
  "grace_admissions g ops \<le> (if grace_used g then 0 else 1)"
proof (induction ops arbitrary: g)
  case Nil
  then show ?case by simp
next
  case (Cons oper ops)
  show ?case
    using Cons[of "guard_step g oper"] guard_step_grace_mono[of g oper]
    by (cases oper) (auto simp: may_step_def split: option.splits if_splits)
qed

lemma nudges_bound: "nudges g ops \<le> (if nudge_fired g then 0 else 1)"
proof (induction ops arbitrary: g)
  case Nil
  then show ?case by simp
next
  case (Cons oper ops)
  show ?case
    using Cons[of "guard_step g oper"] guard_step_nudge_mono[of g oper]
    by (cases oper) (auto simp: nudge_due_def Let_def split: if_splits)
qed

lemma peek_spent_limit:
  "peek g now = Some h \<Longrightarrow> snd (spent_limit g now h) \<le> fst (spent_limit g now h)"
  by (auto simp: peek_def spent_limit_def Let_def as_secs_def div_le_mono
      split: if_splits option.splits)

section \<open>Properties\<close>

text \<open>C12 (budget_bounds_admissions): A run is bounded by its configuration alone. However the
  guard's other operations (refunds, tokens, spend, nudges) are interleaved with the step heads
  and whatever the clock reads, the guard admits at most \<open>max_steps + max_refunds + 1\<close> steps: the
  cap, one more for every refund, and the single grace step.\<close>

theorem budget_bounds_admissions:
  assumes "config_ok cfg"
  shows "admissions admit record_step (\<lambda>t g. guard_run g (work t)) (new_guard cfg t0) ts
           \<le> max_steps cfg + max_refunds cfg + 1"
proof -
  have "admissions admit record_step (\<lambda>t g. guard_run g (work t)) (new_guard cfg t0) ts
      \<le> guard_allowance (new_guard cfg t0)"
    by (rule guard.admissions_bounded) (simp_all add: guard_run_ok guard_ok_new assms)
  then show ?thesis by (simp add: guard_allowance_def new_guard_def zero_counters_def)
qed

theorem budget_bounds_admissions_witness:
  "admissions admit record_step (\<lambda>t g. guard_run g [OpTokens 7, OpRefund])
     (new_guard (config_for UnattendedBatch) 0) [1, 2, 3] \<le> 20 + 5 + 1"
  using budget_bounds_admissions
    [of "config_for UnattendedBatch" "\<lambda>_. [OpTokens 7, OpRefund]" 0 "[1, 2, 3]"]
  by (simp add: config_for_def config_ok_def U32_MAX_def SPEND_ON_CENTS_def)

text \<open>The grace step is granted at most once in the life of a guard: over any
  sequence of guard operations, at most one \<open>may_step\<close> call answers \<open>Ok\<close> while a cap is
  exhausted.\<close>

theorem grace_step_once: "grace_admissions (new_guard cfg t0) ops \<le> 1"
  using grace_admissions_bound[of "new_guard cfg t0" ops] by (simp add: new_guard_def)

text \<open>When \<open>may_step\<close> refuses, \<open>exceeded\<close> reports the very same
  halt, with a spent value that has reached its limit, and the guard is unchanged: the step head
  and the termination check never disagree on why a run stops.\<close>

theorem refusal_matches_exceeded:
  assumes "may_step g now = (Inl h, g')"
  shows "g' = g \<and> (\<exists>e. exceeded g now = Some e \<and> be_halt e = h \<and> be_limit e \<le> be_spent e)"
proof -
  have p: "peek g now = Some h" "g' = g" using may_step_Inl[OF assms] by simp_all
  then show ?thesis
    using peek_spent_limit[OF p(1)] by (auto simp: exceeded_def split: prod.splits)
qed

theorem refusal_matches_exceeded_witness:
  "\<exists>g. may_step g 0 = (Inl HSteps, g) \<and> exceeded g 0 = Some \<lparr>be_halt = HSteps, be_spent = 20, be_limit = 20\<rparr>"
proof -
  define g where "g = (new_guard (config_for Eval) 0)
    \<lparr>counters := zero_counters\<lparr>steps := 20\<rparr>, grace_used := True\<rparr>"
  have m: "may_step g 0 = (Inl HSteps, g)"
    by (simp add: g_def may_step_def peek_def new_guard_def config_for_def)
  from refusal_matches_exceeded[OF m] obtain e where
    "exceeded g 0 = Some e" "be_halt e = HSteps" "be_limit e \<le> be_spent e" by blast
  then have "exceeded g 0 = Some \<lparr>be_halt = HSteps, be_spent = 20, be_limit = 20\<rparr>"
    by (auto simp: exceeded_def spent_limit_def g_def peek_def new_guard_def config_for_def)
  with m show ?thesis by blast
qed

text \<open>An explicit step budget is honoured exactly and keeps the
  configuration usable: every other cap of the base stays, refunds are a quarter of the new cap,
  the warning threshold never grows, leaves a step before the cap (a cap of one step has no room
  for it) and stays non-zero.\<close>

theorem step_override_keeps_headroom:
  assumes "config_ok base" "0 < st" "st \<le> U32_MAX"
  shows "config_ok (with_steps base st)
    \<and> max_steps (with_steps base st) = st \<and> max_refunds (with_steps base st) = st div 4
    \<and> warn_steps (with_steps base st) \<le> warn_steps base
    \<and> (1 < st \<longrightarrow> warn_steps (with_steps base st) < st)
    \<and> (with_steps base st)\<lparr>max_steps := max_steps base, warn_steps := warn_steps base,
         max_refunds := max_refunds base\<rparr> = base"
  using assms by (auto simp: with_steps_def config_ok_def)

theorem step_override_keeps_headroom_witness:
  "config_ok (with_steps (config_for LongTask) 8) \<and> warn_steps (with_steps (config_for LongTask) 8) < 8"
  using step_override_keeps_headroom[of "config_for LongTask" 8]
  by (simp add: config_for_def config_ok_def U32_MAX_def)

end
