(* ===== verification/Bets.thy ===== *)
theory Bets
  imports Prelude
begin

text \<open>
  The capability bets, \<open>crates/bets\<close>: the claim field and its history (\<open>claim.rs\<close>), the
  proof-gated batch commit with its savepoint (\<open>commit.rs\<close>), candidate racing (\<open>race.rs\<close>) and the
  ablation counters (\<open>metrics.rs\<close>). Scores and rates, \<open>f64\<close> in the code, are reals here.
\<close>

section \<open>Claims\<close>

record claim =
  predicted_verdict :: string
  on_mismatch :: string

datatype claim_assessment = Match | Mismatch

definition MAX_CLAIM_HISTORY :: nat where "MAX_CLAIM_HISTORY = 3"

record claim_history =
  recent :: "claim_assessment list"
  filed :: u64
  abstained :: u64

definition empty_history :: claim_history where
  "empty_history = \<lparr>recent = [], filed = 0, abstained = 0\<rparr>"

definition history_push :: "claim_history \<Rightarrow> claim \<Rightarrow> claim_assessment \<Rightarrow> claim_history" where
  "history_push h c a =
     (let h1 = (if trim (predicted_verdict c) = [] then h\<lparr>abstained := wrap_add64 (abstained h) 1\<rparr>
                else h\<lparr>filed := wrap_add64 (filed h) 1\<rparr>);
          r = (if MAX_CLAIM_HISTORY \<le> length (recent h1) then tl (recent h1) else recent h1)
      in h1\<lparr>recent := r @ [a]\<rparr>)"

definition refusal_rate :: "claim_history \<Rightarrow> real" where
  "refusal_rate h =
     (let total = wrap_add64 (filed h) (abstained h)
      in if total = 0 then 0 else real (abstained h) / real total)"

definition assess_claim :: "claim \<Rightarrow> string \<Rightarrow> claim_assessment" where
  "assess_claim c observation =
     (let predicted = to_lowercase (trim (predicted_verdict c));
          observed = to_lowercase (trim observation)
      in if predicted = [] \<or> str_contains observed predicted
            \<or> (observed \<noteq> [] \<and> str_contains predicted observed)
         then Match else Mismatch)"

definition dissonance_score :: "claim \<Rightarrow> string \<Rightarrow> real" where
  "dissonance_score c observation =
     (case assess_claim c observation of Match \<Rightarrow> 0 | Mismatch \<Rightarrow> 1)"

section \<open>Batch commit\<close>

record savepoint =
  kept_hunks :: "string list"
  reverted_hunks :: "string list"

datatype commit_verdict = Committed | Partial savepoint | Aborted string

type_synonym hunk = "string \<times> bool"

definition gate_commit :: "claim \<Rightarrow> bool \<Rightarrow> commit_verdict" where
  "gate_commit c proof_passed =
     (if proof_passed then Committed
      else Aborted (''claim unsatisfied: '' @ predicted_verdict c))"

fun first_failure :: "hunk list \<Rightarrow> nat" where
  "first_failure [] = 0"
| "first_failure ((_, passed) # hs) = (if \<not> passed then 0 else Suc (first_failure hs))"

definition split_savepoint :: "hunk list \<Rightarrow> savepoint" where
  "split_savepoint hunks =
     (let first_fail = first_failure hunks
      in \<lparr>kept_hunks = map fst (take first_fail hunks),
          reverted_hunks = map fst (drop first_fail hunks)\<rparr>)"

definition gate_batch_commit :: "claim \<Rightarrow> hunk list \<Rightarrow> commit_verdict" where
  "gate_batch_commit c hunks =
     (if hunks = [] then Aborted ''no hunks proven''
      else
        let sp = split_savepoint hunks
        in if reverted_hunks sp = [] then Committed
           else if kept_hunks sp = []
             then Aborted (''claim unsatisfied at first hunk: '' @ predicted_verdict c)
           else Partial sp)"

section \<open>Candidate racing\<close>

record race_config =
  max_branches :: u32
  max_extra_spend_cents :: u64

definition default_race_config :: race_config where
  "default_race_config = \<lparr>max_branches = 2, max_extra_spend_cents = 200\<rparr>"

record branch_outcome =
  branch_id :: u32
  verifier_score :: real
  spend_cents :: u64

definition better :: "branch_outcome \<Rightarrow> branch_outcome \<Rightarrow> branch_outcome" where
  "better best oc = (if verifier_score best < verifier_score oc then oc else best)"

definition contenders :: "branch_outcome list \<Rightarrow> race_config \<Rightarrow> branch_outcome list" where
  "contenders outcomes cfg =
     filter (\<lambda>oc. spend_cents oc \<le> max_extra_spend_cents cfg) (take (max_branches cfg) outcomes)"

definition pick_winner :: "branch_outcome list \<Rightarrow> race_config \<Rightarrow> u32 option" where
  "pick_winner outcomes cfg =
     (case contenders outcomes cfg of
        [] \<Rightarrow> None
      | oc # rest \<Rightarrow> Some (branch_id (foldl better oc rest)))"

section \<open>Ablation counters\<close>

record ablation_metrics =
  rollbacks :: u64
  proven_hunks :: u64
  claim_mismatches :: u64
  branch_wins :: u64
  branch_spend_cents :: u64

definition zero_metrics :: ablation_metrics where
  "zero_metrics = \<lparr>rollbacks = 0, proven_hunks = 0, claim_mismatches = 0, branch_wins = 0,
     branch_spend_cents = 0\<rparr>"

definition note_assessment :: "ablation_metrics \<Rightarrow> claim_assessment \<Rightarrow> ablation_metrics" where
  "note_assessment m a =
     (if a = Mismatch then m\<lparr>claim_mismatches := wrap_add64 (claim_mismatches m) 1\<rparr> else m)"

definition note_commit :: "ablation_metrics \<Rightarrow> commit_verdict \<Rightarrow> ablation_metrics" where
  "note_commit m verdict =
     (case verdict of
        Committed \<Rightarrow> m\<lparr>proven_hunks := wrap_add64 (proven_hunks m) 1\<rparr>
      | Partial sp \<Rightarrow> m\<lparr>proven_hunks := wrap_add64 (proven_hunks m) (length (kept_hunks sp)),
                       rollbacks := wrap_add64 (rollbacks m) 1\<rparr>
      | Aborted _ \<Rightarrow> m\<lparr>rollbacks := wrap_add64 (rollbacks m) 1\<rparr>)"

definition note_race ::
  "ablation_metrics \<Rightarrow> u32 option \<Rightarrow> branch_outcome list \<Rightarrow> ablation_metrics" where
  "note_race m winner raced =
     (let m1 = (if winner \<noteq> None then m\<lparr>branch_wins := wrap_add64 (branch_wins m) 1\<rparr> else m)
      in m1\<lparr>branch_spend_cents :=
             wrap_add64 (branch_spend_cents m1) (fold (\<lambda>b acc. wrap_add64 acc (spend_cents b)) raced 0)\<rparr>)"

section \<open>Lemmas\<close>

lemma first_failure_le: "first_failure hs \<le> length hs"
  by (induction hs rule: first_failure.induct) auto

lemma first_failure_prefix: "i < first_failure hs \<Longrightarrow> snd (hs ! i)"
proof (induction hs arbitrary: i rule: first_failure.induct)
  case (2 h passed hs)
  then show ?case by (cases i) (auto split: if_splits)
qed simp

lemma first_failure_fails: "first_failure hs < length hs \<Longrightarrow> \<not> snd (hs ! first_failure hs)"
  by (induction hs rule: first_failure.induct) auto

lemma first_failure_all: "first_failure hs = length hs \<longleftrightarrow> (\<forall>h\<in>set hs. snd h)"
  by (induction hs rule: first_failure.induct) auto

lemma first_failure_0: "first_failure hs = 0 \<longleftrightarrow> hs = [] \<or> \<not> snd (hd hs)"
  by (cases hs) auto

lemma reverted_Nil: "reverted_hunks (split_savepoint hs) = [] \<longleftrightarrow> (\<forall>h\<in>set hs. snd h)"
  using first_failure_le[of hs] first_failure_all[of hs]
  by (auto simp: split_savepoint_def Let_def)

lemma kept_Nil: "kept_hunks (split_savepoint hs) = [] \<longleftrightarrow> hs = [] \<or> \<not> snd (hd hs)"
  using first_failure_0[of hs] by (auto simp: split_savepoint_def Let_def)

lemma foldl_better_mem: "foldl better oc rest \<in> set (oc # rest)"
proof (induction rest arbitrary: oc)
  case (Cons x xs)
  then show ?case using Cons[of "better oc x"] by (auto simp: better_def)
qed simp

lemma foldl_better_max: "x \<in> set (oc # rest) \<Longrightarrow> verifier_score x \<le> verifier_score (foldl better oc rest)"
proof (induction rest arbitrary: oc x)
  case Nil
  then show ?case by simp
next
  case (Cons y ys)
  have "verifier_score oc \<le> verifier_score (better oc y)" "verifier_score y \<le> verifier_score (better oc y)"
    by (simp_all add: better_def)
  then show ?case
    using Cons.IH[of "better oc y" "better oc y"] Cons.IH[of x "better oc y"] Cons.prems
    by fastforce
qed

text \<open>The fold returns the first element of maximal score.\<close>

lemma foldl_better_first:
  "\<exists>pre post. oc # rest = pre @ foldl better oc rest # post
     \<and> (\<forall>x\<in>set pre. verifier_score x < verifier_score (foldl better oc rest))"
proof (induction rest rule: rev_induct)
  case Nil
  then show ?case by (metis append_Nil empty_iff empty_set foldl_Nil)
next
  case (snoc y ys)
  let ?b = "foldl better oc ys"
  show ?case
  proof (cases "verifier_score ?b < verifier_score y")
    case True
    have "\<forall>x\<in>set (oc # ys). verifier_score x < verifier_score y"
      using foldl_better_max[of _ oc ys] True by (meson le_less_trans)
    then have "oc # ys @ [y] = (oc # ys) @ foldl better oc (ys @ [y]) # []
        \<and> (\<forall>x\<in>set (oc # ys). verifier_score x < verifier_score (foldl better oc (ys @ [y])))"
      using True by (simp add: better_def)
    then show ?thesis by blast
  next
    case False
    from snoc obtain pre post where
      "oc # ys = pre @ ?b # post" "\<forall>x\<in>set pre. verifier_score x < verifier_score ?b" by blast
    then have "oc # ys @ [y] = pre @ foldl better oc (ys @ [y]) # (post @ [y])
        \<and> (\<forall>x\<in>set pre. verifier_score x < verifier_score (foldl better oc (ys @ [y])))"
      using False by (simp add: better_def)
    then show ?thesis by blast
  qed
qed

lemma to_lowercase_Nil [simp]: "to_lowercase [] = []"
  by (simp add: to_lowercase_def)

section \<open>Properties\<close>

text \<open>The savepoint keeps exactly the proven leading prefix of a
  batch: kept and reverted hunks together are the batch in order, every kept hunk was proven, and
  what is reverted starts at the first hunk that failed, so a later hunk that passed on its own
  is reverted with it.\<close>

theorem savepoint_is_proven_prefix:
  "kept_hunks (split_savepoint hunks) @ reverted_hunks (split_savepoint hunks) = map fst hunks
   \<and> (\<forall>i < length (kept_hunks (split_savepoint hunks)). snd (hunks ! i))
   \<and> (reverted_hunks (split_savepoint hunks) = []
      \<or> \<not> snd (hunks ! length (kept_hunks (split_savepoint hunks))))"
  using first_failure_le[of hunks] first_failure_prefix[of _ hunks] first_failure_fails[of hunks]
  by (auto simp: split_savepoint_def Let_def min_def simp flip: map_append)

theorem savepoint_is_proven_prefix_witness:
  "kept_hunks (split_savepoint [(''h1'', True), (''h2'', False), (''h3'', True)]) = [''h1'']
   \<and> reverted_hunks (split_savepoint [(''h1'', True), (''h2'', False), (''h3'', True)])
     = [''h2'', ''h3'']"
  using savepoint_is_proven_prefix[of "[(''h1'', True), (''h2'', False), (''h3'', True)]"]
  by (simp add: split_savepoint_def)

text \<open>The verdict of a batch is decided by its proof flags alone:
  \<open>Committed\<close> exactly when the batch is non-empty and every hunk is proven, \<open>Partial\<close> exactly when
  the first hunk is proven and a later one is not (and then its savepoint keeps and reverts
  something), \<open>Aborted\<close> exactly when nothing is proven.\<close>

theorem batch_verdict_complete:
  "(gate_batch_commit c hunks = Committed \<longleftrightarrow> hunks \<noteq> [] \<and> (\<forall>h\<in>set hunks. snd h))
   \<and> ((\<exists>sp. gate_batch_commit c hunks = Partial sp)
        \<longleftrightarrow> hunks \<noteq> [] \<and> snd (hd hunks) \<and> (\<exists>h\<in>set hunks. \<not> snd h))
   \<and> (\<forall>sp. gate_batch_commit c hunks = Partial sp \<longrightarrow>
        sp = split_savepoint hunks \<and> kept_hunks sp \<noteq> [] \<and> reverted_hunks sp \<noteq> [])
   \<and> ((\<exists>r. gate_batch_commit c hunks = Aborted r) \<longleftrightarrow> hunks = [] \<or> \<not> snd (hd hunks))"
proof (cases hunks)
  case Nil
  then show ?thesis by (simp add: gate_batch_commit_def)
next
  case (Cons h hs)
  then show ?thesis
    by (cases "snd h"; cases "\<forall>x\<in>set hs. snd x")
       (simp_all add: gate_batch_commit_def Let_def reverted_Nil kept_Nil)
qed

theorem batch_verdict_complete_witness:
  "gate_batch_commit \<lparr>predicted_verdict = ''ok'', on_mismatch = []\<rparr> [(''a'', True), (''b'', False)]
     = Partial \<lparr>kept_hunks = [''a''], reverted_hunks = [''b'']\<rparr>"
  using batch_verdict_complete
    [of "\<lparr>predicted_verdict = ''ok'', on_mismatch = []\<rparr>" "[(''a'', True), (''b'', False)]"]
  by (auto simp: split_savepoint_def)

text \<open>The winner of a race is a branch among the first
  \<open>max_branches\<close> that kept to the spend cap; no such branch scored higher and every one before it
  scored strictly lower, so ties keep the earliest; there is no winner exactly when no branch
  qualifies.\<close>

theorem race_winner_is_first_best:
  "(pick_winner outcomes cfg = None \<longleftrightarrow> contenders outcomes cfg = [])
   \<and> (\<forall>w. pick_winner outcomes cfg = Some w \<longrightarrow>
        (\<exists>pre oc post. contenders outcomes cfg = pre @ oc # post \<and> branch_id oc = w
           \<and> spend_cents oc \<le> max_extra_spend_cents cfg
           \<and> oc \<in> set (take (max_branches cfg) outcomes)
           \<and> (\<forall>x\<in>set pre. verifier_score x < verifier_score oc)
           \<and> (\<forall>x\<in>set (contenders outcomes cfg). verifier_score x \<le> verifier_score oc)))"
proof (cases "contenders outcomes cfg")
  case Nil
  then show ?thesis by (simp add: pick_winner_def)
next
  case (Cons oc rest)
  let ?w = "foldl better oc rest"
  obtain pre post where split: "contenders outcomes cfg = pre @ ?w # post"
    "\<forall>x\<in>set pre. verifier_score x < verifier_score ?w"
    using foldl_better_first[of oc rest] Cons by auto
  then have "?w \<in> set (contenders outcomes cfg)" by simp
  then have "spend_cents ?w \<le> max_extra_spend_cents cfg" "?w \<in> set (take (max_branches cfg) outcomes)"
    by (auto simp: contenders_def)
  moreover have "\<forall>x\<in>set (contenders outcomes cfg). verifier_score x \<le> verifier_score ?w"
    using foldl_better_max[of _ oc rest] Cons by simp
  moreover have "pick_winner outcomes cfg = Some (branch_id ?w)" by (simp add: pick_winner_def Cons)
  ultimately have w: "pick_winner outcomes cfg = Some (branch_id ?w)"
    and best: "contenders outcomes cfg = pre @ ?w # post \<and> branch_id ?w = branch_id ?w
      \<and> spend_cents ?w \<le> max_extra_spend_cents cfg \<and> ?w \<in> set (take (max_branches cfg) outcomes)
      \<and> (\<forall>x\<in>set pre. verifier_score x < verifier_score ?w)
      \<and> (\<forall>x\<in>set (contenders outcomes cfg). verifier_score x \<le> verifier_score ?w)"
    using split by simp_all
  have "\<exists>pre oc post. contenders outcomes cfg = pre @ oc # post \<and> branch_id oc = branch_id ?w
      \<and> spend_cents oc \<le> max_extra_spend_cents cfg \<and> oc \<in> set (take (max_branches cfg) outcomes)
      \<and> (\<forall>x\<in>set pre. verifier_score x < verifier_score oc)
      \<and> (\<forall>x\<in>set (contenders outcomes cfg). verifier_score x \<le> verifier_score oc)"
    by (rule exI, rule exI, rule exI, rule best)
  then show ?thesis using w Cons by simp
qed

theorem race_winner_is_first_best_witness:
  "pick_winner [\<lparr>branch_id = 0, verifier_score = 9 / 10, spend_cents = 500\<rparr>,
                \<lparr>branch_id = 1, verifier_score = 7 / 10, spend_cents = 50\<rparr>] default_race_config = Some 1"
proof -
  let ?o = "[\<lparr>branch_id = 0, verifier_score = 9 / 10, spend_cents = 500\<rparr>,
             \<lparr>branch_id = 1, verifier_score = 7 / 10, spend_cents = 50\<rparr>]"
  have c: "contenders ?o default_race_config = [\<lparr>branch_id = 1, verifier_score = 7 / 10, spend_cents = 50\<rparr>]"
    by (simp add: contenders_def default_race_config_def)
  then have "pick_winner ?o default_race_config \<noteq> None"
    using race_winner_is_first_best[of ?o default_race_config] by simp
  then show ?thesis using c by (simp add: pick_winner_def)
qed

end
