(* ===== verification/Events.thy ===== *)
theory Events
  imports Prelude
begin

text \<open>
  The JSON value type the crates share, and the live event vocabulary of \<open>crates/agent-event\<close>: the
  message, control and usage types (\<open>types.rs\<close>), the event enum (\<open>event.rs\<close>), the emission seam
  with its listeners and bounded taps (\<open>emitter.rs\<close>) and the pairing check (\<open>pairing.rs\<close>).
  A listener is a predicate on events that says whether it panics; a tap is a bounded queue with a
  flag for a dropped receiver. \<open>f64\<close> costs are reals.
\<close>

section \<open>JSON values\<close>

text \<open>
  \<open>serde_json::Value\<close> by its documented constructors. Printing and parsing are parameters wherever
  they are used. Object members are kept in the order of the map's iteration.
\<close>

datatype json =
    JNull
  | JBool bool
  | JInt int
  | JFloat real
  | JStr string
  | JArr "json list"
  | JObj "(string \<times> json) list"

fun as_object :: "json \<Rightarrow> (string \<times> json) list option" where
  "as_object (JObj m) = Some m"
| "as_object _ = None"

fun as_str :: "json \<Rightarrow> string option" where
  "as_str (JStr s) = Some s"
| "as_str _ = None"

fun json_get :: "string \<Rightarrow> json \<Rightarrow> json option" where
  "json_get k (JObj m) = map_of m k"
| "json_get k _ = None"

section \<open>Types\<close>

type_synonym run_id = u64
type_synonym turn_id = u64
type_synonym message_id = u64
type_synonym tool_call_id = string

datatype role = RSystem | RUser | RAssistant | RTool

record message =
  msg_role :: role
  msg_content :: string

datatype delta_kind = DText | DThinking | DToolCall

record message_delta =
  delta_kind :: delta_kind
  delta_text :: "string option"

datatype ev_turn_end_reason = EvCompleted | EvError | EvAborted | EvStopped | EvMaxSteps | EvBudgetExceeded

datatype run_outcome = Passed | RunFailed string | RunAborted

datatype control_kind = Steer | Queue | Stop

datatype control_status = Applied | Rejected

record control_ack =
  ack_id :: u64
  ack_kind :: control_kind
  ack_status :: control_status
  ack_note :: string

record agent_error =
  err_code :: string
  err_message :: string

record usage_report =
  input_tokens :: u64
  output_tokens :: u64
  cache_read_tokens :: u64
  reasoning_tokens :: "u64 option"
  cost_usd :: "real option"

definition default_usage_report :: usage_report where
  "default_usage_report = \<lparr>input_tokens = 0, output_tokens = 0, cache_read_tokens = 0,
     reasoning_tokens = None, cost_usd = None\<rparr>"

datatype agent_event =
    RunStart run_id string
  | RunEnd run_outcome "message list"
  | TurnStart turn_id
  | TurnEnd turn_id ev_turn_end_reason usage_report
  | MessageStart message_id role message
  | MessageUpdate message_id message_delta message
  | MessageEnd message_id message bool "usage_report option"
  | ToolStart tool_call_id string json
  | ToolEnd tool_call_id json bool
  | Control control_ack
  | Error agent_error

section \<open>The emitter\<close>

record tap =
  tap_capacity :: nat
  tap_queue :: "agent_event list"
  tap_connected :: bool

record emitter =
  history :: "agent_event list"
  listeners :: "(agent_event \<Rightarrow> bool) list"
  taps :: "tap list"

definition new_emitter :: emitter where
  "new_emitter = \<lparr>history = [], listeners = [], taps = []\<rparr>"

definition emitter_on :: "emitter \<Rightarrow> (agent_event \<Rightarrow> bool) \<Rightarrow> emitter" where
  "emitter_on em l = em\<lparr>listeners := listeners em @ [l]\<rparr>"

definition emitter_tap :: "emitter \<Rightarrow> nat \<Rightarrow> emitter" where
  "emitter_tap em capacity =
     em\<lparr>taps := taps em @ [\<lparr>tap_capacity = max capacity 1, tap_queue = [], tap_connected = True\<rparr>]\<rparr>"

text \<open>\<open>try_send\<close> on a bounded channel: a full queue drops the new event and keeps the tap.\<close>

definition try_send :: "agent_event \<Rightarrow> tap \<Rightarrow> tap" where
  "try_send ev t =
     (if length (tap_queue t) < tap_capacity t then t\<lparr>tap_queue := tap_queue t @ [ev]\<rparr> else t)"

definition listener_panic :: agent_event where
  "listener_panic = Error \<lparr>err_code = ''listener-panic'',
     err_message = ''a listener panicked handling an event''\<rparr>"

function emit_inner :: "emitter \<Rightarrow> agent_event \<Rightarrow> bool \<Rightarrow> emitter" where
  "emit_inner em event is_error_delivery =
     (let failed = list_ex (\<lambda>l. l event) (listeners em);
          em1 = em\<lparr>history := history em @ [event],
                   taps := map (try_send event) (filter tap_connected (taps em))\<rparr>
      in if failed \<and> \<not> is_error_delivery then emit_inner em1 listener_panic True else em1)"
  by pat_completeness auto
termination by (relation "measure (\<lambda>(_, _, is_err). if is_err then 0 else 1)") auto

declare emit_inner.simps [simp del]

definition emit :: "emitter \<Rightarrow> agent_event \<Rightarrow> emitter" where
  "emit em event = emit_inner em event False"

section \<open>The pairing check\<close>

record pairing =
  run_starts :: nat
  run_ends :: nat
  turn_starts :: "turn_id list"
  turn_ends :: "turn_id list"
  msg_starts :: "message_id list"
  msg_ends :: "message_id list"
  tool_starts :: "tool_call_id list"
  tool_ends :: "tool_call_id list"

definition empty_pairing :: pairing where
  "empty_pairing = \<lparr>run_starts = 0, run_ends = 0, turn_starts = [], turn_ends = [],
     msg_starts = [], msg_ends = [], tool_starts = [], tool_ends = []\<rparr>"

fun pair_event :: "pairing \<Rightarrow> agent_event \<Rightarrow> pairing" where
  "pair_event p (RunStart _ _) = p\<lparr>run_starts := run_starts p + 1\<rparr>"
| "pair_event p (RunEnd _ _) = p\<lparr>run_ends := run_ends p + 1\<rparr>"
| "pair_event p (TurnStart t) = p\<lparr>turn_starts := List.insert t (turn_starts p)\<rparr>"
| "pair_event p (TurnEnd t _ _) = p\<lparr>turn_ends := List.insert t (turn_ends p)\<rparr>"
| "pair_event p (MessageStart i _ _) = p\<lparr>msg_starts := List.insert i (msg_starts p)\<rparr>"
| "pair_event p (MessageEnd i _ _ _) = p\<lparr>msg_ends := List.insert i (msg_ends p)\<rparr>"
| "pair_event p (ToolStart i _ _) = p\<lparr>tool_starts := List.insert i (tool_starts p)\<rparr>"
| "pair_event p (ToolEnd i _ _) = p\<lparr>tool_ends := List.insert i (tool_ends p)\<rparr>"
| "pair_event p _ = p"

definition check_pairing :: "agent_event list \<Rightarrow> bool" where
  "check_pairing events =
     (let p = foldl pair_event empty_pairing events
      in run_starts p \<le> run_ends p
         \<and> list_all (\<lambda>t. t \<in> set (turn_ends p)) (turn_starts p)
         \<and> list_all (\<lambda>m. m \<in> set (msg_ends p)) (msg_starts p)
         \<and> list_all (\<lambda>t. t \<in> set (tool_ends p)) (tool_starts p))"

section \<open>Lemmas\<close>

fun is_run_start :: "agent_event \<Rightarrow> bool" where
  "is_run_start (RunStart _ _) = True"
| "is_run_start _ = False"

fun is_run_end :: "agent_event \<Rightarrow> bool" where
  "is_run_end (RunEnd _ _) = True"
| "is_run_end _ = False"

lemma pairing_fold:
  "run_starts (foldl pair_event p es) = run_starts p + length (filter is_run_start es)"
  "run_ends (foldl pair_event p es) = run_ends p + length (filter is_run_end es)"
  "set (turn_starts (foldl pair_event p es)) = set (turn_starts p) \<union> {t. TurnStart t \<in> set es}"
  "set (turn_ends (foldl pair_event p es)) = set (turn_ends p) \<union> {t. \<exists>r u. TurnEnd t r u \<in> set es}"
  "set (msg_starts (foldl pair_event p es)) = set (msg_starts p) \<union> {i. \<exists>r m. MessageStart i r m \<in> set es}"
  "set (msg_ends (foldl pair_event p es)) = set (msg_ends p) \<union> {i. \<exists>m b u. MessageEnd i m b u \<in> set es}"
  "set (tool_starts (foldl pair_event p es)) = set (tool_starts p) \<union> {i. \<exists>n a. ToolStart i n a \<in> set es}"
  "set (tool_ends (foldl pair_event p es)) = set (tool_ends p) \<union> {i. \<exists>r b. ToolEnd i r b \<in> set es}"
proof (induction es rule: rev_induct)
  case (snoc e es)
  {
    case 1 then show ?case using snoc by (cases e) auto
  next
    case 2 then show ?case using snoc by (cases e) auto
  next
    case 3 then show ?case using snoc by (cases e) auto
  next
    case 4 then show ?case using snoc by (cases e) auto
  next
    case 5 then show ?case using snoc by (cases e) auto
  next
    case 6 then show ?case using snoc by (cases e) auto
  next
    case 7 then show ?case using snoc by (cases e) auto
  next
    case 8 then show ?case using snoc by (cases e) auto
  }
qed simp_all

lemma emit_history:
  "history (emit em ev) =
     history em @ [ev] @ (if list_ex (\<lambda>l. l ev) (listeners em) then [listener_panic] else [])"
  by (simp add: emit_def emit_inner.simps Let_def)

lemma emit_listeners [simp]: "listeners (emit em ev) = listeners em"
  by (simp add: emit_def emit_inner.simps Let_def)

lemma emit_history_quiet:
  "listeners em = [] \<Longrightarrow> history (emit em ev) = history em @ [ev]"
  by (simp add: emit_history)

section \<open>Properties\<close>

text \<open>The pairing check accepts a recording exactly when it has at least
  as many run ends as run starts and every turn, message and tool call that starts also ends; it
  is one-directional and never asks for a start.\<close>

theorem pairing_check_meaning:
  "check_pairing es \<longleftrightarrow>
     length (filter is_run_start es) \<le> length (filter is_run_end es)
     \<and> (\<forall>t. TurnStart t \<in> set es \<longrightarrow> (\<exists>r u. TurnEnd t r u \<in> set es))
     \<and> (\<forall>i r m. MessageStart i r m \<in> set es \<longrightarrow> (\<exists>m' b u. MessageEnd i m' b u \<in> set es))
     \<and> (\<forall>i n a. ToolStart i n a \<in> set es \<longrightarrow> (\<exists>r b. ToolEnd i r b \<in> set es))"
  by (auto simp: check_pairing_def Let_def list_all_iff pairing_fold empty_pairing_def)

theorem pairing_check_meaning_witness:
  "check_pairing [TurnStart 1, TurnEnd 1 EvCompleted default_usage_report, TurnEnd 2 EvError default_usage_report]
   \<and> \<not> check_pairing [TurnStart 1]"
  using pairing_check_meaning[of "[TurnStart 1]"]
    pairing_check_meaning[of "[TurnStart 1, TurnEnd 1 EvCompleted default_usage_report,
      TurnEnd 2 EvError default_usage_report]"]
  by auto

text \<open>The emitter's history is the lossless record: emitting appends the
  event, whatever the listeners and taps do, and adds one \<open>listener-panic\<close> error when a listener
  panicked, never more, even when the same listener panics again on that error. A tap never holds
  more than its capacity.\<close>

theorem emission_is_lossless:
  "history (emit em ev) = history em @ [ev]
     @ (if \<exists>l\<in>set (listeners em). l ev then [listener_panic] else [])
   \<and> ((\<forall>t\<in>set (taps em). length (tap_queue t) \<le> tap_capacity t) \<longrightarrow>
     (\<forall>t\<in>set (taps (emit em ev)). length (tap_queue t) \<le> tap_capacity t))"
  by (auto simp: emit_history emit_def emit_inner.simps Let_def try_send_def list_ex_iff)

theorem emission_is_lossless_witness:
  "length (tap_queue (hd (taps (emit (emitter_tap new_emitter 0) (TurnStart 1))))) \<le> 1"
  using emission_is_lossless[of "emitter_tap new_emitter 0" "TurnStart 1"]
  by (auto simp: emitter_tap_def new_emitter_def emit_def emit_inner.simps Let_def try_send_def)

end
