(* ===== verification/Log.thy ===== *)
theory Log
  imports Events
begin

text \<open>
  The durable log, \<open>crates/agent-log\<close>: the item vocabulary (\<open>types.rs\<close>), the append handle with its
  torn-tail repair (\<open>writer.rs\<close>) and the validating reader (\<open>reader.rs\<close>). A log file is its bytes.
  \<open>serde_json\<close>'s encoder and decoder are the parameters \<open>ser\<close> and \<open>de\<close>; \<open>codec_on\<close> states the
  documented behaviour the log relies on, for the items of one log. A crash during an append leaves
  a prefix of the line that was being written.
\<close>

section \<open>Items\<close>

datatype input_source = External | ControlSource | Crash

datatype turn_end_reason = Completed | ErrorReason string | Interrupted | BudgetReason | MaxTokensReason

datatype recovery_code = ToolNotStarted | ToolOutcomeUnknown

record header =
  version :: u32
  session_id :: string
  cwd :: string
  model_name :: string

datatype item_kind =
    IHeader header
  | IInput string string input_source \<comment> \<open>input id, text, source\<close>
  | ITurnStart string "string option" \<comment> \<open>turn id, previous turn id\<close>
  | IAssistant json string bool \<comment> \<open>message, stop reason, interrupted\<close>
  | IAttempt string bool \<comment> \<open>error, will retry\<close>
  | IToolCall string string json \<comment> \<open>call id, tool, args\<close>
  | IToolResult string string bool "recovery_code option" \<comment> \<open>call id, content, is error, recovery\<close>
  | ITurnEnd string turn_end_reason

record item =
  seq :: u64
  item_id :: string
  parent_id :: "string option"
  recorded_at :: nat
  kind :: item_kind

definition LOG_VERSION :: u32 where "LOG_VERSION = 1"

definition UNKNOWN_OUTCOME_TEXT :: string where
  "UNKNOWN_OUTCOME_TEXT = ''The tool call was interrupted after it was recorded, but no result was durably recorded. Its outcome is unknown. Retry only if the operation is read-only or idempotent; if it may have side effects, first verify external state or ask the user. Do not retry blindly.''"

section \<open>The writer\<close>

definition LF :: char where "LF = CHR 0x0A"
definition CR :: char where "CR = CHR 0x0D"

definition truncate_torn_tail :: "string \<Rightarrow> string" where
  "truncate_torn_tail raw =
     (if raw = [] then raw
      else if last raw = LF then raw
      else rev (dropWhile (\<lambda>b. b \<noteq> LF) (rev raw)))"

text \<open>Opening a path: a missing file is created empty, an existing one is repaired first.\<close>

definition log_open :: "string option \<Rightarrow> string" where
  "log_open file = (case file of None \<Rightarrow> [] | Some raw \<Rightarrow> truncate_torn_tail raw)"

definition log_line :: "(item \<Rightarrow> string) \<Rightarrow> item \<Rightarrow> string" where
  "log_line ser it = ser it @ [LF]"

definition log_append :: "(item \<Rightarrow> string) \<Rightarrow> string \<Rightarrow> item \<Rightarrow> string" where
  "log_append ser raw it = raw @ log_line ser it"

definition append_item :: "(item \<Rightarrow> string) \<Rightarrow> string option \<Rightarrow> item \<Rightarrow> string" where
  "append_item ser file it = log_append ser (log_open file) it"

definition write_all :: "(item \<Rightarrow> string) \<Rightarrow> item list \<Rightarrow> string" where
  "write_all ser its = concat (map (log_line ser) its)"

section \<open>The reader\<close>

datatype log_error =
    CorruptEntry nat string
  | FirstNotHeader string
  | UnsupportedVersion u32
  | SeqGap u64 u64

fun kind_name :: "item_kind \<Rightarrow> string" where
  "kind_name (IHeader _) = ''Header''"
| "kind_name (IInput _ _ _) = ''Input''"
| "kind_name (ITurnStart _ _) = ''TurnStart''"
| "kind_name (IAssistant _ _ _) = ''Assistant''"
| "kind_name (IAttempt _ _) = ''Attempt''"
| "kind_name (IToolCall _ _ _) = ''ToolCall''"
| "kind_name (IToolResult _ _ _ _) = ''ToolResult''"
| "kind_name (ITurnEnd _ _) = ''TurnEnd''"

definition strip_cr :: "string \<Rightarrow> string" where
  "strip_cr line = (if line \<noteq> [] \<and> last line = CR then butlast line else line)"

definition log_chunks :: "string \<Rightarrow> (nat \<times> string) list" where
  "log_chunks raw =
     filter (\<lambda>(_, c). c \<noteq> [])
       (map (\<lambda>(i, c). (i + 1, strip_cr c)) (enumerate 0 (split_on LF raw)))"

fun parse_chunks ::
  "(string \<Rightarrow> string + item) \<Rightarrow> (nat \<times> string) list \<Rightarrow> log_error + item list" where
  "parse_chunks de [] = Inr []"
| "parse_chunks de ((lineno, chunk) # rest) =
     (case de chunk of
        Inr it \<Rightarrow> (case parse_chunks de rest of Inl e \<Rightarrow> Inl e | Inr its \<Rightarrow> Inr (it # its))
      | Inl e \<Rightarrow> if rest = [] then Inr [] else Inl (CorruptEntry lineno e))"

fun check_seq :: "u64 \<Rightarrow> item list \<Rightarrow> log_error + unit" where
  "check_seq want [] = Inr ()"
| "check_seq want (it # its) =
     (if seq it \<noteq> want then Inl (SeqGap want (seq it)) else check_seq (want + 1) its)"

fun validate_log :: "item list \<Rightarrow> log_error + unit" where
  "validate_log [] = Inr ()"
| "validate_log (first # rest) =
     (case kind first of
        IHeader h \<Rightarrow>
          if version h \<noteq> LOG_VERSION then Inl (UnsupportedVersion (version h))
          else check_seq 1 (first # rest)
      | k \<Rightarrow> Inl (FirstNotHeader (kind_name k)))"

definition read_log :: "(string \<Rightarrow> string + item) \<Rightarrow> string \<Rightarrow> log_error + item list" where
  "read_log de raw =
     (case parse_chunks de (log_chunks raw) of
        Inl e \<Rightarrow> Inl e
      | Inr items \<Rightarrow> (case validate_log items of Inl e \<Rightarrow> Inl e | Inr _ \<Rightarrow> Inr items))"

section \<open>What the log needs of the codec\<close>

text \<open>
  For the items of one log: the JSON text of an item is non-empty, decodes to the item, holds no
  raw line feed or carriage return (JSON escapes control characters inside strings), and no
  strict prefix of it decodes (it is one object).
\<close>

definition codec_on :: "(item \<Rightarrow> string) \<Rightarrow> (string \<Rightarrow> string + item) \<Rightarrow> item list \<Rightarrow> bool" where
  "codec_on ser de its \<longleftrightarrow>
     (\<forall>it\<in>set its. ser it \<noteq> [] \<and> de (ser it) = Inr it \<and> LF \<notin> set (ser it) \<and> CR \<notin> set (ser it)
        \<and> (\<forall>n<length (ser it). \<exists>e. de (take n (ser it)) = Inl e))"

definition gapless :: "item list \<Rightarrow> bool" where
  "gapless its \<longleftrightarrow> (\<forall>i<length its. seq (its ! i) = i + 1)"

definition well_formed_log :: "item list \<Rightarrow> bool" where
  "well_formed_log its \<longleftrightarrow> gapless its
     \<and> (its = [] \<or> (\<exists>h. kind (hd its) = IHeader h \<and> version h = LOG_VERSION))"

section \<open>Lemmas\<close>

lemma check_seq_iff: "check_seq w its = Inr () \<longleftrightarrow> (\<forall>i<length its. seq (its ! i) = w + i)"
proof (induction its arbitrary: w)
  case (Cons it its)
  show ?case
    using Cons[of "w + 1"] by (auto simp: nth_Cons less_Suc_eq_0_disj split: nat.splits)
qed simp

lemma validate_log_iff: "validate_log its = Inr () \<longleftrightarrow> well_formed_log its"
proof (cases its)
  case Nil
  then show ?thesis by (simp add: well_formed_log_def gapless_def)
next
  case (Cons it rest)
  show ?thesis
    by (cases "kind it")
      (auto simp: Cons well_formed_log_def gapless_def check_seq_iff simp del: check_seq.simps)
qed

lemma split_on_append:
  "LF \<notin> set a \<Longrightarrow> split_on LF (a @ LF # b) = a # split_on LF b"
  by (induction a) auto

lemma split_on_none: "LF \<notin> set a \<Longrightarrow> split_on LF a = [a]"
  by (induction a) auto

lemma split_on_write_all:
  "\<forall>it\<in>set its. LF \<notin> set (ser it) \<Longrightarrow>
     split_on LF (write_all ser its @ t) = map ser its @ split_on LF t"
  by (induction its) (simp_all add: write_all_def log_line_def split_on_append)

lemma strip_cr_id: "CR \<notin> set l \<Longrightarrow> strip_cr l = l"
  by (auto simp: strip_cr_def dest: last_in_set)

lemma enumerate_filter_snd:
  "map snd (filter (\<lambda>(_, c). c \<noteq> []) (map (\<lambda>(i, c). (i + 1, f c)) (enumerate n xs)))
     = filter (\<lambda>c. c \<noteq> []) (map f xs)"
  by (induction xs arbitrary: n) auto

lemma log_chunks_snd: "map snd (log_chunks raw) = filter (\<lambda>c. c \<noteq> []) (map strip_cr (split_on LF raw))"
  unfolding log_chunks_def using enumerate_filter_snd[of strip_cr 0] by simp

text \<open>Line numbers only reach the error text: the outcome depends on the chunks.\<close>

lemma parse_chunks_all:
  "\<forall>it\<in>set its. de (ser it) = Inr it \<Longrightarrow> map snd cs = map ser its \<Longrightarrow>
     parse_chunks de cs = Inr its"
proof (induction its arbitrary: cs)
  case (Cons it its)
  then obtain n cs' where "cs = (n, ser it) # cs'" "map snd cs' = map ser its" by auto
  then show ?case using Cons by simp
qed simp

lemma parse_chunks_torn:
  "\<forall>it\<in>set its. de (ser it) = Inr it \<Longrightarrow> map snd cs = map ser its @ [torn] \<Longrightarrow>
     parse_chunks de cs = (case de torn of Inl _ \<Rightarrow> Inr its | Inr it \<Rightarrow> Inr (its @ [it]))"
proof (induction its arbitrary: cs)
  case Nil
  then obtain n where "cs = [(n, torn)]" by auto
  then show ?case by (simp split: sum.splits)
next
  case (Cons it its)
  then obtain n cs' where "cs = (n, ser it) # cs'" "map snd cs' = map ser its @ [torn]" by auto
  then show ?case using Cons by (auto split: sum.splits)
qed

lemma read_log_written_tail:
  assumes "codec_on ser de its" "LF \<notin> set t" "CR \<notin> set t"
  shows "read_log de (write_all ser its @ t) =
    (case (if t = [] then Inr its else case de t of Inl _ \<Rightarrow> Inr its | Inr it \<Rightarrow> Inr (its @ [it])) of
       Inl e \<Rightarrow> Inl e
     | Inr items \<Rightarrow> (case validate_log items of Inl e \<Rightarrow> Inl e | Inr _ \<Rightarrow> Inr items))"
proof -
  have c: "\<forall>it\<in>set its. ser it \<noteq> [] \<and> LF \<notin> set (ser it) \<and> CR \<notin> set (ser it) \<and> de (ser it) = Inr it"
    using assms(1) by (simp add: codec_on_def)
  have "split_on LF (write_all ser its @ t) = map ser its @ [t]"
    using split_on_write_all[of its ser t] c assms(2) by (simp add: split_on_none)
  moreover have "map (strip_cr \<circ> ser) its = map ser its" using c by (simp add: strip_cr_id)
  moreover have "filter (\<lambda>c. c \<noteq> []) (map ser its) = map ser its" using c by simp
  ultimately have "map snd (log_chunks (write_all ser its @ t)) = map ser its @ (if t = [] then [] else [t])"
    using assms(3) by (simp add: log_chunks_snd strip_cr_id del: map_eq_conv)
  then have "parse_chunks de (log_chunks (write_all ser its @ t)) =
      (if t = [] then Inr its else case de t of Inl _ \<Rightarrow> Inr its | Inr it \<Rightarrow> Inr (its @ [it]))"
    using parse_chunks_all[of its de ser] parse_chunks_torn[of its de ser] c by auto
  then show ?thesis by (simp add: read_log_def)
qed

lemma read_log_written:
  assumes "codec_on ser de its" "well_formed_log its"
  shows "read_log de (write_all ser its) = Inr its"
  using read_log_written_tail[OF assms(1), of "[]"] assms(2) validate_log_iff[of its] by simp

lemma last_log_line: "its \<noteq> [] \<Longrightarrow> last (write_all ser its) = LF"
  by (induction its rule: rev_induct) (simp_all add: write_all_def log_line_def)

lemma write_all_Nil_iff: "write_all ser its = [] \<longleftrightarrow> its = []"
  by (cases its) (simp_all add: write_all_def log_line_def)

lemma write_all_append: "write_all ser (its @ js) = write_all ser its @ write_all ser js"
  by (simp add: write_all_def)

lemma truncate_clean: "truncate_torn_tail (write_all ser its) = write_all ser its"
  by (cases "its = []") (simp_all add: truncate_torn_tail_def last_log_line write_all_Nil_iff)

lemma truncate_torn:
  assumes "LF \<notin> set t"
  shows "truncate_torn_tail (write_all ser its @ t) = write_all ser its"
proof (cases "t = []")
  case True
  then show ?thesis by (simp add: truncate_clean)
next
  case False
  then have l: "last (write_all ser its @ t) \<noteq> LF" using assms by (metis last_appendR last_in_set)
  have d: "dropWhile (\<lambda>b. b \<noteq> LF) (rev t @ r) = dropWhile (\<lambda>b. b \<noteq> LF) r" for r
    using assms by (subst dropWhile_append2) auto
  have "dropWhile (\<lambda>b. b \<noteq> LF) (rev (write_all ser its)) = rev (write_all ser its)"
    by (induction its rule: rev_induct) (simp_all add: write_all_def log_line_def)
  then show ?thesis using l False by (simp add: truncate_torn_tail_def d)
qed

lemma take_no_LF: "LF \<notin> set l \<Longrightarrow> LF \<notin> set (take n l)"
  by (meson in_set_takeD)

section \<open>Properties\<close>

text \<open>Writing a well-formed log (header first, sequence numbers gapless from 1)
  line by line and reading it back yields exactly the items.\<close>

theorem log_round_trip:
  assumes "codec_on ser de its" "well_formed_log its"
  shows "read_log de (fold (\<lambda>it raw. log_append ser raw it) its (log_open None)) = Inr its"
proof -
  have "fold (\<lambda>it raw. log_append ser raw it) its raw = raw @ write_all ser its" for raw
    by (induction its arbitrary: raw) (simp_all add: log_append_def write_all_def)
  then show ?thesis using read_log_written[OF assms] by (simp add: log_open_def)
qed

definition demo_header :: item where
  "demo_header = \<lparr>seq = 1, item_id = ''item-1'', parent_id = None, recorded_at = 0,
     kind = IHeader \<lparr>version = 1, session_id = ''run-0'', cwd = ''/w'', model_name = ''m''\<rparr>\<rparr>"

definition demo_end :: item where
  "demo_end = \<lparr>seq = 2, item_id = ''item-2'', parent_id = None, recorded_at = 0,
     kind = ITurnEnd ''turn-1'' Completed\<rparr>"

definition demo_ser :: "item \<Rightarrow> string" where
  "demo_ser it = (if seq it = 1 then ''{1}'' else ''{2}'')"

definition demo_de :: "string \<Rightarrow> string + item" where
  "demo_de s = (if s = ''{1}'' then Inr demo_header else if s = ''{2}'' then Inr demo_end else Inl ''bad'')"

lemma demo_codec: "codec_on demo_ser demo_de [demo_header, demo_end]"
  by (auto simp: codec_on_def demo_ser_def demo_de_def demo_header_def demo_end_def LF_def CR_def
      less_Suc_eq numeral_eq_Suc)

lemma demo_well_formed: "well_formed_log [demo_header, demo_end]" "well_formed_log [demo_header]"
  by (auto simp: well_formed_log_def gapless_def demo_header_def demo_end_def LOG_VERSION_def
      less_Suc_eq)

theorem log_round_trip_witness:
  "read_log demo_de (fold (\<lambda>it raw. log_append demo_ser raw it) [demo_header, demo_end] (log_open None))
     = Inr [demo_header, demo_end]"
  by (rule log_round_trip[OF demo_codec demo_well_formed(1)])

text \<open>C13 (crash_loses_only_tail): A crash while an item is being appended leaves some prefix of its
  line behind. Reading that file never fails and never loses a recorded item: it yields the items
  recorded before, plus the torn one only if its whole JSON text reached the file.\<close>

theorem crash_loses_only_tail:
  assumes "codec_on ser de (its @ [it])" "well_formed_log (its @ [it])"
  shows "read_log de (write_all ser its @ take n (log_line ser it))
           = Inr (if length (ser it) \<le> n then its @ [it] else its)"
proof -
  have c: "codec_on ser de its" and ci: "LF \<notin> set (ser it)" "CR \<notin> set (ser it)" "ser it \<noteq> []"
      "de (ser it) = Inr it" "\<And>k. k < length (ser it) \<Longrightarrow> \<exists>e. de (take k (ser it)) = Inl e"
    using assms(1) by (simp_all add: codec_on_def)
  have wf: "validate_log its = Inr ()" "validate_log (its @ [it]) = Inr ()"
    using assms(2) unfolding validate_log_iff
    by (auto simp: well_formed_log_def gapless_def nth_append hd_append split: if_splits)
  consider "n < length (ser it)" | "n = length (ser it)" | "length (ser it) < n" by linarith
  then show ?thesis
  proof cases
    case 1
    then have t: "take n (log_line ser it) = take n (ser it)" by (simp add: log_line_def)
    have "LF \<notin> set (take n (ser it))" "CR \<notin> set (take n (ser it))"
      using ci(1,2) by (meson in_set_takeD)+
    from read_log_written_tail[OF c this] ci(5)[OF 1] wf(1) 1 t show ?thesis
      by (cases "take n (ser it) = []") (auto simp: sum.case_distrib)
  next
    case 2
    then have "take n (log_line ser it) = ser it" by (simp add: log_line_def)
    with read_log_written_tail[OF c ci(1,2)] ci(3,4) wf 2 show ?thesis by simp
  next
    case 3
    then have "write_all ser its @ take n (log_line ser it) = write_all ser (its @ [it])"
      by (simp add: log_line_def write_all_def)
    with read_log_written[OF assms] 3 show ?thesis by simp
  qed
qed

theorem crash_loses_only_tail_witness:
  "read_log demo_de (write_all demo_ser [demo_header] @ take 2 (log_line demo_ser demo_end)) = Inr [demo_header]"
  using crash_loses_only_tail[of demo_ser demo_de "[demo_header]" demo_end 2] demo_codec demo_well_formed(1)
  by (simp add: demo_ser_def demo_end_def)

text \<open>C14 (reopen_repairs_torn_tail): Opening a log after such a crash drops exactly the torn
  fragment, leaves a clean log untouched, and an append after it is a whole line of its own: the
  file then reads back as the recorded items and the new one, never a merge with the fragment.\<close>

theorem reopen_repairs_torn_tail:
  assumes "codec_on ser de (its @ [jt])" "well_formed_log (its @ [jt])"
    and "LF \<notin> set (ser torn)" "n \<le> length (ser torn)"
  shows "log_open (Some (write_all ser its @ take n (log_line ser torn))) = write_all ser its
    \<and> log_open (Some (write_all ser its)) = write_all ser its
    \<and> read_log de (append_item ser (Some (write_all ser its @ take n (log_line ser torn))) jt) = Inr (its @ [jt])"
proof -
  have t: "take n (log_line ser torn) = take n (ser torn)" using assms(4) by (simp add: log_line_def)
  have o1: "log_open (Some (write_all ser its @ take n (log_line ser torn))) = write_all ser its"
    unfolding log_open_def t by (simp add: truncate_torn take_no_LF assms(3))
  moreover have "log_open (Some (write_all ser its)) = write_all ser its"
    by (simp add: log_open_def truncate_clean)
  moreover have "append_item ser (Some (write_all ser its @ take n (log_line ser torn))) jt
      = write_all ser (its @ [jt])"
    unfolding append_item_def o1 by (simp add: log_append_def write_all_def)
  ultimately show ?thesis using read_log_written[OF assms(1,2)] by simp
qed

theorem reopen_repairs_torn_tail_witness:
  "read_log demo_de (append_item demo_ser (Some (write_all demo_ser [demo_header] @ ''{'')) demo_end)
     = Inr [demo_header, demo_end]"
  using reopen_repairs_torn_tail[of demo_ser demo_de "[demo_header]" demo_end demo_header 1]
    demo_codec demo_well_formed(1)
  by (simp add: demo_ser_def demo_header_def log_line_def LF_def)

end
