(* ===== verification/ToolCore.thy ===== *)
theory ToolCore
  imports Events "HOL-Library.Char_ord" "HOL-Library.List_Lexorder" "HOL-Library.Multiset"
begin

text \<open>
  The tool vocabulary, \<open>crates/tool-core\<close>: calls, results and errors (\<open>tool.rs\<close>), the text bound of
  everything the model reads (\<open>text.rs\<close>), the permission gate (\<open>gate.rs\<close>) and the registry with
  its strict argument check (\<open>registry.rs\<close>). A tool is its definition and its \<open>prepare\<close> step;
  executing a tool is an effect of the run loop. The locale \<open>permission_gate\<close> is the registry's
  view of a gate that never asks; it is interpreted on the grant matrix.
\<close>

section \<open>Tool vocabulary\<close>

definition TOOL_EDIT :: string where "TOOL_EDIT = ''edit''"
definition TOOL_WRITE :: string where "TOOL_WRITE = ''write''"
definition TOOL_TEST :: string where "TOOL_TEST = ''test''"
definition TOOL_EXEC :: string where "TOOL_EXEC = ''exec''"

record tool_definition =
  td_name :: string
  td_description :: string
  td_schema :: json

record tool_declaration =
  decl_name :: string
  decl_description :: string
  decl_schema :: json

record tool_call =
  call_id :: string
  call_name :: string
  call_args :: json

record invocation =
  inv_call_id :: string
  inv_name :: string
  inv_args :: json

record tool_outcome =
  oc_content :: string
  truncated :: bool
  success :: bool

datatype tool_error = DeniedError string | FailedError string

record tool_result =
  content :: string
  is_error :: bool

datatype call_status = Dispatch invocation | Result tool_result

record tool =
  tool_def :: tool_definition
  tool_prepare :: "tool_call \<Rightarrow> call_status"

section \<open>Text bound\<close>

definition MAX_MODEL_CHARS :: nat where "MAX_MODEL_CHARS = 40000"

definition MARKER :: string where
  "MARKER = [CHR 0x0A] @ ''...[omitted]...'' @ [CHR 0x0A]"

definition bound_text :: "string \<Rightarrow> nat \<Rightarrow> string" where
  "bound_text s mx =
     (let n = char_count s in
      if n \<le> mx then s
      else
        let m = char_count MARKER in
        if mx \<le> m then take_chars mx s
        else
          let rest = mx - m;
              head = rest div 2 + rest mod 2;
              tail = rest div 2
          in take_chars head s @ MARKER @ skip_chars (n - tail) s)"

definition error_result :: "string \<Rightarrow> tool_result" where
  "error_result c = \<lparr>content = bound_text c MAX_MODEL_CHARS, is_error = True\<rparr>"

fun tool_error_display :: "tool_error \<Rightarrow> string" where
  "tool_error_display (DeniedError m) = ''denied: '' @ m"
| "tool_error_display (FailedError m) = ''failed: '' @ m"

definition result_of_error :: "tool_error \<Rightarrow> tool_result" where
  "result_of_error e = error_result (tool_error_display e)"

section \<open>Permission gate\<close>

datatype gate_decision =
    Allow
  | Deny string bool \<comment> \<open>reason, fatal\<close>
  | Ask string string \<comment> \<open>prompt, display\<close>

text \<open>\<open>PermissionGate::check\<close>, called by the registry without a path.\<close>

type_synonym gate_check = "string \<Rightarrow> string \<Rightarrow> json \<Rightarrow> gate_decision"

definition grant_check :: "(string \<times> string list) list \<Rightarrow> gate_check" where
  "grant_check grants agent tname _ =
     (case map_of grants agent of
        None \<Rightarrow> Deny (''unknown agent: '' @ agent) False
      | Some tls \<Rightarrow>
          if tname \<in> set tls then Allow
          else Deny (''tool not granted to '' @ agent @ '': '' @ tname) False)"

section \<open>Strict argument check\<close>

text \<open>The \<open>Debug\<close> form of a string: quoted, with the ASCII escapes.\<close>

definition debug_char :: "char \<Rightarrow> string" where
  "debug_char c =
     (if byte c = 34 then [CHR 0x5C, CHR 0x22]
      else if byte c = 92 then [CHR 0x5C, CHR 0x5C]
      else if byte c = 10 then [CHR 0x5C, CHR ''n'']
      else if byte c = 13 then [CHR 0x5C, CHR ''r'']
      else if byte c = 9 then [CHR 0x5C, CHR ''t'']
      else if byte c = 0 then [CHR 0x5C, CHR ''0'']
      else [c])"

definition debug_str :: "string \<Rightarrow> string" where
  "debug_str s = [CHR 0x22] @ concat (map debug_char s) @ [CHR 0x22]"

definition json_has_type :: "string \<Rightarrow> json \<Rightarrow> bool" where
  "json_has_type t v =
     (if t = ''string'' then (case v of JStr _ \<Rightarrow> True | _ \<Rightarrow> False)
      else if t = ''integer'' then (case v of JInt _ \<Rightarrow> True | _ \<Rightarrow> False)
      else if t = ''number'' then (case v of JInt _ \<Rightarrow> True | JFloat _ \<Rightarrow> True | _ \<Rightarrow> False)
      else if t = ''boolean'' then (case v of JBool _ \<Rightarrow> True | _ \<Rightarrow> False)
      else if t = ''array'' then (case v of JArr _ \<Rightarrow> True | _ \<Rightarrow> False)
      else if t = ''object'' then (case v of JObj _ \<Rightarrow> True | _ \<Rightarrow> False)
      else if t = ''null'' then v = JNull
      else True)"

definition check_json_type :: "string \<Rightarrow> json \<Rightarrow> json \<Rightarrow> string + unit" where
  "check_json_type prop sub v =
     (case Option.bind (json_get ''type'' sub) as_str of
        None \<Rightarrow> Inr ()
      | Some t \<Rightarrow>
          if json_has_type t v then Inr ()
          else Inl (''property '' @ debug_str prop @ '' must be '' @ t))"

fun check_required :: "json list \<Rightarrow> (string \<times> json) list \<Rightarrow> string + unit" where
  "check_required [] obj = Inr ()"
| "check_required (JStr k # req) obj =
     (if map_of obj k = None then Inl (''missing required property: '' @ k)
      else check_required req obj)"
| "check_required (_ # req) obj = check_required req obj"

fun check_additional :: "string list \<Rightarrow> string list \<Rightarrow> string + unit" where
  "check_additional allowed [] = Inr ()"
| "check_additional allowed (k # ks) =
     (if k \<notin> set allowed then Inl (''unexpected property: '' @ k) else check_additional allowed ks)"

fun check_properties :: "(string \<times> json) list \<Rightarrow> (string \<times> json) list \<Rightarrow> string + unit" where
  "check_properties [] obj = Inr ()"
| "check_properties ((k, sub) # props) obj =
     (case map_of obj k of
        None \<Rightarrow> check_properties props obj
      | Some v \<Rightarrow> (case check_json_type k sub v of Inl e \<Rightarrow> Inl e | Inr _ \<Rightarrow> check_properties props obj))"

definition validate_strict :: "json \<Rightarrow> json \<Rightarrow> string + unit" where
  "validate_strict schema args =
     (case as_object args of
        None \<Rightarrow> Inl ''args must be an object''
      | Some obj \<Rightarrow>
          (case as_object schema of
             None \<Rightarrow> Inr ()
           | Some def \<Rightarrow>
               try_then (case map_of def ''required'' of
                           Some (JArr req) \<Rightarrow> check_required req obj
                         | _ \<Rightarrow> Inr ())
                 (\<lambda>_. try_then
                   (if map_of def ''additionalProperties'' = Some (JBool False)
                    then check_additional
                           (case Option.bind (map_of def ''properties'') as_object of
                              Some p \<Rightarrow> map fst p | None \<Rightarrow> [])
                           (map fst obj)
                    else Inr ())
                   (\<lambda>_. case map_of def ''properties'' of
                      Some (JObj props) \<Rightarrow> check_properties props obj
                    | _ \<Rightarrow> Inr ()))))"

section \<open>Registry\<close>

record registry =
  tools :: "(string \<times> tool) list"
  gate :: gate_check

definition new_registry :: "gate_check \<Rightarrow> registry" where
  "new_registry g = \<lparr>tools = [], gate = g\<rparr>"

definition register :: "registry \<Rightarrow> tool \<Rightarrow> registry" where
  "register r t = r\<lparr>tools := AList.update (td_name (tool_def t)) t (tools r)\<rparr>"

definition resolve :: "registry \<Rightarrow> string \<Rightarrow> tool option" where
  "resolve r name = map_of (tools r) name"

definition definitions :: "registry \<Rightarrow> tool_declaration list" where
  "definitions r =
     sort_key decl_name
       (map (\<lambda>(_, t). \<lparr>decl_name = td_name (tool_def t), decl_description = td_description (tool_def t),
               decl_schema = td_schema (tool_def t)\<rparr>) (tools r))"

definition prepare :: "registry \<Rightarrow> string \<Rightarrow> tool_call \<Rightarrow> call_status" where
  "prepare r agent call =
     (case gate r agent (call_name call) (call_args call) of
        Deny reason _ \<Rightarrow> Result (error_result (''denied: '' @ reason))
      | Ask prompt _ \<Rightarrow>
          Result (error_result (''ask denied (non-interactive, no approver): '' @ prompt))
      | Allow \<Rightarrow>
          (case map_of (tools r) (call_name call) of
             None \<Rightarrow> Result (error_result (''unknown tool: '' @ call_name call))
           | Some t \<Rightarrow>
               (case validate_strict (td_schema (tool_def t)) (call_args call) of
                  Inl e \<Rightarrow> Result (error_result (''invalid args: '' @ e))
                | Inr _ \<Rightarrow>
                    (case tool_prepare t call of
                       Dispatch iv \<Rightarrow> Dispatch iv
                     | Result res \<Rightarrow>
                         Result (res\<lparr>content := bound_text (content res) MAX_MODEL_CHARS\<rparr>)))))"

section \<open>The registry's view of a gate\<close>

text \<open>
  A non-interactive gate answers \<open>Allow\<close> or \<open>Deny\<close> and never depends on the arguments. Whatever
  registry it guards, a call of a tool it denies is answered with an error, and one it allows gets
  as far as the registry and its schema let it.
\<close>

locale permission_gate =
  fixes check :: gate_check
    and granted :: "string \<Rightarrow> string \<Rightarrow> bool"
  assumes never_asks: "check agent tname args \<noteq> Ask p d"
    and allows: "check agent tname args = Allow \<longleftrightarrow> granted agent tname"
begin

lemma denied_is_error:
  assumes "gate r = check" "\<not> granted agent (call_name call)"
  shows "\<exists>res. prepare r agent call = Result res \<and> is_error res"
proof (cases "check agent (call_name call) (call_args call)")
  case Allow
  then show ?thesis using allows assms(2) by simp
next
  case (Deny reason fatal)
  then show ?thesis using assms(1) by (simp add: prepare_def error_result_def)
next
  case (Ask p d)
  then show ?thesis using never_asks by blast
qed

lemma dispatch_granted:
  "gate r = check \<Longrightarrow> prepare r agent call = Dispatch iv \<Longrightarrow> granted agent (call_name call)"
  using denied_is_error by (metis call_status.distinct(1))

end

interpretation grants: permission_gate "grant_check gs"
  "\<lambda>agent tname. \<exists>tls. map_of gs agent = Some tls \<and> tname \<in> set tls" for gs
  by unfold_locales (auto simp: grant_check_def split: option.splits if_splits)

section \<open>Lemmas\<close>

lemma starts_scalar_MARKER: "starts_scalar (MARKER @ s)"
  by (simp add: starts_scalar_def MARKER_def is_cont_def byte_def)

lemma char_count_MARKER: "char_count MARKER = 17"
  by (simp add: char_count_def MARKER_def is_cont_def byte_def)

lemma bound_text_short: "char_count s \<le> mx \<Longrightarrow> bound_text s mx = s"
  by (simp add: bound_text_def)

lemma halves: "(n div 2 + n mod 2) + (c + n div 2) = n + (c::nat)"
  by presburger

lemma bound_text_le: "char_count (bound_text s mx) \<le> mx"
proof (cases "char_count s \<le> mx \<or> mx \<le> char_count MARKER")
  case True
  then show ?thesis by (auto simp: bound_text_def Let_def char_count_take)
next
  case False
  let ?rest = "mx - char_count MARKER"
  let ?tail = "skip_chars (char_count s - ?rest div 2) s"
  let ?head = "take_chars (?rest div 2 + ?rest mod 2) s"
  from False have a: "\<not> char_count s \<le> mx" and b: "\<not> mx \<le> char_count MARKER" by blast+
  have h: "char_count ?head \<le> ?rest div 2 + ?rest mod 2" unfolding char_count_take by (rule min.cobounded1)
  have t: "char_count ?tail \<le> ?rest div 2" unfolding char_count_skip by linarith
  have "char_count (bound_text s mx) = char_count (?head @ MARKER @ ?tail)"
    unfolding bound_text_def Let_def using a b by (simp only: if_False)
  also have "\<dots> \<le> char_count ?head + char_count (MARKER @ ?tail)" by (rule char_count_append_le)
  also have "\<dots> \<le> char_count ?head + (char_count MARKER + char_count ?tail)"
    by (rule add_left_mono[OF char_count_append_le])
  also have "\<dots> \<le> (?rest div 2 + ?rest mod 2) + (char_count MARKER + ?rest div 2)"
    using h t by linarith
  also have "\<dots> = mx" using b halves[of ?rest "char_count MARKER"] by linarith
  finally show ?thesis .
qed

lemma error_result_bounded: "char_count (content (error_result c)) \<le> MAX_MODEL_CHARS"
  by (simp add: error_result_def bound_text_le)

lemma check_required_ok:
  "check_required req obj = Inr () \<longleftrightarrow> (\<forall>k. JStr k \<in> set req \<longrightarrow> map_of obj k \<noteq> None)"
  by (induction req obj rule: check_required.induct) auto

lemma check_additional_ok: "check_additional al ks = Inr () \<longleftrightarrow> set ks \<subseteq> set al"
  by (induction al ks rule: check_additional.induct) auto

lemma check_properties_ok:
  "check_properties props obj = Inr () \<longleftrightarrow>
     (\<forall>(k, sub)\<in>set props. \<forall>v. map_of obj k = Some v \<longrightarrow> check_json_type k sub v = Inr ())"
  by (induction props obj rule: check_properties.induct) (auto split: option.splits sum.splits)

section \<open>Properties\<close>

text \<open>No text the registry hands to the model without executing a tool is
  longer than the cap, whatever the gate, the tool or the arguments are; a text within the cap is
  unchanged.\<close>

theorem model_text_bounded:
  "(\<forall>res. prepare r agent call = Result res \<longrightarrow> char_count (content res) \<le> MAX_MODEL_CHARS)
   \<and> char_count (bound_text s mx) \<le> mx \<and> (char_count s \<le> mx \<longrightarrow> bound_text s mx = s)"
proof -
  have "char_count (content res) \<le> MAX_MODEL_CHARS" if "prepare r agent call = Result res" for res
    using that by (auto simp: prepare_def error_result_bounded bound_text_le
        split: gate_decision.splits option.splits sum.splits call_status.splits)
  then show ?thesis by (simp add: bound_text_le bound_text_short)
qed

theorem model_text_bounded_witness:
  "bound_text ''abc'' 3 = ''abc'' \<and> char_count (bound_text ''abcdef'' 4) \<le> 4"
  using model_text_bounded[of "new_registry (grant_check [])" "''a''"
      "\<lparr>call_id = [], call_name = [], call_args = JNull\<rparr>" "''abc''" 3]
    model_text_bounded[of "new_registry (grant_check [])" "''a''"
      "\<lparr>call_id = [], call_name = [], call_args = JNull\<rparr>" "''abcdef''" 4]
  by (simp add: char_count_def is_cont_def byte_def)

text \<open>C15 (dispatch_needs_every_check): A call reaches a tool only through the one door: dispatch
  under the grant matrix means that the agent is granted the tool by name, the tool is registered,
  the arguments are an object that passes the tool's own schema, and the tool itself agreed to
  dispatch exactly this invocation.\<close>

theorem dispatch_needs_every_check:
  assumes "gate r = grant_check gs" "prepare r agent call = Dispatch iv"
  shows "(\<exists>tls. map_of gs agent = Some tls \<and> call_name call \<in> set tls)
    \<and> (\<exists>t. resolve r (call_name call) = Some t
         \<and> validate_strict (td_schema (tool_def t)) (call_args call) = Inr ()
         \<and> tool_prepare t call = Dispatch iv)"
  using grants.dispatch_granted[OF assms] assms(2)
  by (auto simp: prepare_def resolve_def split: gate_decision.splits option.splits sum.splits call_status.splits)

definition demo_tool :: tool where
  "demo_tool = \<lparr>tool_def = \<lparr>td_name = ''view'', td_description = [], td_schema = JObj []\<rparr>,
     tool_prepare = (\<lambda>c. Dispatch \<lparr>inv_call_id = call_id c, inv_name = call_name c, inv_args = call_args c\<rparr>)\<rparr>"

theorem dispatch_needs_every_check_witness:
  "\<exists>t. resolve (register (new_registry (grant_check [(''a'', [''view''])])) demo_tool) ''view'' = Some t
     \<and> validate_strict (td_schema (tool_def t)) (JObj []) = Inr ()"
proof -
  let ?r = "register (new_registry (grant_check [(''a'', [''view''])])) demo_tool"
  let ?c = "\<lparr>call_id = ''1'', call_name = ''view'', call_args = JObj []\<rparr>"
  have g: "gate ?r = grant_check [(''a'', [''view''])]"
    by (simp add: register_def new_registry_def)
  have p: "prepare ?r ''a'' ?c = Dispatch \<lparr>inv_call_id = ''1'', inv_name = ''view'', inv_args = JObj []\<rparr>"
    by (simp add: prepare_def register_def new_registry_def grant_check_def demo_tool_def validate_strict_def)
  show ?thesis using dispatch_needs_every_check[OF g p] by auto
qed

text \<open>Arguments that pass the strict check are an object in which every
  required property is present, nothing is present that the schema does not list when it forbids
  additional properties, and every listed property has the declared type, without coercion.\<close>

theorem strict_arguments_sound:
  assumes "validate_strict (JObj def) args = Inr ()"
  shows "\<exists>obj. args = JObj obj
    \<and> (\<forall>req k. map_of def ''required'' = Some (JArr req) \<and> JStr k \<in> set req \<longrightarrow> map_of obj k \<noteq> None)
    \<and> (\<forall>props. map_of def ''additionalProperties'' = Some (JBool False)
         \<and> map_of def ''properties'' = Some (JObj props) \<longrightarrow> fst ` set obj \<subseteq> fst ` set props)
    \<and> (\<forall>props k sub t v. map_of def ''properties'' = Some (JObj props) \<and> (k, sub) \<in> set props
         \<and> json_get ''type'' sub = Some (JStr t) \<and> map_of obj k = Some v \<longrightarrow> json_has_type t v)"
proof (cases args)
  case (JObj obj)
  note parts = assms[unfolded JObj validate_strict_def as_object.simps option.case try_then_unit]
  note r = parts[THEN conjunct1] and a = parts[THEN conjunct2, THEN conjunct1]
    and p = parts[THEN conjunct2, THEN conjunct2]
  have 1: "map_of obj k \<noteq> None" if "map_of def ''required'' = Some (JArr req)" "JStr k \<in> set req" for req k
    using r that by (simp add: check_required_ok)
  have 2: "fst ` set obj \<subseteq> fst ` set props" if "map_of def ''additionalProperties'' = Some (JBool False)"
    "map_of def ''properties'' = Some (JObj props)" for props
    using a that by (simp add: check_additional_ok)
  have 3: "json_has_type t v" if "map_of def ''properties'' = Some (JObj props)" "(k, sub) \<in> set props"
    "json_get ''type'' sub = Some (JStr t)" "map_of obj k = Some v" for props k sub t v
  proof -
    have "check_json_type k sub v = Inr ()" using p that by (auto simp: check_properties_ok)
    then show ?thesis using that(3) by (simp add: check_json_type_def split: if_splits)
  qed
  show ?thesis
    by (intro exI[of _ obj] conjI allI impI JObj) (use 1 2 3 in \<open>blast+\<close>)
qed (use assms in \<open>simp_all add: validate_strict_def\<close>)

theorem strict_arguments_sound_witness:
  "json_has_type ''string'' (JStr ''x'')"
proof -
  let ?d = "[(''properties'', JObj [(''path'', JObj [(''type'', JStr ''string'')])])]"
  have "validate_strict (JObj ?d) (JObj [(''path'', JStr ''x'')]) = Inr ()"
    by (simp add: validate_strict_def check_json_type_def json_has_type_def)
  from strict_arguments_sound[OF this] show ?thesis by auto
qed

text \<open>The declarations sent to the model are one per registered tool and
  sorted by name, so their order on the wire does not depend on the hash map's.\<close>

theorem declarations_sorted:
  "sorted (map decl_name (definitions r))
   \<and> mset (map decl_name (definitions r)) = mset (map (\<lambda>(_, t). td_name (tool_def t)) (tools r))"
  unfolding definitions_def by (auto simp: mset_map image_mset.compositionality comp_def intro!: image_mset_cong)

end
