(* ===== verification/Provider.thy ===== *)
theory Provider
  imports ToolCore
begin

text \<open>
  The provider contract, \<open>crates/provider-core\<close>: the request and response vocabulary with the usage
  arithmetic and the stop-reason inference (\<open>types.rs\<close>), the error classification and the
  \<open>Retry-After\<close> header (\<open>errors.rs\<close>) and the salvage of truncated JSON (\<open>json.rs\<close>).
  \<open>serde_json::from_str\<close> is a parameter \<open>parse\<close>; \<open>char::is_alphanumeric\<close> is written out on
  ASCII and a parameter \<open>ualnum\<close> on the other scalars; the clock is an argument.
\<close>

section \<open>Requests and responses\<close>

datatype thinking_mode = ThinkingOff | ThinkingAuto

record tool_call_ref =
  tc_id :: string
  tc_name :: string
  tc_args :: json

record provider_message =
  pm_role :: string
  pm_content :: string
  pm_tool_calls :: "tool_call_ref list"
  pm_tool_call_id :: "string option"
  pm_thinking :: "string option"

record request =
  rq_messages :: "provider_message list"
  rq_tools :: "tool_declaration list"
  rq_max_tokens :: usize
  rq_thinking :: thinking_mode
  rq_extras :: json

datatype stop_reason =
  StPending | StStop | StToolUse | StMaxTokens | StRefused | StError | StAborted | StDeferred

definition is_terminal :: "stop_reason \<Rightarrow> bool" where
  "is_terminal s \<longleftrightarrow> s \<noteq> StPending"

definition stop_is_error :: "stop_reason \<Rightarrow> bool" where
  "stop_is_error s \<longleftrightarrow> s \<in> {StRefused, StError, StAborted}"

record usage =
  u_input :: u64
  u_output :: u64
  u_cache_read :: u64
  u_cache_write :: u64
  u_reasoning :: "u64 option"
  u_cost :: "real option"

definition total_tokens :: "usage \<Rightarrow> u64" where
  "total_tokens u = wrap_add64 (u_input u) (u_output u)"

definition content_tokens :: "usage \<Rightarrow> u64" where
  "content_tokens u =
     u_output u - min (case u_reasoning u of Some r \<Rightarrow> r | None \<Rightarrow> 0) (u_output u)"

definition plus_option :: "('a \<Rightarrow> 'a \<Rightarrow> 'a) \<Rightarrow> 'a \<Rightarrow> 'a option \<Rightarrow> 'a option \<Rightarrow> 'a option" where
  "plus_option f z a b =
     (case b of None \<Rightarrow> a | Some y \<Rightarrow> Some (f (case a of Some x \<Rightarrow> x | None \<Rightarrow> z) y))"

definition plus :: "usage \<Rightarrow> usage \<Rightarrow> usage" where
  "plus u n =
     \<lparr>u_input = sat_add64 (u_input u) (u_input n),
      u_output = sat_add64 (u_output u) (u_output n),
      u_cache_read = sat_add64 (u_cache_read u) (u_cache_read n),
      u_cache_write = sat_add64 (u_cache_write u) (u_cache_write n),
      u_reasoning = plus_option sat_add64 0 (u_reasoning u) (u_reasoning n),
      u_cost = plus_option (+) 0 (u_cost u) (u_cost n)\<rparr>"

record assistant_message =
  am_content :: string
  am_tool_calls :: "tool_call_ref list"
  am_thinking :: "string option"

record response =
  rs_message :: assistant_message
  rs_stop :: stop_reason
  rs_usage :: usage
  rs_latency_ms :: u64
  rs_attempts :: u64
  rs_raw_stop :: "string option"
  rs_retry_usage :: "usage option"

definition billed_usage :: "response \<Rightarrow> usage" where
  "billed_usage r =
     (case rs_retry_usage r of Some extra \<Rightarrow> plus extra (rs_usage r) | None \<Rightarrow> rs_usage r)"

definition is_alnum_byte :: "char \<Rightarrow> bool" where
  "is_alnum_byte c \<longleftrightarrow>
     48 \<le> byte c \<and> byte c \<le> 57 \<or> 65 \<le> byte c \<and> byte c \<le> 90 \<or> 97 \<le> byte c \<and> byte c \<le> 122"

definition is_alphanumeric :: "(string \<Rightarrow> bool) \<Rightarrow> string \<Rightarrow> bool" where
  "is_alphanumeric ualnum g =
     (case g of [c] \<Rightarrow> (if byte c < 128 then is_alnum_byte c else ualnum g) | _ \<Rightarrow> ualnum g)"

definition normal_reason :: "(string \<Rightarrow> bool) \<Rightarrow> string \<Rightarrow> string" where
  "normal_reason ualnum s =
     concat (filter (is_alphanumeric ualnum) (uchars (to_lowercase (trim s))))"

definition infer_from_calls :: "assistant_message \<Rightarrow> stop_reason" where
  "infer_from_calls m = (if am_tool_calls m = [] then StStop else StToolUse)"

definition reason_table :: "string \<Rightarrow> assistant_message \<Rightarrow> stop_reason" where
  "reason_table n m =
     (if n \<in> {''length'', ''maxtokens'', ''truncated'', ''outputlimit''} then StMaxTokens
      else if contains_any [''tool'', ''function''] n then StToolUse
      else if contains_any [''refus'', ''contentfilter'', ''safety'', ''policy''] n then StRefused
      else if str_contains n ''defer'' then StDeferred
      else if contains_any [''abort'', ''cancel''] n then StAborted
      else if contains_any [''error'', ''fail''] n then StError
      else if str_contains n ''pending'' then StPending
      else if n \<in> {''stop'', ''endturn'', ''stopsequence'', ''eos'', ''done'', ''complete'', ''finished''}
        then StStop
      else infer_from_calls m)"

definition infer_stop :: "(string \<Rightarrow> bool) \<Rightarrow> string option \<Rightarrow> assistant_message \<Rightarrow> stop_reason" where
  "infer_stop ualnum raw m =
     (case raw of
        None \<Rightarrow> infer_from_calls m
      | Some s \<Rightarrow> if trim s = [] then infer_from_calls m else reason_table (normal_reason ualnum s) m)"

section \<open>Errors\<close>

datatype error_class = Retryable | Overload | AuthStale | ContextOverflow | Fatal

datatype llm_error =
    Transport string
  | Auth string
  | Http nat "nat option" string \<comment> \<open>status, retry-after in nanoseconds, body\<close>
  | LlmCancelled
  | AllFailed string
  | Metered llm_error "usage option" bool \<comment> \<open>source, usage, exhausted\<close>

fun llm_error_display :: "llm_error \<Rightarrow> string" where
  "llm_error_display (Transport m) = m"
| "llm_error_display (Auth m) = m"
| "llm_error_display (AllFailed m) = m"
| "llm_error_display (Http status _ body) = dec status @ '': '' @ body"
| "llm_error_display LlmCancelled = ''cancelled''"
| "llm_error_display (Metered src _ _) = llm_error_display src"

definition overflow_words :: "string list" where
  "overflow_words = [''context_length_exceeded'', ''context_overflow'', ''context overflow'',
     ''context window'', ''prompt too long'', ''input too long'', ''too many tokens'',
     ''out of context'', ''token limit'']"

definition overload_words :: "string list" where
  "overload_words = [''server_is_overloaded'', ''slow_down'', ''server overloaded'', ''overloaded'']"

definition fatal_words :: "string list" where
  "fatal_words = [''invalid_prompt'', ''invalid_api_key'', ''invalid_token'', ''authentication_error'',
     ''permission_error'', ''insufficient_quota'', ''usage_limit_reached'', ''credit_balance_exhausted'',
     ''billing_hard_limit'', ''unauthorized'', ''forbidden'', '' 401'', '' 403'', ''(401'', ''(403'',
     ''account_disabled'']"

definition classify_message :: "string \<Rightarrow> error_class" where
  "classify_message s =
     (let t = to_lowercase s in
      if contains_any overflow_words t then ContextOverflow
      else if contains_any overload_words t then Overload
      else if contains_any [''expired'', ''stale''] t then AuthStale
      else if str_contains t ''402'' then Retryable
      else if contains_any fatal_words t then Fatal
      else Retryable)"

definition classify_http :: "nat \<Rightarrow> string \<Rightarrow> error_class" where
  "classify_http status body =
     (let t = to_lowercase body in
      if contains_any overflow_words t then ContextOverflow
      else if status = 401 \<or> status = 403 then Fatal
      else if contains_any overload_words t then Overload
      else if status = 429 \<or> status = 402 \<or> 500 \<le> status \<and> status \<le> 599 then Retryable
      else classify_message body)"

fun classify_error :: "llm_error \<Rightarrow> error_class" where
  "classify_error LlmCancelled = Fatal"
| "classify_error (Auth _) = Fatal"
| "classify_error (AllFailed _) = Retryable"
| "classify_error (Transport msg) = classify_message msg"
| "classify_error (Http status _ body) = classify_http status body"
| "classify_error (Metered src _ _) = classify_error src"

section \<open>Retry-After\<close>

text \<open>The operations of \<open>i64\<close> in a release build: results wrap, division truncates to zero.\<close>

definition wrap_i64 :: "int \<Rightarrow> int" where
  "wrap_i64 x = (x + 9223372036854775808) mod 18446744073709551616 - 9223372036854775808"

definition tdiv :: "int \<Rightarrow> int \<Rightarrow> int" where
  "tdiv a b = (if 0 \<le> a then a div b else - ((- a) div b))"

definition month_names :: "(string \<times> int) list" where
  "month_names =
     [(''Jan'', 1), (''jan'', 1), (''Feb'', 2), (''feb'', 2), (''Mar'', 3), (''mar'', 3),
      (''Apr'', 4), (''apr'', 4), (''May'', 5), (''may'', 5), (''Jun'', 6), (''jun'', 6),
      (''Jul'', 7), (''jul'', 7), (''Aug'', 8), (''aug'', 8), (''Sep'', 9), (''sep'', 9),
      (''Oct'', 10), (''oct'', 10), (''Nov'', 11), (''nov'', 11), (''Dec'', 12), (''dec'', 12)]"

definition month_num :: "string \<Rightarrow> int option" where
  "month_num m = map_of month_names m"

text \<open>The arithmetic of \<open>parse_http_date\<close>, on the numbers the text gave.\<close>

definition civil_days :: "int \<Rightarrow> int \<Rightarrow> int \<Rightarrow> int" where
  "civil_days y m d =
     (let y2 = wrap_i64 (y - (if m \<le> 2 then 1 else 0));
          era = tdiv (if 0 \<le> y2 then y2 else wrap_i64 (y2 - 399)) 400;
          yoe = wrap_i64 (y2 - wrap_i64 (era * 400));
          doy = wrap_i64 (wrap_i64 (tdiv (153 * (m + (if 2 < m then -3 else 9)) + 2) 5 + d) - 1);
          doe = wrap_i64 (wrap_i64 (wrap_i64 (wrap_i64 (yoe * 365) + tdiv yoe 4) - tdiv yoe 100) + doy)
      in wrap_i64 (wrap_i64 (wrap_i64 (era * 146097) + doe) - 719468))"

definition civil_seconds :: "int \<Rightarrow> int \<Rightarrow> int \<Rightarrow> int \<Rightarrow> int \<Rightarrow> int \<Rightarrow> nat option" where
  "civil_seconds y m d hh mm ss =
     (let t = wrap_i64 (wrap_i64 (wrap_i64 (wrap_i64 (civil_days y m d * 86400) + wrap_i64 (hh * 3600))
                + wrap_i64 (mm * 60)) + ss)
      in if 0 \<le> t then Some (nat t) else None)"

definition date_parts :: "string \<Rightarrow> string list" where
  "date_parts s =
     (case split_whitespace s of
        [] \<Rightarrow> []
      | p # ps \<Rightarrow> if suffix '','' p then ps else p # ps)"

definition parse_http_date :: "string \<Rightarrow> nat option" where
  "parse_http_date s =
     (case date_parts s of
        [day, mon, year, clock, tz] \<Rightarrow>
          if map lower_byte tz \<noteq> ''gmt'' then None
          else
            (case (parse_i64 day, month_num mon, parse_i64 year) of
               (Some d, Some m, Some y) \<Rightarrow>
                 (case split_on (CHR '':'') clock of
                    [h, mi, se] \<Rightarrow>
                      (case (parse_i64 h, parse_i64 mi, parse_i64 se) of
                         (Some hh, Some mm, Some ss) \<Rightarrow> civil_seconds y m d hh mm ss
                       | _ \<Rightarrow> None)
                  | _ \<Rightarrow> None)
             | _ \<Rightarrow> None)
      | _ \<Rightarrow> None)"

text \<open>\<open>now\<close> is the reading of the wall clock in seconds since the epoch, \<open>None\<close> when the clock
  stands before it. Durations are nanoseconds.\<close>

definition parse_retry_after :: "nat option \<Rightarrow> string \<Rightarrow> nat option" where
  "parse_retry_after now header =
     (let h = trim header in
      case parse_u64 h of
        Some s \<Rightarrow> Some (s * 1000000000)
      | None \<Rightarrow>
          (case parse_http_date h of
             None \<Rightarrow> None
           | Some epoch \<Rightarrow>
               (case now of None \<Rightarrow> None | Some n \<Rightarrow> Some ((epoch - n) * 1000000000))))"

section \<open>Salvage of truncated JSON\<close>

definition BACKSLASH :: char where "BACKSLASH = CHR 0x5C"
definition QUOTE :: char where "QUOTE = CHR 0x22"

definition hex_digit :: "nat \<Rightarrow> char" where
  "hex_digit n = char_of (if n < 10 then 48 + n else 87 + n)"

definition valid_escapes :: "char list" where
  "valid_escapes = [QUOTE, BACKSLASH, CHR ''/'', CHR ''b'', CHR ''f'', CHR ''n'', CHR ''r'', CHR ''t'', CHR ''u'']"

text \<open>A raw character inside a string literal, as \<open>repair_json\<close> writes it out.\<close>

definition repair_char :: "char \<Rightarrow> string" where
  "repair_char c =
     (if byte c = 10 then [BACKSLASH, CHR ''n'']
      else if byte c = 13 then [BACKSLASH, CHR ''r'']
      else if byte c = 9 then [BACKSLASH, CHR ''t'']
      else if byte c < 32
        then [BACKSLASH, CHR ''u'', CHR ''0'', CHR ''0'', hex_digit (byte c div 16), hex_digit (byte c mod 16)]
      else [c])"

text \<open>\<open>repair_scan in_str esc s\<close> is the loop of \<open>repair_json\<close>, its two flags as arguments.\<close>

fun repair_scan :: "bool \<Rightarrow> bool \<Rightarrow> string \<Rightarrow> string" where
  "repair_scan in_str esc [] = []"
| "repair_scan in_str esc (c # cs) =
     (if in_str then
        if esc then c # repair_scan True False cs
        else if c = BACKSLASH then
          (if cs \<noteq> [] \<and> hd cs \<in> set valid_escapes
           then BACKSLASH # repair_scan True True cs
           else BACKSLASH # BACKSLASH # repair_scan True False cs)
        else if c = QUOTE then c # repair_scan False False cs
        else repair_char c @ repair_scan True False cs
      else if c = QUOTE then c # repair_scan True esc cs
      else c # repair_scan False esc cs)"

definition repair_json :: "string \<Rightarrow> string" where
  "repair_json s = repair_scan False False s"

text \<open>The bracket scan of \<open>close_truncated\<close>: open brackets, inside a string, after a backslash.\<close>

type_synonym scan_state = "char list \<times> bool \<times> bool"

fun scan_step :: "scan_state \<Rightarrow> char \<Rightarrow> scan_state" where
  "scan_step (stack, in_str, esc) c =
     (if in_str then
        if esc then (stack, in_str, False)
        else if c = BACKSLASH then (stack, in_str, True)
        else if c = QUOTE then (stack, False, esc)
        else (stack, in_str, esc)
      else if c = QUOTE then (stack, True, esc)
      else if c = CHR 0x7B then (CHR 0x7D # stack, in_str, esc)
      else if c = CHR 0x5B then (CHR 0x5D # stack, in_str, esc)
      else if (c = CHR 0x7D \<or> c = CHR 0x5D) \<and> stack \<noteq> [] \<and> hd stack = c then (tl stack, in_str, esc)
      else (stack, in_str, esc))"

definition bracket_scan :: "string \<Rightarrow> scan_state" where
  "bracket_scan s = foldl scan_step ([], False, False) s"

function strip_dangling :: "string \<Rightarrow> string" where
  "strip_dangling out =
     (let t = trim_end out in
      if suffix '','' t \<or> suffix '':'' t then strip_dangling (butlast t) else t)"
  by pat_completeness auto
termination
proof (relation "measure length", simp)
  fix out t :: string
  assume t: "t = trim_end out" and "suffix '','' t \<or> suffix '':'' t"
  then have "t \<noteq> []" by auto
  moreover have "length t \<le> length out" using t length_trim_end by simp
  ultimately show "(butlast t, out) \<in> measure length" by (cases t) auto
qed

declare strip_dangling.simps [simp del]

definition close_truncated :: "string \<Rightarrow> string" where
  "close_truncated s =
     (let (stack, in_str, _) = bracket_scan s
      in strip_dangling (trim_end s) @ (if in_str then [QUOTE] else []) @ stack)"

definition trim_end_while :: "(string \<Rightarrow> bool) \<Rightarrow> string \<Rightarrow> string" where
  "trim_end_while P s = concat (rev (dropWhile P (rev (uchars s))))"

definition literal_char :: "(string \<Rightarrow> bool) \<Rightarrow> string \<Rightarrow> bool" where
  "literal_char ualnum g \<longleftrightarrow>
     is_alphanumeric ualnum g \<or> g \<in> {''.'', ''+'', ''-'', [CHR 0x5F]}"

definition cut_literal :: "(string \<Rightarrow> bool) \<Rightarrow> string \<Rightarrow> string" where
  "cut_literal ualnum t =
     trim_end (trim_end_while (\<lambda>g. g = '':'') (trim_end_while (\<lambda>g. g = '','')
       (trim_end (trim_end_while (literal_char ualnum) t))))"

definition partial_parse :: "(string \<Rightarrow> json option) \<Rightarrow> (string \<Rightarrow> bool) \<Rightarrow> string \<Rightarrow> json option" where
  "partial_parse parse ualnum s =
     (case parse (close_truncated s) of
        Some v \<Rightarrow> Some v
      | None \<Rightarrow>
          let t = trim_end s; cut = cut_literal ualnum t in
          if length cut < length t then parse (close_truncated cut) else None)"

definition parse_streaming_json :: "(string \<Rightarrow> json option) \<Rightarrow> (string \<Rightarrow> bool) \<Rightarrow> string \<Rightarrow> json" where
  "parse_streaming_json parse ualnum s =
     (case parse s of Some v \<Rightarrow> v
      | None \<Rightarrow> (case parse (repair_json s) of Some v \<Rightarrow> v
      | None \<Rightarrow> (case partial_parse parse ualnum s of Some v \<Rightarrow> v
      | None \<Rightarrow> (case partial_parse parse ualnum (repair_json s) of Some v \<Rightarrow> v
      | None \<Rightarrow> JObj []))))"

section \<open>Calendar\<close>

text \<open>The Gregorian calendar counted out day by day, against which the closed form is checked.\<close>

definition leap_year :: "int \<Rightarrow> bool" where
  "leap_year y \<longleftrightarrow> 4 dvd y \<and> \<not> 100 dvd y \<or> 400 dvd y"

definition month_length :: "int \<Rightarrow> nat \<Rightarrow> int" where
  "month_length y m =
     (if m = 2 then if leap_year y then 29 else 28 else if m \<in> {4, 6, 9, 11} then 30 else 31)"

definition year_length :: "int \<Rightarrow> int" where
  "year_length y = (\<Sum>m\<leftarrow>[1..<13]. month_length y m)"

definition calendar_days :: "nat \<Rightarrow> nat \<Rightarrow> nat \<Rightarrow> int" where
  "calendar_days y m d =
     (\<Sum>k\<leftarrow>[1970..<y]. year_length (int k)) + (\<Sum>k\<leftarrow>[1..<m]. month_length (int y) k) + (int d - 1)"

lemma wrap_i64_id: "- 9223372036854775808 \<le> x \<Longrightarrow> x < 9223372036854775808 \<Longrightarrow> wrap_i64 x = x"
  by (simp add: wrap_i64_def)

definition leaps :: "int \<Rightarrow> int" where
  "leaps y = (y - 1) div 4 - (y - 1) div 100 + (y - 1) div 400"

lemma div_pred:
  assumes "0 < (k::int)"
  shows "y div k = (y - 1) div k + (if k dvd y then 1 else 0)"
proof (cases "k dvd y")
  case True
  then have "y - 1 = k * (y div k - 1) + (k - 1)" by (simp add: right_diff_distrib)
  then have "(y - 1) div k = y div k - 1" using assms int_div_pos_eq by fastforce
  then show ?thesis using True by simp
next
  case False
  then have "0 < y mod k" using assms by (simp add: dvd_eq_mod_eq_0 order_less_le)
  moreover have "y - 1 = k * (y div k) + (y mod k - 1)" by simp
  ultimately have "(y - 1) div k = y div k"
    using assms int_div_pos_eq[of "y - 1" k "y div k" "y mod k - 1"] pos_mod_bound[OF assms, of y] by simp
  then show ?thesis using False by simp
qed

lemma leaps_step: "leaps (y + 1) = leaps y + (if leap_year y then 1 else 0)"
proof -
  note 4 = div_pred[of 4 y, simplified] and 100 = div_pred[of 100 y, simplified]
    and 400 = div_pred[of 400 y, simplified]
  have d: "400 dvd y \<Longrightarrow> 100 dvd y" "100 dvd y \<Longrightarrow> 4 dvd y"
    by (auto intro: dvd_trans[of 100 400] dvd_trans[of 4 100])
  then show ?thesis using 4 100 400 unfolding leaps_def leap_year_def by (auto split: if_splits)
qed

lemma year_length_eq: "year_length y = 365 + (if leap_year y then 1 else 0)"
  by (simp add: year_length_def month_length_def upt_rec)

lemma years_sum: "1970 \<le> y \<Longrightarrow>
  (\<Sum>k\<leftarrow>[1970..<y]. year_length (int k)) = 365 * (int y - 1970) + leaps (int y) - 477"
proof (induction y rule: nat_induct_at_least)
  case base
  then show ?case by (simp add: leaps_def)
next
  case (Suc n)
  then show ?case
    using leaps_step[of "int n"] by (simp add: year_length_eq add.commute)
qed

lemma era_form:
  "(y div 400) * 146097 + ((y mod 400) * 365 + (y mod 400) div 4 - (y mod 400) div 100)
     = 365 * y + leaps (y + 1)" for y :: int
proof -
  define e r where e: "e = y div 400" and r: "r = y mod 400"
  have y: "y = 400 * e + r" unfolding e r by simp
  have "y div 4 = 100 * e + r div 4"
    using div_mult_self1[of 4 r "100 * e"] unfolding y by (simp add: add.commute mult.commute)
  moreover have "y div 100 = 4 * e + r div 100"
    using div_mult_self1[of 100 r "4 * e"] unfolding y by (simp add: add.commute mult.commute)
  moreover have "leaps (y + 1) = y div 4 - y div 100 + e" by (simp add: leaps_def e)
  moreover have "365 * y = 146000 * e + 365 * r" unfolding y by simp
  ultimately have "e * 146097 + (r * 365 + r div 4 - r div 100) = 365 * y + leaps (y + 1)" by linarith
  then show ?thesis unfolding e r .
qed

lemma civil_no_wrap:
  assumes "0 \<le> a" "a \<le> 2500000" "0 \<le> r" "r < 400" "0 \<le> r4" "r4 < 100" "0 \<le> r100" "r100 < 4"
    "0 \<le> q" "q \<le> 367" "1 \<le> d" "d \<le> 31"
  shows "wrap_i64 (wrap_i64 (wrap_i64 (a * 146097)
      + wrap_i64 (wrap_i64 (wrap_i64 (wrap_i64 (r * 365) + r4) - r100) + wrap_i64 (wrap_i64 (q + d) - 1))) - 719468)
    = a * 146097 + (r * 365 + r4 - r100 + (q + d - 1)) - 719468"
proof -
  have "wrap_i64 (a * 146097) = a * 146097" "wrap_i64 (r * 365) = r * 365" "wrap_i64 (q + d) = q + d"
    using assms by (auto intro!: wrap_i64_id)
  moreover have "wrap_i64 (r * 365 + r4) = r * 365 + r4" "wrap_i64 (q + d - 1) = q + d - 1"
    using assms by (auto intro!: wrap_i64_id)
  moreover have "wrap_i64 (r * 365 + r4 - r100) = r * 365 + r4 - r100"
    using assms by (auto intro!: wrap_i64_id)
  moreover have "wrap_i64 (r * 365 + r4 - r100 + (q + d - 1)) = r * 365 + r4 - r100 + (q + d - 1)"
    using assms by (intro wrap_i64_id) linarith+
  moreover have "wrap_i64 (a * 146097 + (r * 365 + r4 - r100 + (q + d - 1)))
      = a * 146097 + (r * 365 + r4 - r100 + (q + d - 1))"
    using assms by (intro wrap_i64_id) linarith+
  moreover have "wrap_i64 (a * 146097 + (r * 365 + r4 - r100 + (q + d - 1)) - 719468)
      = a * 146097 + (r * 365 + r4 - r100 + (q + d - 1)) - 719468"
    using assms by (intro wrap_i64_id) linarith+
  ultimately show ?thesis by (simp only:)
qed

lemma civil_days_eq:
  assumes "1970 \<le> y" "y \<le> 1000000000" "1 \<le> m" "m \<le> 12" "1 \<le> d" "d \<le> 31"
  shows "civil_days y m d =
    (let y2 = y - (if m \<le> 2 then 1 else 0)
     in 365 * y2 + leaps (y2 + 1) + ((153 * (m + (if 2 < m then -3 else 9)) + 2) div 5 + d - 1) - 719468)"
proof -
  let ?y2 = "y - (if m \<le> 2 then 1 else 0)"
  let ?q = "(153 * (m + (if 2 < m then -3 else 9)) + 2) div 5"
  let ?r = "?y2 mod 400"
  have y2: "0 \<le> ?y2" "?y2 \<le> 1000000000" using assms by auto
  have q: "0 \<le> ?q" "?q \<le> 367" using assms by auto
  have r: "0 \<le> ?r" "?r < 400" by auto
  have e: "0 \<le> ?y2 div 400" "?y2 div 400 \<le> 2500000" using y2 by auto
  have w: "wrap_i64 ?y2 = ?y2" using y2 by (intro wrap_i64_id) auto
  have m0: "0 \<le> 153 * (m + (if 2 < m then -3 else 9)) + 2" using assms by auto
  have er: "wrap_i64 (?y2 - wrap_i64 (?y2 div 400 * 400)) = ?r"
  proof -
    have "?y2 - ?y2 div 400 * 400 = ?r" by (simp add: minus_div_mult_eq_mod)
    moreover have "wrap_i64 (?y2 div 400 * 400) = ?y2 div 400 * 400" using e by (intro wrap_i64_id) auto
    ultimately show ?thesis using r by (simp add: wrap_i64_id)
  qed
  have r4: "0 \<le> ?r div 4" "?r div 4 < 100" "0 \<le> ?r div 100" "?r div 100 < 4" using r by auto
  have "civil_days y m d = ?y2 div 400 * 146097 + (?r * 365 + ?r div 4 - ?r div 100 + (?q + d - 1)) - 719468"
    unfolding civil_days_def Let_def w er tdiv_def if_P[OF y2(1)] if_P[OF m0] if_P[OF r(1)]
    by (rule civil_no_wrap[OF e r r4 q assms(5,6)])
  then show ?thesis using era_form[of ?y2] by (simp add: Let_def)
qed


lemma month_days_sum:
  assumes "1 \<le> m" "m \<le> 12"
  shows "(\<Sum>k\<leftarrow>[1..<m]. month_length y k) =
    (if m \<le> 2 then (153 * (int m + 9) + 2) div 5 - 306
     else (153 * (int m - 3) + 2) div 5 + 59 + (if leap_year y then 1 else 0))"
proof -
  have "m \<in> {1, 2, 3, 4, 5, 6, 7, 8, 9, 10, 11, 12}"
    unfolding insert_iff empty_iff using assms by presburger
  then show ?thesis
    by (elim insertE emptyE; simp add: month_length_def upt_rec)
qed

lemma civil_days_calendar:
  assumes "1970 \<le> y" "y \<le> 1000000000" "1 \<le> m" "m \<le> 12" "1 \<le> d" "d \<le> 31"
  shows "civil_days (int y) (int m) (int d) = calendar_days y m d"
proof -
  have c: "civil_days (int y) (int m) (int d) =
    (let y2 = int y - (if int m \<le> 2 then 1 else 0)
     in 365 * y2 + leaps (y2 + 1)
        + ((153 * (int m + (if 2 < int m then -3 else 9)) + 2) div 5 + int d - 1) - 719468)"
    by (rule civil_days_eq) (use assms in auto)
  show ?thesis
    using leaps_step[of "int y"]
    by (simp add: c calendar_days_def years_sum[OF assms(1)] month_days_sum[OF assms(3,4)] Let_def
        del: One_nat_def)
qed

section \<open>Usage and stop reasons\<close>

definition usage_ok :: "usage \<Rightarrow> bool" where
  "usage_ok u \<longleftrightarrow> u_input u \<le> U64_MAX \<and> u_output u \<le> U64_MAX \<and> u_cache_read u \<le> U64_MAX
     \<and> u_cache_write u \<le> U64_MAX \<and> (\<forall>r. u_reasoning u = Some r \<longrightarrow> r \<le> u_output u)"

lemma plus_usage_ok: "usage_ok u \<Longrightarrow> usage_ok n \<Longrightarrow> usage_ok (plus u n)"
  by (auto simp: usage_ok_def plus_def plus_option_def sat_add64_def min_def split: option.splits)

lemma plus_mono: "usage_ok u \<Longrightarrow> usage_ok n \<Longrightarrow>
  u_input u \<le> u_input (plus u n) \<and> u_input n \<le> u_input (plus u n)
  \<and> u_output u \<le> u_output (plus u n) \<and> u_output n \<le> u_output (plus u n)"
  by (auto simp: usage_ok_def plus_def sat_add64_def)

lemma plus_option_assoc:
  assumes "\<And>a b c. f (f a b) c = f a (f b c)" "\<And>a b. f a (f z b) = f a b"
  shows "plus_option f z (plus_option f z x y) w = plus_option f z x (plus_option f z y w)"
  using assms by (cases x; cases y; cases w) (auto simp: plus_option_def)

lemma plus_assoc: "plus (plus u v) w = plus u (plus v w)"
  unfolding plus_def
  by (auto simp: sat_add64_assoc intro!: plus_option_assoc) (simp add: sat_add64_def)

text \<open>Adding the usage of two billed requests never loses tokens: every
  total is at least either side's, is the exact sum while it fits 64 bits and stays at the maximum
  otherwise; the grouping of the requests does not matter, reasoning stays a subset of the output,
  and the visible content plus the reasoning is the output.\<close>

theorem usage_is_a_ledger:
  assumes "usage_ok u" "usage_ok v" "usage_ok w"
  shows "plus (plus u v) w = plus u (plus v w)
    \<and> usage_ok (plus u v)
    \<and> u_output (plus u v) = min (u_output u + u_output v) U64_MAX
    \<and> u_input (plus u v) = min (u_input u + u_input v) U64_MAX
    \<and> u_output u \<le> u_output (plus u v) \<and> u_input u \<le> u_input (plus u v)
    \<and> content_tokens u + (case u_reasoning u of Some r \<Rightarrow> r | None \<Rightarrow> 0) = u_output u"
proof -
  have "content_tokens u + (case u_reasoning u of Some r \<Rightarrow> r | None \<Rightarrow> 0) = u_output u"
    using assms(1) by (auto simp: content_tokens_def usage_ok_def split: option.splits)
  then show ?thesis
    using assms plus_assoc plus_usage_ok plus_mono by (simp add: plus_def sat_add64_def)
qed

theorem usage_is_a_ledger_witness:
  "u_output (plus \<lparr>u_input = 1, u_output = 7, u_cache_read = 0, u_cache_write = 0, u_reasoning = Some 3, u_cost = None\<rparr>
      \<lparr>u_input = 2, u_output = U64_MAX, u_cache_read = 0, u_cache_write = 0, u_reasoning = None, u_cost = None\<rparr>)
   = min (7 + U64_MAX) U64_MAX"
  using usage_is_a_ledger[of
    "\<lparr>u_input = 1, u_output = 7, u_cache_read = 0, u_cache_write = 0, u_reasoning = Some 3, u_cost = None\<rparr>"
    "\<lparr>u_input = 2, u_output = U64_MAX, u_cache_read = 0, u_cache_write = 0, u_reasoning = None, u_cost = None\<rparr>"
    "\<lparr>u_input = 2, u_output = U64_MAX, u_cache_read = 0, u_cache_write = 0, u_reasoning = None, u_cost = None\<rparr>"]
  by (simp add: usage_ok_def U64_MAX_def)

text \<open>A finish reason that says the output was cut, in any case
  and with any punctuation, is \<open>MaxTokens\<close> whatever tool calls the message carries, so truncated
  arguments are never executed; and \<open>ToolUse\<close> is only ever answered when the message has a tool
  call or the reason itself names a tool or function.\<close>

theorem truncation_is_never_tool_use:
  "(\<forall>s. trim s \<noteq> [] \<and> normal_reason ualnum s \<in> {''length'', ''maxtokens'', ''truncated'', ''outputlimit''}
       \<longrightarrow> infer_stop ualnum (Some s) m = StMaxTokens)
   \<and> (infer_stop ualnum raw m = StToolUse \<longrightarrow>
        am_tool_calls m \<noteq> []
        \<or> (\<exists>s. raw = Some s \<and> contains_any [''tool'', ''function''] (normal_reason ualnum s)))"
  by (auto simp: infer_stop_def reason_table_def infer_from_calls_def
      split: option.splits if_splits)

theorem truncation_is_never_tool_use_witness:
  "infer_stop (\<lambda>_. False) (Some '' Max_Tokens '')
     \<lparr>am_content = [], am_tool_calls = [\<lparr>tc_id = ''1'', tc_name = ''edit'', tc_args = JObj []\<rparr>], am_thinking = None\<rparr>
   = StMaxTokens"
proof -
  have "trim '' Max_Tokens '' \<noteq> [] \<and> normal_reason (\<lambda>_. False) '' Max_Tokens '' = ''maxtokens''"
    by code_simp
  then show ?thesis using truncation_is_never_tool_use[of "\<lambda>_. False"] by simp
qed

section \<open>Classification\<close>

fun unmetered :: "llm_error \<Rightarrow> llm_error" where
  "unmetered (Metered src _ _) = unmetered src"
| "unmetered e = e"

definition listed_words :: "string list" where
  "listed_words = overflow_words @ overload_words @ [''expired'', ''stale''] @ fatal_words"

lemma classify_unmetered: "classify_error e = classify_error (unmetered e)"
  by (induction e) auto

lemma contains_any_append [simp]:
  "contains_any (xs @ ys) t \<longleftrightarrow> contains_any xs t \<or> contains_any ys t"
  by (simp add: contains_any_def)

lemma listed_words_iff: "contains_any listed_words t \<longleftrightarrow> contains_any overflow_words t
  \<or> contains_any overload_words t \<or> contains_any [''expired'', ''stale''] t \<or> contains_any fatal_words t"
  by (simp only: listed_words_def contains_any_append)

lemma classify_message_fatal:
  "classify_message s = Fatal \<Longrightarrow> contains_any fatal_words (to_lowercase s)"
  by (auto simp: classify_message_def Let_def split: if_splits)

lemma classify_http_fatal:
  "classify_http st body = Fatal \<Longrightarrow>
     st \<in> {401, 403} \<or> contains_any fatal_words (to_lowercase body) \<and> \<not> (500 \<le> st \<and> st \<le> 599)"
  using classify_message_fatal by (auto simp: classify_http_def Let_def split: if_splits)

text \<open>However often a failure is wrapped with usage, it is classified
  as the failure inside. Only a cancellation, an authentication failure, a 401 or 403, or a text with
  a word of the fatal list is fatal, never a 5xx; a failure whose text has no listed word is retried
  unless it is one of those; and an overflow text is an overflow under every status.\<close>

theorem classification_fails_open:
  "classify_error (Metered e u x) = classify_error e
   \<and> (classify_error e = Fatal \<longrightarrow>
        (case unmetered e of
           LlmCancelled \<Rightarrow> True
         | Auth _ \<Rightarrow> True
         | Http st _ body \<Rightarrow> st \<in> {401, 403}
             \<or> contains_any fatal_words (to_lowercase body) \<and> \<not> (500 \<le> st \<and> st \<le> 599)
         | Transport msg \<Rightarrow> contains_any fatal_words (to_lowercase msg)
         | _ \<Rightarrow> False))
   \<and> (\<not> contains_any listed_words (to_lowercase body) \<and> st \<notin> {401, 403} \<longrightarrow>
        classify_error (Http st ra body) = Retryable \<and> classify_error (Transport body) = Retryable)
   \<and> (contains_any overflow_words (to_lowercase body) \<longrightarrow>
        classify_error (Http st ra body) = ContextOverflow \<and> classify_error (Transport body) = ContextOverflow)"
proof -
  have "classify_error e = Fatal \<longrightarrow>
        (case unmetered e of
           LlmCancelled \<Rightarrow> True
         | Auth _ \<Rightarrow> True
         | Http st _ body \<Rightarrow> st \<in> {401, 403}
             \<or> contains_any fatal_words (to_lowercase body) \<and> \<not> (500 \<le> st \<and> st \<le> 599)
         | Transport msg \<Rightarrow> contains_any fatal_words (to_lowercase msg)
         | _ \<Rightarrow> False)"
    by (induction e) (auto dest: classify_message_fatal classify_http_fatal)
  then show ?thesis
    by (simp add: classify_http_def classify_message_def listed_words_iff Let_def)
qed

theorem classification_fails_open_witness:
  "classify_error (Metered (Http 502 None ''bad gateway'') None True) = Retryable
   \<and> classify_error (Transport ''connection reset'') = Retryable
   \<and> classify_error (Http 400 None ''Context window exceeded'') = ContextOverflow"
proof -
  have "\<not> contains_any listed_words (to_lowercase ''bad gateway'')"
    "\<not> contains_any listed_words (to_lowercase ''connection reset'')"
    "contains_any overflow_words (to_lowercase ''Context window exceeded'')"
    by code_simp+
  then show ?thesis
    using classification_fails_open[of "Http 502 None ''bad gateway''" None True "''bad gateway''" 502 None]
      classification_fails_open[of LlmCancelled None True "''connection reset''" 502 None]
      classification_fails_open[of LlmCancelled None True "''Context window exceeded''" 400 None]
    by simp
qed

section \<open>Dates\<close>

text \<open>The closed form with which an HTTP date becomes seconds since the
  epoch agrees with the Gregorian calendar counted day by day, for every month, day and time of day
  of every year from 1970 on for a billion years, and none of its 64-bit operations wraps there.\<close>

theorem http_date_is_calendar:
  assumes "1970 \<le> y" "y \<le> 1000000000" "1 \<le> m" "m \<le> 12" "1 \<le> d" "d \<le> 31"
    "hh \<le> 23" "mm \<le> 59" "ss \<le> 60"
  shows "civil_seconds (int y) (int m) (int d) (int hh) (int mm) (int ss) =
    Some (nat (calendar_days y m d * 86400) + hh * 3600 + mm * 60 + ss)"
proof -
  have nn: "0 \<le> calendar_days y m d"
  proof -
    have "0 \<le> (\<Sum>k\<leftarrow>[1970..<y]. year_length (int k))"
      by (rule sum_list_nonneg) (auto simp: year_length_eq)
    moreover have "0 \<le> (\<Sum>k\<leftarrow>[1..<m]. month_length (int y) k)"
      by (rule sum_list_nonneg) (auto simp: month_length_def)
    ultimately show ?thesis using assms by (simp add: calendar_days_def)
  qed
  have le: "calendar_days y m d \<le> 366 * 1000000000 + 1000"
  proof -
    have "(\<Sum>k\<leftarrow>[1970..<y]. year_length (int k)) \<le> (\<Sum>k\<leftarrow>[1970..<y]. 366)"
      by (rule sum_list_mono) (simp add: year_length_eq)
    also have "\<dots> = 366 * (int y - 1970)" using assms by (simp add: sum_list_triv of_nat_diff)
    finally have 1: "(\<Sum>k\<leftarrow>[1970..<y]. year_length (int k)) \<le> 366 * (int y - 1970)" .
    have "(\<Sum>k\<leftarrow>[1..<m]. month_length (int y) k) \<le> (\<Sum>k\<leftarrow>[1..<m]. 31)"
      by (rule sum_list_mono) (simp add: month_length_def)
    also have "\<dots> \<le> 400" using assms by (simp add: sum_list_triv)
    finally show ?thesis using 1 assms by (simp add: calendar_days_def)
  qed
  define c where "c = calendar_days y m d"
  have c: "0 \<le> c" "c \<le> 366 * 1000000000 + 1000" using nn le c_def by auto
  have "wrap_i64 (c * 86400) = c * 86400" "wrap_i64 (int hh * 3600) = int hh * 3600"
    "wrap_i64 (int mm * 60) = int mm * 60"
    using c assms by (auto intro!: wrap_i64_id)
  moreover have "wrap_i64 (c * 86400 + int hh * 3600) = c * 86400 + int hh * 3600"
    using c assms by (intro wrap_i64_id) linarith+
  moreover have "wrap_i64 (c * 86400 + int hh * 3600 + int mm * 60) = c * 86400 + int hh * 3600 + int mm * 60"
    using c assms by (intro wrap_i64_id) linarith+
  moreover have "wrap_i64 (c * 86400 + int hh * 3600 + int mm * 60 + int ss)
      = c * 86400 + int hh * 3600 + int mm * 60 + int ss"
    using c assms by (intro wrap_i64_id) linarith+
  moreover have "nat (c * 86400 + int hh * 3600 + int mm * 60 + int ss) = nat (c * 86400) + hh * 3600 + mm * 60 + ss"
    using c by (simp add: nat_add_distrib nat_mult_distrib)
  ultimately show ?thesis
    using c by (simp only: civil_seconds_def civil_days_calendar[OF assms(1-6)] c_def[symmetric] Let_def) simp
qed

theorem http_date_is_calendar_witness:
  "civil_seconds 2000 3 1 12 0 0 = Some (nat (calendar_days 2000 3 1 * 86400) + 43200)"
  using http_date_is_calendar[of 2000 3 1 12 0 0] by simp

section \<open>Salvaged JSON\<close>

text \<open>The string literals of a text as JSON wants them: no raw control character, and every
  backslash starts one of the escapes. The flags are those of \<open>repair_scan\<close>.\<close>

fun literals_ok :: "bool \<Rightarrow> bool \<Rightarrow> string \<Rightarrow> bool" where
  "literals_ok in_str esc [] \<longleftrightarrow> \<not> (in_str \<and> esc)"
| "literals_ok in_str esc (c # cs) \<longleftrightarrow>
     (if in_str then
        if esc then c \<in> set valid_escapes \<and> literals_ok True False cs
        else if c = BACKSLASH then literals_ok True True cs
        else if c = QUOTE then literals_ok False False cs
        else 32 \<le> byte c \<and> literals_ok True False cs
      else literals_ok (c = QUOTE) False cs)"

lemma byte_eq: "byte c = byte d \<longleftrightarrow> c = d"
  by (simp add: byte_def)

lemma char_of_byte: "n < 256 \<Longrightarrow> byte (char_of n) = n"
  by (simp add: byte_def)

lemma hex_digit_plain: "n < 16 \<Longrightarrow> hex_digit n \<noteq> QUOTE \<and> hex_digit n \<noteq> BACKSLASH \<and> 32 \<le> byte (hex_digit n)"
proof -
  have "\<forall>n\<in>set [0..<16]. hex_digit n \<noteq> QUOTE \<and> hex_digit n \<noteq> BACKSLASH \<and> 32 \<le> byte (hex_digit n)"
    by code_simp
  then show "n < 16 \<Longrightarrow> ?thesis" by simp
qed

lemma plain_chars:
  "CHR ''0'' \<noteq> QUOTE" "CHR ''0'' \<noteq> BACKSLASH" "32 \<le> byte (CHR ''0'')" "BACKSLASH \<noteq> QUOTE"
  "CHR ''n'' \<in> set valid_escapes" "CHR ''r'' \<in> set valid_escapes" "CHR ''t'' \<in> set valid_escapes"
  "CHR ''u'' \<in> set valid_escapes" "BACKSLASH \<in> set valid_escapes"
  by (simp_all add: QUOTE_def BACKSLASH_def byte_def valid_escapes_def)

lemma repair_char_ok:
  assumes "c \<noteq> QUOTE" "c \<noteq> BACKSLASH"
  shows "literals_ok True False (repair_char c @ cs) \<longleftrightarrow> literals_ok True False cs"
proof -
  have "byte c < 32 \<Longrightarrow> byte c div 16 < 16 \<and> byte c mod 16 < 16" by auto
  then show ?thesis
    using assms plain_chars hex_digit_plain[of "byte c div 16"] hex_digit_plain[of "byte c mod 16"]
    by (simp add: repair_char_def)
qed

lemma repair_scan_ok:
  "(in_str \<and> esc \<longrightarrow> s \<noteq> [] \<and> hd s \<in> set valid_escapes) \<Longrightarrow> (\<not> in_str \<longrightarrow> \<not> esc) \<Longrightarrow>
   literals_ok in_str esc (repair_scan in_str esc s)"
proof (induction in_str esc s rule: repair_scan.induct)
  case (1 in_str esc)
  then show ?case by auto
next
  case (2 in_str esc c cs)
  show ?case
  proof (cases "in_str \<and> \<not> esc \<and> c \<noteq> BACKSLASH \<and> c \<noteq> QUOTE")
    case True
    then show ?thesis using 2(5) repair_char_ok by simp
  next
    case False
    then show ?thesis using 2 plain_chars(4,9) by (auto simp del: literals_ok.simps(1))
  qed
qed

lemma repair_scan_id:
  "literals_ok in_str esc s \<Longrightarrow> (\<not> in_str \<longrightarrow> \<not> esc) \<Longrightarrow> repair_scan in_str esc s = s"
proof (induction in_str esc s rule: repair_scan.induct)
  case (2 in_str esc c cs)
  have esc_next: "literals_ok True True cs \<Longrightarrow> cs \<noteq> [] \<and> hd cs \<in> set valid_escapes"
    by (cases cs) auto
  show ?case
    using 2 esc_next by (auto simp: repair_char_def split: if_splits)
qed simp

text \<open>Whatever bytes a model sent, the repaired text has only legal
  string literals: no raw control character and no backslash that starts no escape. A text whose
  literals were legal is returned as it is, so repairing twice is repairing once.\<close>

theorem repair_yields_legal_literals:
  "literals_ok False False (repair_json s)
   \<and> (literals_ok False False s \<longrightarrow> repair_json s = s)
   \<and> repair_json (repair_json s) = repair_json s"
  using repair_scan_ok[of False False s] repair_scan_id[of False False]
  by (simp add: repair_json_def)

theorem repair_yields_legal_literals_witness:
  "repair_json [QUOTE, CHR ''a'', QUOTE] = [QUOTE, CHR ''a'', QUOTE]"
  using repair_yields_legal_literals[of "[QUOTE, CHR ''a'', QUOTE]"]
  by (simp add: QUOTE_def BACKSLASH_def byte_def)

definition neutral :: "char \<Rightarrow> bool" where
  "neutral c \<longleftrightarrow> c \<notin> {QUOTE, BACKSLASH, CHR 0x7B, CHR 0x5B, CHR 0x7D, CHR 0x5D}"

lemma neutral_bytes: "byte c \<notin> {34, 92, 123, 91, 125, 93} \<Longrightarrow> neutral c"
  by (auto simp: neutral_def QUOTE_def BACKSLASH_def byte_def)

lemma ws_neutral: "is_ws g \<Longrightarrow> list_all neutral g"
  by (auto simp: is_ws_def is_ascii_ws_def intro!: neutral_bytes split: list.splits)

lemma scan_neutral:
  "list_all neutral t \<Longrightarrow> \<exists>e. foldl scan_step (st, i, esc) t = (st, i, e)"
  by (induction t arbitrary: esc) (auto simp: neutral_def)

lemma trim_end_neutral: "\<exists>junk. s = trim_end s @ junk \<and> list_all neutral junk"
proof -
  let ?u = "rev (uchars s)"
  have "uchars s = rev (dropWhile is_ws ?u) @ rev (takeWhile is_ws ?u)"
    by (metis rev_append rev_rev_ident takeWhile_dropWhile_id)
  then have "s = trim_end s @ concat (rev (takeWhile is_ws ?u))"
    unfolding trim_end_def by (metis concat_append concat_uchars)
  moreover have "list_all neutral (concat (rev (takeWhile is_ws ?u)))"
    using ws_neutral by (fastforce simp: list_all_iff dest: set_takeWhileD)
  ultimately show ?thesis by blast
qed

lemma strip_dangling_neutral: "\<exists>junk. s = strip_dangling s @ junk \<and> list_all neutral junk"
proof (induction s rule: strip_dangling.induct)
  case (1 out)
  obtain junk where j: "out = trim_end out @ junk" "list_all neutral junk"
    using trim_end_neutral by blast
  show ?case
  proof (cases "suffix '','' (trim_end out) \<or> suffix '':'' (trim_end out)")
    case True
    then have ne: "trim_end out \<noteq> []" and l: "last (trim_end out) \<in> {CHR '','', CHR '':''}"
      by (auto simp: suffix_def)
    obtain k where k: "butlast (trim_end out) = strip_dangling (butlast (trim_end out)) @ k" "list_all neutral k"
      using 1[OF refl True] by blast
    have s: "strip_dangling out = strip_dangling (butlast (trim_end out))"
      using True by (subst strip_dangling.simps) (simp add: Let_def)
    have "trim_end out = butlast (trim_end out) @ [last (trim_end out)]" using ne by simp
    then have o: "out = strip_dangling out @ (k @ [last (trim_end out)] @ junk)"
      using j(1) k(1) s by (metis append.assoc)
    have "neutral (last (trim_end out))" using l by (auto simp: neutral_def QUOTE_def BACKSLASH_def)
    then have "list_all neutral (k @ [last (trim_end out)] @ junk)" using j(2) k(2) by simp
    then show ?thesis using o by blast
  next
    case False
    then have "strip_dangling out = trim_end out" by (subst strip_dangling.simps) (simp add: Let_def)
    then show ?thesis using j by metis
  qed
qed

lemma scan_closers:
  "set st \<subseteq> {CHR 0x7D, CHR 0x5D} \<Longrightarrow> foldl scan_step (st, False, e) st = ([], False, e)"
proof (induction st)
  case (Cons c st)
  then show ?case by (auto simp: QUOTE_def)
qed simp



lemma scan_invariant:
  "set st \<subseteq> {CHR 0x7D, CHR 0x5D} \<Longrightarrow>
   (case foldl scan_step (st, i, e) s of (st', _, _) \<Rightarrow> set st' \<subseteq> {CHR 0x7D, CHR 0x5D})"
proof (induction s arbitrary: st i e)
  case (Cons c s)
  obtain st' i' e' where step: "scan_step (st, i, e) c = (st', i', e')" by (cases "scan_step (st, i, e) c")
  have "set st' \<subseteq> {CHR 0x7D, CHR 0x5D}"
    using Cons(2) step by (auto split: if_splits dest: list.set_sel(2))
  then show ?case using Cons(1) by (simp only: foldl.simps step)
qed simp

text \<open>What \<open>close_truncated\<close> makes of a text cut anywhere begins with
  the text less its dangling end and leaves no bracket and no string open, unless the cut left a lone
  backslash at the very end of a string.\<close>

theorem truncated_json_is_closed:
  assumes "\<not> snd (snd (bracket_scan (strip_dangling (trim_end s))))"
  shows "bracket_scan (close_truncated s) = ([], False, False)
    \<and> prefix (strip_dangling (trim_end s)) (close_truncated s)
    \<and> prefix (strip_dangling (trim_end s)) s"
proof -
  let ?core = "strip_dangling (trim_end s)"
  obtain j k where jk: "s = trim_end s @ j" "list_all neutral j"
    "trim_end s = ?core @ k" "list_all neutral k"
    using trim_end_neutral strip_dangling_neutral by blast
  then have s: "s = ?core @ (k @ j)" and n: "list_all neutral (k @ j)" by (metis append.assoc, simp)
  obtain st i where c: "bracket_scan ?core = (st, i, False)"
    using assms by (cases "bracket_scan ?core") auto
  obtain e where e: "bracket_scan s = (st, i, e)"
    using scan_neutral[OF n, of st i False] c s unfolding bracket_scan_def by (metis foldl_append)
  have st: "set st \<subseteq> {CHR 0x7D, CHR 0x5D}"
    using scan_invariant[of "[]" False False ?core] c by (simp add: bracket_scan_def)
  have ct: "close_truncated s = ?core @ (if i then [QUOTE] else []) @ st"
    by (simp add: close_truncated_def e)
  have q: "foldl scan_step (st, i, False) (if i then [QUOTE] else []) = (st, False, False)"
    by (simp add: plain_chars(4)[symmetric])
  have "bracket_scan (close_truncated s) = ([], False, False)"
    unfolding ct using c q scan_closers[OF st] by (simp only: bracket_scan_def foldl_append)
  then show ?thesis using ct s by (metis prefixI)
qed

theorem truncated_json_is_closed_witness:
  "bracket_scan (close_truncated [CHR 0x7B, QUOTE, CHR ''a'', QUOTE, CHR '':'', CHR 0x5B, CHR ''1'', CHR '','', CHR '' ''])
   = ([], False, False)"
proof -
  let ?s = "[CHR 0x7B, QUOTE, CHR ''a'', QUOTE, CHR '':'', CHR 0x5B, CHR ''1'', CHR '','', CHR '' '']"
  have "\<not> snd (snd (bracket_scan (strip_dangling (trim_end ?s))))" by code_simp
  from truncated_json_is_closed[OF this] show ?thesis by simp
qed

text \<open>The dangling end is stripped inside an open string too: a comma the string ends with is lost.\<close>

lemma open_string_loses_comma:
  "close_truncated [CHR ''['', QUOTE, CHR ''x'', CHR '',''] = [CHR ''['', QUOTE, CHR ''x'', QUOTE, CHR '']'']"
  by code_simp

end
