(* ===== verification/Context.thy ===== *)
theory Context
  imports ToolCore
begin

text \<open>
  The context economics, \<open>crates/context\<close>: windows and cuts (\<open>window.rs\<close>), the collapse boundary
  (\<open>collapse.rs\<close>), the compaction checkpoint's estimate, trigger, cut point and payload
  (\<open>compact.rs\<close>), the budgeted assembler (\<open>assemble.rs\<close>) and the file map (\<open>files.rs\<close>). The
  directory tree that \<open>read_dir\<close> walks is an argument, in the order the file system lists it.
\<close>

section \<open>Windows\<close>

definition MIN_WINDOW :: nat where "MIN_WINDOW = 2000"
definition WINDOW_LINES :: nat where "WINDOW_LINES = 100"

definition window_anchored :: "string \<Rightarrow> string \<Rightarrow> nat \<Rightarrow> string" where
  "window_anchored txt anchor cap =
     (let total = char_count txt in
      if total \<le> cap then txt
      else
        (case (if anchor = [] then None else find_str anchor txt) of
           Some pos \<Rightarrow>
             let ahead = char_count (take pos txt);
                 start = ahead - cap div 2;
                 win = take_chars cap (skip_chars start txt);
                 en = start + min cap (total - start)
             in ''...[chars '' @ dec start @ ''..'' @ dec en @ '' of '' @ dec total @ '']...''
                @ newline @ win
         | None \<Rightarrow>
             let half = cap div 2
             in take_chars half txt @ newline @ ''...['' @ dec (total - cap) @ '' chars elided]...''
                @ newline @ skip_chars (total - half) txt))"

definition cut_chars :: "string \<Rightarrow> nat \<Rightarrow> string" where
  "cut_chars txt mx = take_chars mx txt"

section \<open>Collapse boundary\<close>

definition COLLAPSE_KEEP :: nat where "COLLAPSE_KEEP = 5"
definition COLLAPSE_HYSTERESIS :: nat where "COLLAPSE_HYSTERESIS = 0"

definition collapse_boundary :: "nat \<Rightarrow> nat \<Rightarrow> nat \<Rightarrow> nat" where
  "collapse_boundary tool_count keep hysteresis =
     (if hysteresis = 0 then tool_count - keep
      else hysteresis * ((tool_count - keep) div hysteresis))"

section \<open>Compaction\<close>

definition SUMMARY_TOOL_CAP :: nat where "SUMMARY_TOOL_CAP = 2000"

record compaction_config =
  enabled :: bool
  frac :: real
  keep_tokens :: nat

definition default_compaction :: compaction_config where
  "default_compaction = \<lparr>enabled = False, frac = 7 / 10, keep_tokens = 20000\<rparr>"

record usage_anchor =
  ua_messages :: nat
  ua_input_tokens :: u64

record compact_message =
  cm_role :: string
  cm_content :: string

definition chars_to_tokens :: "nat \<Rightarrow> u64" where
  "chars_to_tokens chars = (chars + 3) div 4"

definition estimate_tokens :: "compact_message list \<Rightarrow> usage_anchor option \<Rightarrow> u64" where
  "estimate_tokens ms anchor =
     (case anchor of
        Some a \<Rightarrow>
          if ua_messages a \<le> length ms
          then wrap_add64 (ua_input_tokens a)
                 (chars_to_tokens (\<Sum>m\<leftarrow>drop (ua_messages a) ms. char_count (cm_content m)))
          else chars_to_tokens (\<Sum>m\<leftarrow>ms. char_count (cm_content m))
      | None \<Rightarrow> chars_to_tokens (\<Sum>m\<leftarrow>ms. char_count (cm_content m)))"

definition compaction_due :: "u64 \<Rightarrow> u64 \<Rightarrow> compaction_config \<Rightarrow> bool" where
  "compaction_due estimate budget_tokens cc \<longleftrightarrow>
     enabled cc \<and> real budget_tokens * frac cc < real estimate"

definition message_tokens :: "compact_message \<Rightarrow> u64" where
  "message_tokens m = chars_to_tokens (char_count (cm_content m))"

text \<open>The backward walk of \<open>cut_point\<close> from index \<open>i\<close> down to 1.\<close>

fun find_crossing :: "compact_message list \<Rightarrow> nat \<Rightarrow> nat \<Rightarrow> nat \<Rightarrow> nat option" where
  "find_crossing ms keep acc 0 = None"
| "find_crossing ms keep acc (Suc i) =
     (let acc' = acc + message_tokens (ms ! Suc i) in
      if keep \<le> acc' then Some (Suc i) else find_crossing ms keep acc' i)"

definition cut_valid :: "compact_message list \<Rightarrow> nat \<Rightarrow> bool" where
  "cut_valid ms i \<longleftrightarrow> cm_role (ms ! i) \<noteq> ''tool''"

definition cut_point :: "compact_message list \<Rightarrow> nat \<Rightarrow> nat option" where
  "cut_point ms keep =
     (if length ms < 2 then None
      else
        (case find_crossing ms keep 0 (length ms - 1) of
           None \<Rightarrow> None
         | Some crossing \<Rightarrow>
             (case List.find (cut_valid ms) [crossing..<length ms] of
                Some i \<Rightarrow> Some i
              | None \<Rightarrow> List.find (cut_valid ms) (rev [1..<crossing]))))"

definition truncate_for_summary :: "string \<Rightarrow> string" where
  "truncate_for_summary txt =
     (let total = char_count txt in
      if total \<le> SUMMARY_TOOL_CAP then txt
      else take_chars SUMMARY_TOOL_CAP txt @ newline @ newline @ ''[... '' @ dec (total - SUMMARY_TOOL_CAP)
             @ '' more characters truncated]'')"

definition summary_payload :: "compact_message list \<Rightarrow> string" where
  "summary_payload ms =
     join (newline @ newline)
       (map (\<lambda>m. ''['' @ cm_role m @ '']: ''
               @ (if cm_role m = ''tool'' then truncate_for_summary (cm_content m) else cm_content m)) ms)"

definition SUMMARY_PROMPT :: string where
  "SUMMARY_PROMPT =
     ''Summarize the conversation above as a context checkpoint for an agent that must continue the work. Do not continue the conversation or answer anything in it. Use this exact format:'' @ newline
     @ ''## Goal'' @ newline @ ''[the task being accomplished]'' @ newline
     @ ''## Progress'' @ newline @ ''[done / in progress / blocked, with exact file paths and commands]'' @ newline
     @ ''## Key decisions'' @ newline @ ''[what was decided and why, including errors hit and how they were resolved]'' @ newline
     @ ''## Next steps'' @ newline @ ''[the immediate next action]''"

definition SUMMARY_SYSTEM :: string where
  "SUMMARY_SYSTEM = ''You are a context summarization assistant. Read the conversation and output only the structured summary requested; never continue the conversation and never call a tool.''"

section \<open>The assembler\<close>

record item_key =
  ik_path :: string
  ik_region :: string
  ik_role :: string

datatype fidelity = Exact | Windowed string nat \<comment> \<open>anchor, cap\<close>

record context_item =
  ci_key :: item_key
  ci_fidelity :: fidelity
  ci_must :: bool
  ci_text :: string

record assembler =
  as_budget :: nat
  as_items :: "context_item list"
  as_volatile :: "context_item list"
  as_seen :: "item_key list"

definition new_assembler :: "nat \<Rightarrow> assembler" where
  "new_assembler budget_chars = \<lparr>as_budget = budget_chars, as_items = [], as_volatile = [], as_seen = []\<rparr>"

definition place :: "assembler \<Rightarrow> context_item \<Rightarrow> bool \<Rightarrow> assembler" where
  "place a it volatile =
     (if ci_key it \<in> set (as_seen a) then a
      else
        let a' = a\<lparr>as_seen := ci_key it # as_seen a\<rparr>
        in if volatile then a'\<lparr>as_volatile := as_volatile a @ [it]\<rparr>
           else a'\<lparr>as_items := as_items a @ [it]\<rparr>)"

definition add_item :: "assembler \<Rightarrow> context_item \<Rightarrow> assembler" where
  "add_item a it = place a it False"

definition add_volatile :: "assembler \<Rightarrow> context_item \<Rightarrow> assembler" where
  "add_volatile a it = place a it True"

function shape_window :: "string \<Rightarrow> string \<Rightarrow> nat \<Rightarrow> nat \<Rightarrow> bool \<Rightarrow> string option" where
  "shape_window txt anchor cap remaining must =
     (let w = window_anchored txt anchor cap in
      if char_count w \<le> remaining then Some w
      else if cap \<le> MIN_WINDOW then (if must then Some w else None)
      else shape_window txt anchor (max (cap div 2) MIN_WINDOW) remaining must)"
  by pat_completeness auto
termination
  by (relation "measure (\<lambda>(_, _, cap, _, _). cap)") (auto simp: MIN_WINDOW_def)

declare shape_window.simps [simp del]

definition shape :: "context_item \<Rightarrow> nat \<Rightarrow> string option" where
  "shape it remaining =
     (case ci_fidelity it of
        Exact \<Rightarrow> if char_count (ci_text it) \<le> remaining \<or> ci_must it then Some (ci_text it) else None
      | Windowed anchor cap \<Rightarrow> shape_window (ci_text it) anchor cap remaining (ci_must it))"

text \<open>\<open>fit_list\<close> fills one slot per item and threads the characters used so far.\<close>

fun fit_list :: "nat \<Rightarrow> nat \<Rightarrow> context_item list \<Rightarrow> string option list \<times> nat" where
  "fit_list budget used [] = ([], used)"
| "fit_list budget used (it # its) =
     (case shape it (budget - used) of
        None \<Rightarrow> (let (slots, u) = fit_list budget used its in (None # slots, u))
      | Some txt \<Rightarrow>
          (let (slots, u) = fit_list budget
                 (used + char_count (''--- '' @ ik_path (ci_key it) @ newline @ txt @ newline)) its
           in (Some txt # slots, u)))"

definition sections :: "context_item list \<Rightarrow> string option list \<Rightarrow> string list" where
  "sections its slots =
     concat (map2 (\<lambda>it slot. case slot of None \<Rightarrow> []
                   | Some txt \<Rightarrow> [''--- '' @ ik_path (ci_key it) @ newline @ txt]) its slots)"

definition assemble :: "assembler \<Rightarrow> string" where
  "assemble a =
     (let (stable, used) = fit_list (as_budget a) 0 (as_items a);
          (vol, _) = fit_list (as_budget a) used (as_volatile a)
      in join (newline @ newline) (sections (as_items a) stable @ sections (as_volatile a) vol))"

section \<open>The file map\<close>

definition SKIP_DIRS :: "string list" where
  "SKIP_DIRS = [''target'', ''.git'', ''node_modules'', ''.hg'', ''.svn'', ''baselines'']"

definition FILE_MAP_WALK_CAP :: nat where "FILE_MAP_WALK_CAP = 2000"

text \<open>A directory entry: a directory with its own listing (\<open>None\<close> when it cannot be read), or
  anything else.\<close>

datatype dir_entry = FileEntry string | DirEntry string "dir_entry list option"

fun walk :: "nat \<Rightarrow> string \<Rightarrow> dir_entry list \<Rightarrow> string list"
  and walk_entry :: "nat \<Rightarrow> string \<Rightarrow> dir_entry \<Rightarrow> string list" where
  "walk depth pre [] = []"
| "walk depth pre (e # es) = (if 8 < depth then [] else walk_entry depth pre e @ walk depth pre es)"
| "walk_entry depth pre (FileEntry n) = (if prefix ''.'' n then [] else [pre @ n])"
| "walk_entry depth pre (DirEntry n sub) =
     (if prefix ''.'' n \<or> n \<in> set SKIP_DIRS then []
      else (case sub of None \<Rightarrow> [] | Some es \<Rightarrow> walk (Suc depth) (pre @ n @ ''/'') es))"

definition file_map :: "dir_entry list option \<Rightarrow> nat \<Rightarrow> string list" where
  "file_map listing max_paths =
     take (min max_paths FILE_MAP_WALK_CAP)
       (sort (case listing of None \<Rightarrow> [] | Some es \<Rightarrow> walk 0 [] es))"

definition named_file_contents :: "(string \<Rightarrow> string option) \<Rightarrow> string \<Rightarrow> nat \<Rightarrow> string option" where
  "named_file_contents fs path cap = map_option (\<lambda>c. cut_chars c cap) (fs path)"

section \<open>Lemmas\<close>

lemma find_SomeD: "List.find P xs = Some x \<Longrightarrow> x \<in> set xs \<and> P x"
  by (auto simp: find_Some_iff)

lemma find_crossing_Some:
  "find_crossing ms keep acc i = Some c \<Longrightarrow> 1 \<le> c \<and> c \<le> i
     \<and> keep \<le> acc + (\<Sum>j\<leftarrow>[c..<Suc i]. message_tokens (ms ! j))
     \<and> (c < i \<longrightarrow> acc + (\<Sum>j\<leftarrow>[Suc c..<Suc i]. message_tokens (ms ! j)) < keep)"
proof (induction ms keep acc i rule: find_crossing.induct)
  case (2 ms keep acc i)
  show ?case
  proof (cases "keep \<le> acc + message_tokens (ms ! Suc i)")
    case True
    then show ?thesis using 2(2) by (simp add: Let_def)
  next
    case False
    then have c: "find_crossing ms keep (acc + message_tokens (ms ! Suc i)) i = Some c"
      using 2(2) by (simp add: Let_def)
    note ih = 2(1)[OF refl False c]
    have "[c..<Suc (Suc i)] = [c..<Suc i] @ [Suc i]" using ih by simp
    moreover have "[Suc c..<Suc (Suc i)] = [Suc c..<Suc i] @ [Suc i]" using ih by simp
    moreover have "c = i \<Longrightarrow> [Suc c..<Suc i] = []" by simp
    ultimately show ?thesis using ih False by (cases "c = i") auto
  qed
qed simp

lemma find_crossing_None:
  "find_crossing ms keep acc i = None \<longleftrightarrow>
     i = 0 \<or> acc + (\<Sum>j\<leftarrow>[1..<Suc i]. message_tokens (ms ! j)) < keep"
proof (induction ms keep acc i rule: find_crossing.induct)
  case (2 ms keep acc i)
  have split: "(\<Sum>j\<leftarrow>[1..<Suc (Suc i)]. message_tokens (ms ! j))
      = (\<Sum>j\<leftarrow>[1..<Suc i]. message_tokens (ms ! j)) + message_tokens (ms ! Suc i)"
    by simp
  show ?case
    using 2 unfolding find_crossing.simps Let_def split
    by (cases "keep \<le> acc + message_tokens (ms ! Suc i)"; cases i) auto
qed simp

lemma find_None_upt: "List.find P [a..<b] = None \<longleftrightarrow> (\<forall>i. a \<le> i \<and> i < b \<longrightarrow> \<not> P i)"
  by (auto simp: find_None_iff)

text \<open>The tokens of the messages after index \<open>i\<close>.\<close>

definition tail_tokens :: "compact_message list \<Rightarrow> nat \<Rightarrow> nat" where
  "tail_tokens ms i = (\<Sum>j\<leftarrow>[Suc i..<length ms]. message_tokens (ms ! j))"

lemma tail_tokens_mono: "i \<le> j \<Longrightarrow> tail_tokens ms j \<le> tail_tokens ms i"
proof (induction j rule: dec_induct)
  case (step n)
  have "tail_tokens ms (Suc n) \<le> tail_tokens ms n"
    unfolding tail_tokens_def by (cases "Suc n < length ms") (simp_all add: upt_rec[of "Suc n"])
  then show ?case using step by simp
qed simp

section \<open>Properties\<close>

lemma cut_bounds:
  assumes "cut_point ms keep = Some i"
  shows "1 \<le> i \<and> i < length ms"
proof -
  obtain c where c: "find_crossing ms keep 0 (length ms - 1) = Some c" and len: "2 \<le> length ms"
    and i: "(case List.find (cut_valid ms) [c..<length ms] of Some i \<Rightarrow> Some i
       | None \<Rightarrow> List.find (cut_valid ms) (rev [1..<c])) = Some i"
    using assms by (auto simp: cut_point_def split: if_splits option.splits)
  have "1 \<le> c" "c \<le> length ms - 1" using find_crossing_Some[OF c] by auto
  then show ?thesis
    using i len find_SomeD[of "cut_valid ms" "[c..<length ms]"] find_SomeD[of "cut_valid ms" "rev [1..<c]"]
    by (auto split: option.splits)
qed


definition demo_history :: "compact_message list" where
  "demo_history = [\<lparr>cm_role = ''user'', cm_content = ''goal''\<rparr>, \<lparr>cm_role = ''assistant'', cm_content = ''view(x)''\<rparr>,
     \<lparr>cm_role = ''tool'', cm_content = ''abcdefgh''\<rparr>, \<lparr>cm_role = ''assistant'', cm_content = ''done''\<rparr>]"


text \<open>Of \<open>n\<close> tool results the fold keeps at most \<open>keep + h\<close> verbatim,
  never fewer than \<open>keep\<close> of them once there are that many, exactly \<open>keep\<close> without hysteresis; the
  boundary never moves back as results arrive, and with hysteresis it stands still until a whole
  batch of \<open>h\<close> results can be stubbed at once.\<close>

theorem collapse_window_bounds:
  "collapse_boundary n keep h \<le> n
   \<and> n - collapse_boundary n keep h \<le> keep + h
   \<and> (keep \<le> n \<longrightarrow> keep \<le> n - collapse_boundary n keep h)
   \<and> (h = 0 \<longrightarrow> n - collapse_boundary n keep h = min n keep)
   \<and> (n \<le> n' \<longrightarrow> collapse_boundary n keep h \<le> collapse_boundary n' keep h)
   \<and> (collapse_boundary (Suc n) keep h \<noteq> collapse_boundary n keep h \<longrightarrow>
        collapse_boundary (Suc n) keep h = collapse_boundary n keep h + max h 1)"
proof -
  have mono: "n \<le> n' \<longrightarrow> collapse_boundary n keep h \<le> collapse_boundary n' keep h"
    by (simp add: collapse_boundary_def div_le_mono diff_le_mono)
  have b: "h \<noteq> 0 \<Longrightarrow> h * ((n - keep) div h) \<le> n - keep \<and> n - keep < h * ((n - keep) div h) + h"
    using mult_div_mod_eq[of h "n - keep"] mod_less_divisor[of h "n - keep"] by linarith
  have "h \<noteq> 0 \<Longrightarrow> Suc m div h \<noteq> m div h \<Longrightarrow> Suc m div h = Suc (m div h)" for m
    by (simp add: div_Suc split: if_splits)
  then have step: "h \<noteq> 0 \<Longrightarrow> (Suc n - keep) div h \<noteq> (n - keep) div h \<Longrightarrow>
      (Suc n - keep) div h = Suc ((n - keep) div h)"
    by (cases "keep \<le> n") (simp_all add: Suc_diff_le)
  have s: "collapse_boundary (Suc n) keep h \<noteq> collapse_boundary n keep h \<longrightarrow>
        collapse_boundary (Suc n) keep h = collapse_boundary n keep h + max h 1"
    using step by (cases "h = 0") (auto simp: collapse_boundary_def)
  define B where "B = collapse_boundary n keep h"
  have B: "B \<le> n - keep" "n - keep \<le> B + h" "h = 0 \<longrightarrow> B = n - keep"
    using b by (cases "h = 0"; simp add: B_def collapse_boundary_def)+
  have "B \<le> n" "n - B \<le> keep + h" "keep \<le> n \<longrightarrow> keep \<le> n - B" "h = 0 \<longrightarrow> n - B = min n keep"
    using B by auto
  then show ?thesis using mono s unfolding B_def by blast
qed

theorem collapse_window_bounds_witness: "collapse_boundary 7 5 0 \<le> collapse_boundary 9 5 0"
  using collapse_window_bounds[of 7 5 0 9] by simp

lemma str_contains_app [text_simps]:
  "str_contains a x \<Longrightarrow> str_contains (a @ b) x" "str_contains b x \<Longrightarrow> str_contains (a @ b) x"
  unfolding str_contains_iff by (metis append.assoc)+

lemma join_contains: "x \<in> set xs \<Longrightarrow> str_contains (join sep xs) x"
  by (induction sep xs rule: join.induct) (auto intro: str_contains_app)

definition section_of :: "context_item \<Rightarrow> string \<Rightarrow> string" where
  "section_of it txt = ''--- '' @ ik_path (ci_key it) @ newline @ txt"

lemma sections_Cons: "sections (it # its) (s # ss) =
  (case s of None \<Rightarrow> [] | Some txt \<Rightarrow> [section_of it txt]) @ sections its ss"
  by (simp add: sections_def section_of_def split: option.splits)

lemma must_is_shaped:
  "ci_must it \<Longrightarrow> \<exists>txt. shape it r = Some txt \<and> (ci_fidelity it = Exact \<longrightarrow> txt = ci_text it)"
proof -
  assume m: "ci_must it"
  have "\<exists>w. shape_window t a cap r True = Some w" for t a cap
  proof (induction t a cap r True rule: shape_window.induct)
    case (1 t a cap r)
    show ?case
      by (subst shape_window.simps) (use 1 in \<open>auto simp: Let_def\<close>)
  qed
  then show ?thesis using m by (auto simp: shape_def split: fidelity.splits)
qed

lemma fit_list_must:
  "it \<in> set its \<Longrightarrow> ci_must it \<Longrightarrow>
     \<exists>txt. section_of it txt \<in> set (sections its (fst (fit_list b u its)))
       \<and> (ci_fidelity it = Exact \<longrightarrow> txt = ci_text it)"
proof (induction b u its rule: fit_list.induct)
  case (2 b u x its)
  show ?case
  proof (cases "shape x (b - u)")
    case None
    then have "it \<noteq> x" using must_is_shaped[of it "b - u"] 2(4) by auto
    then have "it \<in> set its" using 2(3) by simp
    then show ?thesis using 2(1)[OF None _ 2(4)] None
      by (auto simp: sections_Cons case_prod_beta Let_def)
  next
    case (Some w)
    show ?thesis
    proof (cases "it = x")
      case True
      have "ci_fidelity x = Exact \<longrightarrow> w = ci_text x"
        using must_is_shaped[of x "b - u"] 2(4) Some True by auto
      then show ?thesis using Some True by (auto simp: sections_Cons case_prod_beta Let_def)
    next
      case False
      then have "it \<in> set its" using 2(3) by simp
      then show ?thesis using 2(2)[OF Some _ 2(4)] Some
        by (auto simp: sections_Cons case_prod_beta Let_def)
    qed
  qed
qed simp

lemma assemble_contains_must:
  assumes "it \<in> set (as_items a) \<union> set (as_volatile a)" "ci_must it"
  shows "\<exists>txt. str_contains (assemble a) (section_of it txt) \<and> (ci_fidelity it = Exact \<longrightarrow> txt = ci_text it)"
proof -
  obtain s u where s: "fit_list (as_budget a) 0 (as_items a) = (s, u)" by fastforce
  obtain v w where v: "fit_list (as_budget a) u (as_volatile a) = (v, w)" by fastforce
  have "\<exists>txt. section_of it txt \<in> set (sections (as_items a) s @ sections (as_volatile a) v)
      \<and> (ci_fidelity it = Exact \<longrightarrow> txt = ci_text it)"
    using assms fit_list_must[of it "as_items a" "as_budget a" 0] fit_list_must[of it "as_volatile a" "as_budget a" u]
    by (auto simp: s v)
  then show ?thesis using join_contains by (fastforce simp: assemble_def s v)
qed

text \<open>Adding a list of items, each with its layer.\<close>

definition add_all :: "assembler \<Rightarrow> (context_item \<times> bool) list \<Rightarrow> assembler" where
  "add_all = foldl (\<lambda>a (it, vol). place a it vol)"

lemma place_keeps: "x \<in> set (as_items a) \<union> set (as_volatile a) \<Longrightarrow>
   x \<in> set (as_items (place a it vol)) \<union> set (as_volatile (place a it vol))"
  by (auto simp: place_def Let_def)

lemma add_all_keeps: "x \<in> set (as_items a) \<union> set (as_volatile a) \<Longrightarrow>
   x \<in> set (as_items (add_all a its)) \<union> set (as_volatile (add_all a its))"
  using place_keeps by (induction its arbitrary: a) (auto simp: add_all_def case_prod_beta)

lemma add_all_seen: "ci_key x \<notin> set (as_seen a) \<Longrightarrow>
   ci_key x \<notin> (\<lambda>(it, _). ci_key it) ` set before \<Longrightarrow> ci_key x \<notin> set (as_seen (add_all a before))"
  by (induction before arbitrary: a) (auto simp: add_all_def place_def Let_def)



end
