(* ===== verification/LoopState.thy ===== *)
theory LoopState
  imports Budget Bets Log Provider Context
begin

text \<open>
  The shared turn and step state of the agent loop: \<open>crates/agent-loop/src/state.rs\<close> with the effect
  gate of \<open>gate.rs\<close> and the configuration records of \<open>run.rs\<close>. One definition per method, in the
  order of the code. A clock reading is an argument \<open>now\<close>: one per call, for \<open>Instant::now\<close> and
  \<open>SystemTime::now\<close> alike. Cancellation tokens carry no state of their own here: the occupied
  single-flight slot is the turn it belongs to. Counters of 32 bits wrap where the code adds with
  \<open>+\<close>; turns, emit ids and sequence numbers of 64 bits count allocated rows and frames and are
  naturals.
\<close>

section \<open>Effect gate\<close>

datatype gate_status = GateOpen | GateAborting | GateClosed

datatype gate_error = AbortRequested | ClosedError string

record effect_gate =
  gate_status :: gate_status
  closed_err :: string

definition new_gate :: effect_gate where
  "new_gate = \<lparr>gate_status = GateOpen, closed_err = []\<rparr>"

definition gate_is_open :: "effect_gate \<Rightarrow> bool" where
  "gate_is_open g \<longleftrightarrow> gate_status g = GateOpen"

definition gate_admit :: "effect_gate \<Rightarrow> gate_error + unit" where
  "gate_admit g =
     (case gate_status g of
        GateOpen \<Rightarrow> Inr ()
      | GateAborting \<Rightarrow> Inl AbortRequested
      | GateClosed \<Rightarrow> Inl (ClosedError (closed_err g)))"

definition begin_abort :: "effect_gate \<Rightarrow> effect_gate" where
  "begin_abort g = (if gate_status g = GateOpen then g\<lparr>gate_status := GateAborting\<rparr> else g)"

definition gate_close :: "effect_gate \<Rightarrow> string \<Rightarrow> effect_gate" where
  "gate_close g err = g\<lparr>gate_status := GateClosed, closed_err := err\<rparr>"

section \<open>Configuration\<close>

datatype budget_shape = Gross | MissPlusOut

definition parse_budget_shape :: "string \<Rightarrow> string + budget_shape" where
  "parse_budget_shape s =
     (if s = ''gross'' then Inr Gross
      else if s = ''miss-plus-out'' \<or> s = ''miss_plus_out'' then Inr MissPlusOut
      else Inl (''unknown budget shape '' @ debug_str s @ '': expected gross or miss-plus-out''))"

text \<open>The levels of the incentive scaffold, in increasing order.\<close>

datatype incentives_level = BaseLevel | ContractLevel | FullLevel

text \<open>The derived order is the order of declaration.\<close>

definition level_rank :: "incentives_level \<Rightarrow> nat" where
  "level_rank l = (case l of BaseLevel \<Rightarrow> 0 | ContractLevel \<Rightarrow> 1 | FullLevel \<Rightarrow> 2)"

instantiation incentives_level :: linorder
begin

definition less_eq_incentives_level :: "incentives_level \<Rightarrow> incentives_level \<Rightarrow> bool" where
  "less_eq_incentives_level a b \<longleftrightarrow> level_rank a \<le> level_rank b"

definition less_incentives_level :: "incentives_level \<Rightarrow> incentives_level \<Rightarrow> bool" where
  "less_incentives_level a b \<longleftrightarrow> level_rank a < level_rank b"

instance
  by intro_classes
    (auto simp: less_eq_incentives_level_def less_incentives_level_def level_rank_def split: incentives_level.splits)

end

lemmas level_order = less_eq_incentives_level_def less_incentives_level_def level_rank_def

definition THINKING_KEEP :: nat where "THINKING_KEEP = 2"
definition STEP_RETRY_BUDGET :: u32 where "STEP_RETRY_BUDGET = 2"

record run_config =
  rc_goal :: string
  rc_model :: string
  rc_max_tokens :: usize
  rc_context_budget :: usize
  rc_context_files :: "string list"
  rc_drain_timeout :: nat
  rc_log_path :: "string option"
  rc_incentives :: incentives_level
  rc_proof_cmd :: "string option"
  rc_compaction :: compaction_config
  rc_thinking_keep :: usize
  rc_hysteresis :: usize
  rc_shape :: budget_shape

definition default_run_config :: run_config where
  "default_run_config =
     \<lparr>rc_goal = ''run'', rc_model = ''run-model'', rc_max_tokens = 2000, rc_context_budget = 24000,
      rc_context_files = [], rc_drain_timeout = nanos 30, rc_log_path = None,
      rc_incentives = FullLevel, rc_proof_cmd = None, rc_compaction = default_compaction,
      rc_thinking_keep = THINKING_KEEP, rc_hysteresis = COLLAPSE_HYSTERESIS, rc_shape = Gross\<rparr>"

section \<open>Vocabulary\<close>

datatype phase = Idle | Running | Maintenance

datatype failure_kind = FailLog | FailSnapshot | FailProvider | FailInput

datatype outcome = Done | Halted string | Cancelled | Failed failure_kind string

datatype phase_verdict = Return outcome | Break | Continue

datatype input = InUser string | InCrash string | InStopHard | InStopWhenIdle

record queued_input =
  q_text :: string
  q_source :: input_source

definition queued :: "string \<Rightarrow> queued_input" where
  "queued s = \<lparr>q_text = s, q_source = External\<rparr>"

datatype provider_msg =
    PmPartial u64 string
  | PmSettled u64 assistant_message stop_reason "usage option"
  | PmFailed u64 string bool "usage option" \<comment> \<open>turn, error, cancelled, usage\<close>

fun msg_turn :: "provider_msg \<Rightarrow> u64" where
  "msg_turn (PmPartial t _) = t"
| "msg_turn (PmSettled t _ _ _) = t"
| "msg_turn (PmFailed t _ _ _) = t"

record tool_msg =
  tm_call_id :: string
  tm_result :: tool_result

datatype claim_outcome =
    ClDispatch "tool_call list"
  | ClTruncated nat
  | ClDone
  | ClVerifyHold
  | ClRefused
  | ClHardExit string

record call_state =
  cs_name :: string
  cs_args :: string
  cs_verification :: bool
  cs_result :: "tool_result option"

record checkpoint_state =
  cp_keep_from :: usize
  cp_summary :: string

record verify_state =
  vs_nudges_used :: u32
  vs_edits_at_last_nudge :: u32
  vs_verified_since_write :: bool
  vs_hold :: "string option"

definition default_verify :: verify_state where
  "default_verify = \<lparr>vs_nudges_used = 0, vs_edits_at_last_nudge = 0, vs_verified_since_write = False, vs_hold = None\<rparr>"

record experiment_state =
  ablation :: ablation_metrics
  half_directive_sent :: bool
  late_directive_sent :: bool

definition default_experiment :: experiment_state where
  "default_experiment = \<lparr>ablation = zero_metrics, half_directive_sent = False, late_directive_sent = False\<rparr>"

text \<open>The code of other crates the loop calls without owning its text: \<open>serde_json\<close> on assistant
  messages and argument values, the hash of an observation and the \<open>Debug\<close> form of an error.\<close>

record lib =
  enc_msg :: "assistant_message \<Rightarrow> string + json"
  dec_msg :: "json \<Rightarrow> string + assistant_message"
  json_text :: "json \<Rightarrow> string"
  obs_hash :: "string \<Rightarrow> u64"
  debug_error :: "llm_error \<Rightarrow> string"

record loop_state =
  ls_turn :: u64
  ls_step :: u32
  ls_phase :: phase
  ls_items :: "item list"
  ls_file_map :: "string option"
  ls_pins :: "(string \<times> string) list option"
  ls_steering :: "queued_input list"
  ls_followups :: "string list"
  ls_wake :: bool
  ls_call_model :: bool
  ls_in_flight :: "u64 option"
  ls_calls :: "(string \<times> call_state) list"
  ls_gate :: effect_gate
  ls_stop_hard :: bool
  ls_stop_when_idle :: bool
  ls_turn_reason :: "turn_end_reason option"
  ls_budget :: budget_guard
  ls_shape :: budget_shape
  ls_totals :: usage_report
  ls_emit_next :: u64
  ls_open_msg :: "u64 option"
  ls_retries :: u32
  ls_fatal :: "string option"
  ls_last_sig :: string
  ls_last_obs :: u64
  ls_directives :: "string list"
  ls_edits :: u32
  ls_verify :: verify_state
  ls_experiment :: experiment_state
  ls_drain_until :: "nat option"
  ls_checkpoint :: "checkpoint_state option"
  ls_anchor :: "usage_anchor option"
  ls_compacted :: "u64 option"

definition new_state :: "nat \<Rightarrow> loop_state" where
  "new_state now =
     \<lparr>ls_turn = 0, ls_step = 0, ls_phase = Idle, ls_items = [], ls_file_map = None, ls_pins = None,
      ls_steering = [], ls_followups = [], ls_wake = False, ls_call_model = False,
      ls_in_flight = None, ls_calls = [], ls_gate = new_gate, ls_stop_hard = False,
      ls_stop_when_idle = False, ls_turn_reason = None,
      ls_budget = new_guard (config_for UnattendedBatch) now, ls_shape = Gross,
      ls_totals = default_usage_report, ls_emit_next = 0, ls_open_msg = None,
      ls_retries = STEP_RETRY_BUDGET, ls_fatal = None, ls_last_sig = [], ls_last_obs = 0,
      ls_directives = [], ls_edits = 0, ls_verify = default_verify,
      ls_experiment = default_experiment, ls_drain_until = None, ls_checkpoint = None,
      ls_anchor = None, ls_compacted = None\<rparr>"

section \<open>Items\<close>

definition turn_id :: "u64 \<Rightarrow> string" where "turn_id t = ''turn-'' @ dec t"

definition append_to :: "item list \<Rightarrow> nat \<Rightarrow> item_kind \<Rightarrow> item list" where
  "append_to items now k =
     (let s = length items + 1
      in items @ [\<lparr>seq = s, item_id = ''item-'' @ dec s, parent_id = None, recorded_at = now, kind = k\<rparr>])"

definition push_item :: "loop_state \<Rightarrow> nat \<Rightarrow> item_kind \<Rightarrow> loop_state" where
  "push_item st now k = st\<lparr>ls_items := append_to (ls_items st) now k\<rparr>"

section \<open>Turns, inputs and the step head\<close>

definition open_tools :: "loop_state \<Rightarrow> nat" where
  "open_tools st = length (filter (\<lambda>(_, c). cs_result c = None) (ls_calls st))"

definition batch_complete :: "loop_state \<Rightarrow> bool" where
  "batch_complete st \<longleftrightarrow> ls_calls st \<noteq> [] \<and> open_tools st = 0"

definition should_call_model :: "loop_state \<Rightarrow> bool" where
  "should_call_model st \<longleftrightarrow>
     gate_is_open (ls_gate st) \<and> \<not> ls_stop_hard st
     \<and> (ls_call_model st
        \<or> ls_steering st \<noteq> [] \<and> ls_in_flight st = None \<and> open_tools st = 0)"

definition is_idle :: "loop_state \<Rightarrow> bool" where
  "is_idle st \<longleftrightarrow> ls_in_flight st = None \<and> open_tools st = 0 \<and> ls_steering st = [] \<and> ls_followups st = []"

definition open_turn :: "loop_state \<Rightarrow> nat \<Rightarrow> loop_state" where
  "open_turn st now =
     (let t = ls_turn st + 1;
          prev = if 1 < t then Some (turn_id (t - 1)) else None
      in push_item (st\<lparr>ls_turn := t, ls_phase := Running\<rparr>) now (ITurnStart (turn_id t) prev))"

definition enqueue :: "loop_state \<Rightarrow> nat \<Rightarrow> queued_input \<Rightarrow> loop_state" where
  "enqueue st now q =
     (case ls_phase st of
        Idle \<Rightarrow> (let st' = open_turn st now in st'\<lparr>ls_steering := ls_steering st' @ [q]\<rparr>)
      | Running \<Rightarrow> st\<lparr>ls_steering := ls_steering st @ [q]\<rparr>
      | Maintenance \<Rightarrow> st\<lparr>ls_steering := ls_steering st @ [q], ls_wake := True\<rparr>)"

definition apply_input :: "loop_state \<Rightarrow> nat \<Rightarrow> input \<Rightarrow> loop_state" where
  "apply_input st now inp =
     (case inp of
        InUser s \<Rightarrow> enqueue st now \<lparr>q_text = s, q_source = External\<rparr>
      | InCrash s \<Rightarrow> enqueue st now \<lparr>q_text = s, q_source = Crash\<rparr>
      | InStopHard \<Rightarrow> st\<lparr>ls_stop_hard := True, ls_gate := begin_abort (ls_gate st)\<rparr>
      | InStopWhenIdle \<Rightarrow> st\<lparr>ls_stop_when_idle := True\<rparr>)"

fun admit_queue :: "item list \<Rightarrow> nat \<Rightarrow> u64 \<Rightarrow> nat \<Rightarrow> queued_input list \<Rightarrow> item list" where
  "admit_queue items now t n [] = items"
| "admit_queue items now t n (q # qs) =
     admit_queue (append_to items now (IInput (''input-'' @ dec t @ ''-'' @ dec n) (q_text q) (q_source q)))
       now t (Suc n) qs"

definition admit_steering :: "loop_state \<Rightarrow> nat \<Rightarrow> loop_state" where
  "admit_steering st now =
     (let st' = st\<lparr>ls_items := admit_queue (ls_items st) now (ls_turn st) 0 (ls_steering st), ls_steering := []\<rparr>
      in if ls_wake st' \<and> ls_phase st' = Idle then open_turn (st'\<lparr>ls_wake := False\<rparr>) now else st')"

text \<open>\<open>True\<close> when the call was admitted.\<close>

definition start_provider_call :: "loop_state \<Rightarrow> nat \<Rightarrow> bool \<times> loop_state" where
  "start_provider_call st now =
     (if ls_in_flight st \<noteq> None \<or> gate_admit (ls_gate st) \<noteq> Inr () then (False, st)
      else
        (case may_step (ls_budget st) now of
           (Inl _, g) \<Rightarrow> (False, st\<lparr>ls_budget := g\<rparr>)
         | (Inr _, g) \<Rightarrow>
             (True, st\<lparr>ls_in_flight := Some (ls_turn st),
                       ls_step := wrap_add32 (ls_step st) 1,
                       ls_budget := record_step g,
                       ls_retries := (if \<not> ls_call_model st then STEP_RETRY_BUDGET else ls_retries st),
                       ls_call_model := False,
                       ls_calls := filter (\<lambda>(_, c). cs_result c = None) (ls_calls st)\<rparr>)))"

section \<open>Settling provider traffic\<close>

definition charged_tokens :: "budget_shape \<Rightarrow> usage \<Rightarrow> u64" where
  "charged_tokens sh u =
     (case sh of
        Gross \<Rightarrow> total_tokens u
      | MissPlusOut \<Rightarrow> wrap_add64 (u_input u - u_cache_read u) (u_output u))"

text \<open>\<open>(cost * 100.0).round().max(0.0) as u64\<close>\<close>

definition cents :: "real \<Rightarrow> u64" where
  "cents c = min (nat \<lfloor>c * 100 + 1 / 2\<rfloor>) U64_MAX"

definition add_totals :: "usage_report \<Rightarrow> usage \<Rightarrow> usage_report" where
  "add_totals t u =
     \<lparr>input_tokens = sat_add64 (input_tokens t) (u_input u),
      output_tokens = sat_add64 (output_tokens t) (u_output u),
      cache_read_tokens = sat_add64 (cache_read_tokens t) (u_cache_read u),
      reasoning_tokens = plus_option sat_add64 0 (reasoning_tokens t) (u_reasoning u),
      cost_usd = plus_option (+) 0 (cost_usd t) (u_cost u)\<rparr>"

definition record_usage :: "loop_state \<Rightarrow> usage \<Rightarrow> loop_state" where
  "record_usage st u =
     (let g = record_tokens (ls_budget st) (charged_tokens (ls_shape st) u)
      in st\<lparr>ls_budget := (case u_cost u of Some c \<Rightarrow> record_spend_cents g (cents c) | None \<Rightarrow> g),
            ls_totals := add_totals (ls_totals st) u\<rparr>)"

definition meter :: "loop_state \<Rightarrow> usage option \<Rightarrow> loop_state" where
  "meter st u = (case u of Some x \<Rightarrow> record_usage st x | None \<Rightarrow> st)"

definition finish_provider_msg :: "loop_state \<Rightarrow> nat \<Rightarrow> provider_msg \<Rightarrow> bool \<times> loop_state" where
  "finish_provider_msg st now msg =
     (if msg_turn msg \<noteq> ls_turn st then (False, st)
      else
        let st = st\<lparr>ls_in_flight := None\<rparr> in
        (case msg of
           PmPartial _ _ \<Rightarrow> (True, st)
         | PmSettled _ _ _ u \<Rightarrow> (True, meter st u)
         | PmFailed _ err cancelled u \<Rightarrow>
             let st = meter st u in
             if cancelled then (True, st\<lparr>ls_budget := refund_step (ls_budget st)\<rparr>)
             else
               let retry = 0 < ls_retries st;
                   st = push_item (st\<lparr>ls_retries := ls_retries st - 1\<rparr>) now (IAttempt err retry)
               in if retry then (True, st\<lparr>ls_call_model := True\<rparr>)
                  else (True, st\<lparr>ls_fatal := Some err, ls_gate := gate_close (ls_gate st) err\<rparr>)))"

definition stick_turn_reason :: "loop_state \<Rightarrow> turn_end_reason \<Rightarrow> loop_state" where
  "stick_turn_reason st r = (if ls_turn_reason st = None then st\<lparr>ls_turn_reason := Some r\<rparr> else st)"

section \<open>Crash repair\<close>

fun repair_open :: "loop_state \<Rightarrow> nat \<Rightarrow> string \<Rightarrow> string list \<Rightarrow> nat \<times> loop_state" where
  "repair_open st now reason [] = (0, st)"
| "repair_open st now reason (cid # cids) =
     (let content = ''unanswered tool call ('' @ reason @ '')'';
          st1 = push_item st now (IToolResult cid content True (Some ToolOutcomeUnknown));
          (n, st2) =
            (case map_of (ls_calls st1) cid of
               Some c \<Rightarrow> (1, st1\<lparr>ls_calls := AList.update cid
                  (c\<lparr>cs_result := Some \<lparr>content = content, is_error = True\<rparr>\<rparr>) (ls_calls st1)\<rparr>)
             | None \<Rightarrow> (0, st1));
          (m, st3) = repair_open st2 now reason cids
      in (n + m, st3))"

definition crash_repair :: "loop_state \<Rightarrow> nat \<Rightarrow> string \<Rightarrow> nat \<times> loop_state" where
  "crash_repair st now reason =
     repair_open st now reason (map fst (filter (\<lambda>(_, c). cs_result c = None) (ls_calls st)))"

section \<open>Termination\<close>

text \<open>The verdict rules of \<open>terminate\<close>, top-down, first match wins.\<close>

definition hop_turn :: "loop_state \<Rightarrow> nat \<Rightarrow> string \<Rightarrow> string list \<Rightarrow> loop_state" where
  "hop_turn st now goal rest =
     (let reason = (case ls_turn_reason st of Some r \<Rightarrow> r | None \<Rightarrow> Completed);
          st1 = push_item (st\<lparr>ls_followups := rest, ls_turn_reason := None\<rparr>) now
                  (ITurnEnd (turn_id (ls_turn st)) reason);
          st2 = open_turn st1 now
      in st2\<lparr>ls_steering := ls_steering st2 @ [queued goal]\<rparr>)"

definition drained :: "loop_state \<Rightarrow> bool" where
  "drained st \<longleftrightarrow> ls_in_flight st = None \<and> open_tools st = 0"

definition park :: "loop_state \<Rightarrow> nat \<Rightarrow> phase_verdict \<times> loop_state" where
  "park st now =
     (if drained st \<and> ls_steering st = [] then
        (case ls_followups st of
           goal # rest \<Rightarrow> (Continue, hop_turn st now goal rest)
         | [] \<Rightarrow> if ls_stop_when_idle st then (Return Done, st) else (Continue, st\<lparr>ls_phase := Idle\<rparr>))
      else (Continue, st))"

definition drain_stop :: "loop_state \<Rightarrow> run_config \<Rightarrow> nat \<Rightarrow> phase_verdict \<times> loop_state" where
  "drain_stop st cfg now =
     (let deadline = (case ls_drain_until st of Some u \<Rightarrow> u | None \<Rightarrow> now + rc_drain_timeout cfg);
          st = st\<lparr>ls_drain_until := Some deadline\<rparr>
      in if \<not> drained st \<and> now < deadline then (Break, st) else (Return Cancelled, st))"

definition terminate :: "loop_state \<Rightarrow> run_config \<Rightarrow> nat \<Rightarrow> phase_verdict \<times> loop_state" where
  "terminate st cfg now =
     (if ls_stop_hard st then drain_stop st cfg now
      else
        (case ls_fatal st of Some err \<Rightarrow> (Return (Failed FailProvider err), st)
         | None \<Rightarrow>
        (case exceeded (ls_budget st) now of Some e \<Rightarrow> (Return (Halted (halt_name (be_halt e))), st)
         | None \<Rightarrow>
        (case ls_turn_reason st of
           Some (ErrorReason reason) \<Rightarrow> (Return (Failed FailProvider reason), st)
         | _ \<Rightarrow>
             if ls_turn_reason st = Some MaxTokensReason \<and> drained st
             then (Return (Halted ''max-tokens''), st)
             else if ls_call_model st then (Continue, st)
             else park st now))))"

definition turn_end_reason_to_event :: "turn_end_reason \<Rightarrow> ev_turn_end_reason" where
  "turn_end_reason_to_event r =
     (case r of
        Completed \<Rightarrow> EvCompleted
      | ErrorReason _ \<Rightarrow> EvError
      | Interrupted \<Rightarrow> EvAborted
      | BudgetReason \<Rightarrow> EvBudgetExceeded
      | MaxTokensReason \<Rightarrow> EvMaxSteps)"

definition outcome_log_reason :: "outcome \<Rightarrow> turn_end_reason option \<Rightarrow> turn_end_reason" where
  "outcome_log_reason oc sticky =
     (case sticky of
        Some r \<Rightarrow> r
      | None \<Rightarrow>
          (case oc of
             Done \<Rightarrow> Completed
           | Halted s \<Rightarrow> if s = ''max-tokens'' then MaxTokensReason else BudgetReason
           | Cancelled \<Rightarrow> Interrupted
           | Failed _ message \<Rightarrow> ErrorReason message))"

end
