(* ===== verification/Claims.thy ===== *)
theory Claims
  imports LoopState
begin

text \<open>
  What the loop does with a settled message and with tool results: the action counters, directives
  and the budget nudge of \<open>crates/agent-loop/src/budget_nudge.rs\<close>, and the claim step, the
  verification nudge and the recording of results of \<open>verify.rs\<close>.
\<close>

section \<open>Action counters and directives\<close>

definition DIRECTIVE_CAP :: nat where "DIRECTIVE_CAP = 3"

definition update_counters ::
  "loop_state \<Rightarrow> (budget_counters \<Rightarrow> budget_counters) \<Rightarrow> loop_state" where
  "update_counters st f = st\<lparr>ls_budget := (ls_budget st)\<lparr>counters := f (counters (ls_budget st))\<rparr>\<rparr>"

definition observe_action :: "lib \<Rightarrow> loop_state \<Rightarrow> string \<Rightarrow> string \<Rightarrow> budget_halt option \<times> loop_state" where
  "observe_action l st sig observation =
     (let obs = obs_hash l observation;
          cfg = config (ls_budget st);
          same = (sig = ls_last_sig st \<and> obs = ls_last_obs st);
          st1 = update_counters st (\<lambda>c. c\<lparr>
                  same_action_streak := (if same then wrap_add32 (same_action_streak c) 1 else 0),
                  actions_this_trial := wrap_add32 (actions_this_trial c) 1\<rparr>);
          st2 = (if same then st1 else st1\<lparr>ls_last_sig := sig, ls_last_obs := obs\<rparr>);
          c = counters (ls_budget st2)
      in (if 0 < actions_per_trial cfg \<and> actions_per_trial cfg \<le> actions_this_trial c then Some HTrialActions
          else if 0 < same_action_cycles cfg \<and> same_action_cycles cfg \<le> same_action_streak c
            then Some HSameAction
          else None, st2))"

definition push_directive :: "loop_state \<Rightarrow> string \<Rightarrow> run_config \<Rightarrow> loop_state" where
  "push_directive st d cfg =
     (if rc_incentives cfg < FullLevel then st
      else
        let ds = (if DIRECTIVE_CAP \<le> length (ls_directives st) then drop 1 (ls_directives st)
                  else ls_directives st)
        in st\<lparr>ls_directives := ds @ [d]\<rparr>)"

definition half_text :: "u32 \<Rightarrow> string" where
  "half_text actions = ''0 edits so far after '' @ dec actions
     @ '' actions. Stop reading. Apply your first edit with the edit tool NOW.''"

definition late_text :: "u32 \<Rightarrow> string" where
  "late_text left = ''only '' @ dec left
     @ '' actions remain before the run is stopped. Finish and submit your patch now.''"

definition queue_directives :: "loop_state \<Rightarrow> run_config \<Rightarrow> loop_state" where
  "queue_directives st cfg =
     (let cap = actions_per_trial (config (ls_budget st));
          actions = actions_this_trial (counters (ls_budget st))
      in if cap = 0 then st
         else
           let st1 = (if \<not> half_directive_sent (ls_experiment st) \<and> cap div 2 \<le> actions \<and> ls_edits st = 0
                      then push_directive
                             (st\<lparr>ls_experiment := (ls_experiment st)\<lparr>half_directive_sent := True\<rparr>\<rparr>)
                             (half_text actions) cfg
                      else st)
           in if \<not> late_directive_sent (ls_experiment st1) \<and> wrap_mul32 cap 4 div 5 \<le> actions
              then push_directive
                     (st1\<lparr>ls_experiment := (ls_experiment st1)\<lparr>late_directive_sent := True\<rparr>\<rparr>)
                     (late_text (wrap_sub32 cap actions)) cfg
              else st1)"

fun is_tool_result :: "item \<Rightarrow> bool" where
  "is_tool_result it = (case kind it of IToolResult _ _ _ _ \<Rightarrow> True | _ \<Rightarrow> False)"

definition has_tool_tail :: "loop_state \<Rightarrow> bool" where
  "has_tool_tail st \<longleftrightarrow> list_ex is_tool_result (ls_items st)"

definition extend_result :: "string \<Rightarrow> item \<Rightarrow> item" where
  "extend_result s it =
     (case kind it of
        IToolResult cid body e r \<Rightarrow> it\<lparr>kind := IToolResult cid (body @ newline @ s) e r\<rparr>
      | _ \<Rightarrow> it)"

text \<open>The newest tool result, seen from the end of the rows.\<close>

fun extend_first :: "string \<Rightarrow> item list \<Rightarrow> item list" where
  "extend_first s [] = []"
| "extend_first s (it # its) =
     (if is_tool_result it then extend_result s it # its else it # extend_first s its)"

definition append_to_tail :: "loop_state \<Rightarrow> string \<Rightarrow> loop_state" where
  "append_to_tail st s = st\<lparr>ls_items := rev (extend_first s (rev (ls_items st)))\<rparr>"

definition deliver_directives :: "loop_state \<Rightarrow> nat \<times> loop_state" where
  "deliver_directives st =
     (if \<not> has_tool_tail st then (0, st)
      else (length (ls_directives st),
            (foldl append_to_tail st (ls_directives st))\<lparr>ls_directives := []\<rparr>))"

definition next_emit_id :: "loop_state \<Rightarrow> u64 \<times> loop_state" where
  "next_emit_id st = (ls_emit_next st, st\<lparr>ls_emit_next := ls_emit_next st + 1\<rparr>)"

definition apply_budget_nudge :: "loop_state \<Rightarrow> nat \<Rightarrow> string option \<times> loop_state" where
  "apply_budget_nudge st now =
     (if \<not> has_tool_tail st then (None, st)
      else
        (case nudge_due (ls_budget st) now of
           (None, g) \<Rightarrow> (None, st\<lparr>ls_budget := g\<rparr>)
         | (Some (WrapUp s), g) \<Rightarrow> (Some s, append_to_tail (st\<lparr>ls_budget := g\<rparr>) s)))"

section \<open>Verification calls\<close>

definition VERIFY_NUDGE :: string where
  "VERIFY_NUDGE = ''Unverified declare held: no passing verification run since your last write. Either run the task's verification now, or state exactly what blocks it (missing tool/package/file) and what you verified instead. Declaring without one of those two is not completing.''"

definition VERIFY_NUDGE_CAP :: u32 where "VERIFY_NUDGE_CAP = 2"

definition verifies_segment :: "string list \<Rightarrow> bool" where
  "verifies_segment words =
     (case words of
        [] \<Rightarrow> False
      | first # rest \<Rightarrow>
          first = ''pytest'' \<or> suffix ''/pytest'' first
          \<or> first \<in> {''cargo'', ''go'', ''npm''} \<and> take 1 rest = [''test'']
          \<or> first = ''npm'' \<and> take 2 rest = [''run'', ''test''])"

definition is_verification_call :: "string \<Rightarrow> json \<Rightarrow> bool" where
  "is_verification_call name args =
     (if name = TOOL_TEST then True
      else if name \<noteq> TOOL_EXEC then False
      else
        let cmd = (case Option.bind (json_get ''cmd'' args) as_str of Some s \<Rightarrow> s | None \<Rightarrow> []);
            chained = replace_str ''||'' '';'' (replace_str ''&&'' '';'' (to_lowercase cmd));
            cut = map (\<lambda>c. if c = CHR ''|'' then CHR '';'' else c) chained
        in list_ex (\<lambda>segment. verifies_segment (split_whitespace segment)) (split_on (CHR '';'') cut))"

fun stop_label :: "stop_reason \<Rightarrow> string" where
  "stop_label StPending = ''Pending''"
| "stop_label StStop = ''Stop''"
| "stop_label StToolUse = ''ToolUse''"
| "stop_label StMaxTokens = ''MaxTokens''"
| "stop_label StRefused = ''Refused''"
| "stop_label StError = ''Error''"
| "stop_label StAborted = ''Aborted''"
| "stop_label StDeferred = ''Deferred''"

section \<open>The claim step\<close>

definition push_assistant :: "lib \<Rightarrow> loop_state \<Rightarrow> nat \<Rightarrow> assistant_message \<Rightarrow> string \<Rightarrow> loop_state" where
  "push_assistant l st now message label =
     (let v = (case enc_msg l message of
                 Inr j \<Rightarrow> j
               | Inl e \<Rightarrow> JObj [(''content'', JStr (''[assistant serialization failed: '' @ e @ '']'')),
                               (''tool_calls'', JArr []), (''thinking'', JNull)])
      in push_item st now (IAssistant v label False))"

definition TRUNCATED_CALL :: string where
  "TRUNCATED_CALL = ''tool call truncated: re-issue with complete arguments''"

definition claim_truncated :: "lib \<Rightarrow> nat \<Rightarrow> loop_state \<Rightarrow> tool_call_ref \<Rightarrow> loop_state" where
  "claim_truncated l now st tc =
     (let st1 = push_item st now (IToolCall (tc_id tc) (tc_name tc) (tc_args tc));
          st2 = push_item st1 now (IToolResult (tc_id tc) TRUNCATED_CALL True None)
      in st2\<lparr>ls_calls := AList.update (tc_id tc)
               \<lparr>cs_name = tc_name tc, cs_args = json_text l (tc_args tc), cs_verification = False,
                cs_result = Some \<lparr>content = TRUNCATED_CALL, is_error = True\<rparr>\<rparr> (ls_calls st2)\<rparr>)"

definition claim_call :: "lib \<Rightarrow> nat \<Rightarrow> loop_state \<Rightarrow> tool_call_ref \<Rightarrow> loop_state" where
  "claim_call l now st tc =
     (let st1 = push_item st now (IToolCall (tc_id tc) (tc_name tc) (tc_args tc))
      in st1\<lparr>ls_calls := AList.update (tc_id tc)
               \<lparr>cs_name = tc_name tc, cs_args = json_text l (tc_args tc),
                cs_verification = is_verification_call (tc_name tc) (tc_args tc),
                cs_result = None\<rparr> (ls_calls st1)\<rparr>)"

definition call_of_ref :: "tool_call_ref \<Rightarrow> tool_call" where
  "call_of_ref tc = \<lparr>call_id = tc_id tc, call_name = tc_name tc, call_args = tc_args tc\<rparr>"

definition verify_nudge_due :: "loop_state \<Rightarrow> nat \<Rightarrow> run_config \<Rightarrow> string option \<times> loop_state" where
  "verify_nudge_due st now rc =
     (let v = ls_verify st; g = ls_budget st; cfg = config g; c = counters g in
      if rc_incentives rc < FullLevel then (None, st)
      else if VERIFY_NUDGE_CAP \<le> vs_nudges_used v then (None, st)
      else if ls_edits st \<le> vs_edits_at_last_nudge v then (None, st)
      else if vs_verified_since_write v then (None, st)
      else if 0 < actions_per_trial cfg
           \<and> sat_mul32 (actions_per_trial cfg) 9 \<le> sat_mul32 (actions_this_trial c) 10 then (None, st)
      else if exceeded g now \<noteq> None then (None, st)
      else if max_steps cfg - steps c < 2 then (None, st)
      else if 0 < max_tokens cfg \<and> max_tokens cfg \<le> tokens c then (None, st)
      else if (case max_spend_cents cfg of Some limit \<Rightarrow> limit \<le> spent_cents c | None \<Rightarrow> False) then (None, st)
      else if max_wallclock cfg \<noteq> 0 \<and> max_wallclock cfg \<le> elapsed g now then (None, st)
      else (Some VERIFY_NUDGE,
            st\<lparr>ls_verify := v\<lparr>vs_nudges_used := vs_nudges_used v + 1,
                              vs_edits_at_last_nudge := ls_edits st\<rparr>\<rparr>))"

definition claim_declare :: "loop_state \<Rightarrow> nat \<Rightarrow> run_config \<Rightarrow> claim_outcome \<times> loop_state" where
  "claim_declare st now cfg =
     (case verify_nudge_due st now cfg of
        (None, st1) \<Rightarrow> (ClDone, st1)
      | (Some s, st1) \<Rightarrow>
          (let st2 = st1\<lparr>ls_verify := (ls_verify st1)\<lparr>vs_hold := Some s\<rparr>\<rparr>;
               st3 = push_item st2 now (IAttempt s True)
           in (ClVerifyHold, st3\<lparr>ls_call_model := True\<rparr>)))"

definition step_claim ::
  "lib \<Rightarrow> loop_state \<Rightarrow> nat \<Rightarrow> assistant_message \<Rightarrow> stop_reason \<Rightarrow> run_config \<Rightarrow> claim_outcome \<times> loop_state" where
  "step_claim l st now message stop cfg =
     (let label = stop_label stop in
      if stop = StMaxTokens then
        let st1 = foldl (claim_truncated l now) st (am_tool_calls message);
            st2 = stick_turn_reason st1 MaxTokensReason
        in (ClTruncated (length (am_tool_calls message)), push_assistant l st2 now message label)
      else if stop = StRefused then
        (ClRefused, stick_turn_reason (push_assistant l st now message label) (ErrorReason ''refused''))
      else if stop = StError \<or> stop = StAborted then (ClHardExit label, st)
      else
        let st1 = push_assistant l st now message label in
        if am_tool_calls message = [] then claim_declare st1 now cfg
        else (ClDispatch (map call_of_ref (am_tool_calls message)),
              foldl (claim_call l now) st1 (am_tool_calls message)))"

section \<open>Recording results\<close>

definition mark_verified :: "verify_state \<Rightarrow> call_state \<Rightarrow> verify_state" where
  "mark_verified v c =
     (if cs_name c = TOOL_EDIT \<or> cs_name c = TOOL_WRITE then v\<lparr>vs_verified_since_write := False\<rparr>
      else if cs_verification c then v\<lparr>vs_verified_since_write := True\<rparr>
      else v)"

definition record_tool_result :: "loop_state \<Rightarrow> nat \<Rightarrow> tool_msg \<Rightarrow> bool \<times> loop_state" where
  "record_tool_result st now msg =
     (case map_of (ls_calls st) (tm_call_id msg) of
        None \<Rightarrow> (False, st)
      | Some c \<Rightarrow>
          if cs_result c \<noteq> None then (False, st)
          else
            let r = tm_result msg;
                st1 = push_item st now (IToolResult (tm_call_id msg) (content r) (is_error r) None);
                st2 = st1\<lparr>ls_calls := AList.update (tm_call_id msg) (c\<lparr>cs_result := Some r\<rparr>) (ls_calls st1)\<rparr>;
                st3 = (if \<not> is_error r then st2\<lparr>ls_verify := mark_verified (ls_verify st2) c\<rparr> else st2)
            in (True, if batch_complete st3 then st3\<lparr>ls_call_model := True\<rparr> else st3))"

end
