(* ===== verification/Request.thy ===== *)
theory Request
  imports Claims
begin

text \<open>
  The prompt build of \<open>crates/agent-loop/src/request.rs\<close>: the transcript fold with its thinking trim
  and collapse stubs, the checkpoint's view of it, the budget line and the composition of a request.
  Reading the pinned files and calling the summarizer are effects, in \<open>RunLoop\<close>.
\<close>

section \<open>The transcript fold\<close>

definition plain_message :: "string \<Rightarrow> string \<Rightarrow> provider_message" where
  "plain_message r c = \<lparr>pm_role = r, pm_content = c, pm_tool_calls = [], pm_tool_call_id = None, pm_thinking = None\<rparr>"

definition message_of_item :: "lib \<Rightarrow> item \<Rightarrow> provider_message option" where
  "message_of_item l it =
     (case kind it of
        IInput _ s _ \<Rightarrow> Some (plain_message ''user'' s)
      | IAssistant v _ _ \<Rightarrow>
          (let am = (case dec_msg l v of
                       Inr am \<Rightarrow> am
                     | Inl e \<Rightarrow> \<lparr>am_content = ''[corrupt assistant row: '' @ e @ '']'', am_tool_calls = [],
                                 am_thinking = None\<rparr>)
           in Some \<lparr>pm_role = ''assistant'', pm_content = am_content am, pm_tool_calls = am_tool_calls am,
                    pm_tool_call_id = None, pm_thinking = am_thinking am\<rparr>)
      | IToolResult cid body _ _ \<Rightarrow>
          Some ((plain_message ''tool'' body)\<lparr>pm_tool_call_id := Some cid\<rparr>)
      | _ \<Rightarrow> None)"

definition has_role :: "string \<Rightarrow> provider_message \<Rightarrow> bool" where
  "has_role r m \<longleftrightarrow> pm_role m = r"

text \<open>The first \<open>n\<close> messages of a role, rewritten in place.\<close>

fun rewrite_first ::
  "(provider_message \<Rightarrow> provider_message) \<Rightarrow> string \<Rightarrow> nat \<Rightarrow> provider_message list \<Rightarrow> provider_message list" where
  "rewrite_first f r n [] = []"
| "rewrite_first f r n (m # ms) =
     (if has_role r m
      then (case n of 0 \<Rightarrow> m # ms | Suc k \<Rightarrow> f m # rewrite_first f r k ms)
      else m # rewrite_first f r n ms)"

definition trim_thinking :: "nat \<Rightarrow> provider_message list \<Rightarrow> provider_message list" where
  "trim_thinking keep ms =
     rewrite_first (\<lambda>m. m\<lparr>pm_thinking := None\<rparr>) ''assistant''
       (length (filter (has_role ''assistant'') ms) - keep) ms"

definition collapse_stub :: "provider_message \<Rightarrow> provider_message" where
  "collapse_stub m =
     m\<lparr>pm_content := ''[collapsed: '' @ dec (length (pm_content m)) @ ''b '' @ [CHR 0xE2, CHR 0x80, CHR 0x94]
         @ '' re-open to edit] '' @ take_chars 120 (pm_content m)\<rparr>"

definition collapse_tools :: "nat \<Rightarrow> provider_message list \<Rightarrow> provider_message list" where
  "collapse_tools hysteresis ms =
     rewrite_first collapse_stub ''tool''
       (collapse_boundary (length (filter (has_role ''tool'') ms)) COLLAPSE_KEEP hysteresis) ms"

definition raw_messages_with :: "lib \<Rightarrow> loop_state \<Rightarrow> run_config \<Rightarrow> nat \<Rightarrow> provider_message list" where
  "raw_messages_with l st cfg hysteresis =
     collapse_tools hysteresis
       (trim_thinking (rc_thinking_keep cfg) (List.map_filter (message_of_item l) (ls_items st)))"

definition raw_messages :: "lib \<Rightarrow> loop_state \<Rightarrow> run_config \<Rightarrow> provider_message list" where
  "raw_messages l st cfg = raw_messages_with l st cfg (rc_hysteresis cfg)"

definition CHECKPOINT_PREFIX :: string where
  "CHECKPOINT_PREFIX = ''[context checkpoint: earlier turns were summarized to save tokens; the durable log still holds them]''"

definition summary_message :: "string \<Rightarrow> provider_message" where
  "summary_message summary = plain_message ''user'' (CHECKPOINT_PREFIX @ newline @ summary)"

definition derived_messages :: "lib \<Rightarrow> loop_state \<Rightarrow> run_config \<Rightarrow> provider_message list" where
  "derived_messages l st cfg =
     (let raw = raw_messages l st cfg in
      case ls_checkpoint st of
        None \<Rightarrow> raw
      | Some cp \<Rightarrow> summary_message (cp_summary cp) # drop (cp_keep_from cp) raw)"

section \<open>Composing a request\<close>

definition WORKFLOW_CONTRACT :: string where
  "WORKFLOW_CONTRACT =
     ''WORKFLOW CONTRACT'' @ newline
     @ ''budgets remaining are printed on the last line of the newest message; read them there.'' @ newline
     @ ''tool results older than the last 5 are collapsed to one line; re-open a file immediately before editing it.'' @ newline
     @ ''work file-by-file: view -> edit immediately -> next file. `edit` and `write` are the ONLY patch mechanisms ''
     @ [CHR 0xE2, CHR 0x80, CHR 0x94] @ '' never write files via exec; exec/test are for checks only.'' @ newline
     @ ''when your patch is complete, reply with a text message and NO tool calls ''
     @ [CHR 0xE2, CHR 0x80, CHR 0x94] @ '' that finishes the run.''"

definition budget_line :: "loop_state \<Rightarrow> string" where
  "budget_line st =
     (let cfg = config (ls_budget st); c = counters (ls_budget st) in
      ''budgets remaining: steps '' @ dec (max_steps cfg - steps c) @ ''/'' @ dec (max_steps cfg)
      @ ''; actions '' @ dec (actions_per_trial cfg - actions_this_trial c) @ ''/'' @ dec (actions_per_trial cfg)
      @ ''; tokens '' @ dec (max_tokens cfg - tokens c) @ ''/'' @ dec (max_tokens cfg))"

definition PIN_CAP_CHARS :: nat where "PIN_CAP_CHARS = 8000"

definition must_item :: "string \<Rightarrow> string \<Rightarrow> string \<Rightarrow> context_item" where
  "must_item path region body =
     \<lparr>ci_key = \<lparr>ik_path = path, ik_region = region, ik_role = ''system''\<rparr>, ci_fidelity = Exact,
      ci_must = True, ci_text = body\<rparr>"

text \<open>The frozen head: contract, file map, and the pins whose file is unchanged.\<close>

definition system_head :: "run_config \<Rightarrow> string \<Rightarrow> (string \<times> string) list \<Rightarrow> string" where
  "system_head cfg map_text unchanged =
     (let a0 = new_assembler (rc_context_budget cfg);
          a1 = (if ContractLevel \<le> rc_incentives cfg
                then add_item a0 (must_item ''workflow-contract'' ''contract'' WORKFLOW_CONTRACT) else a0);
          a2 = add_item a1 (must_item ''file-map'' ''map'' map_text)
      in assemble (foldl (\<lambda>a (f, start). add_volatile a (must_item f ''named'' start)) a2 unchanged))"

definition append_budget :: "string \<Rightarrow> provider_message list \<Rightarrow> provider_message list" where
  "append_budget line hist =
     (if hist = [] then [plain_message ''user'' line]
      else butlast hist @ [(last hist)\<lparr>pm_content := pm_content (last hist) @ newline @ line\<rparr>])"

definition compose_request ::
  "lib \<Rightarrow> loop_state \<Rightarrow> registry \<Rightarrow> run_config \<Rightarrow> string \<Rightarrow> (string \<times> string) list \<Rightarrow> request" where
  "compose_request l st reg cfg map_text unchanged =
     \<lparr>rq_messages =
        plain_message ''system'' (system_head cfg map_text unchanged)
        # append_budget (budget_line st) (derived_messages l st cfg)
        @ (case vs_hold (ls_verify st) of Some n \<Rightarrow> [plain_message ''user'' n] | None \<Rightarrow> []),
      rq_tools = definitions reg, rq_max_tokens = rc_max_tokens cfg, rq_thinking = ThinkingAuto,
      rq_extras = JNull\<rparr>"

section \<open>The compactor's view\<close>

definition compact_one :: "lib \<Rightarrow> provider_message \<Rightarrow> compact_message" where
  "compact_one l m =
     \<lparr>cm_role = pm_role m,
      cm_content =
        (if pm_role m = ''assistant'' then
           join newline
             ((case pm_thinking m of Some t \<Rightarrow> if t \<noteq> [] then [''[thinking] '' @ t] else [] | None \<Rightarrow> [])
              @ (if pm_content m \<noteq> [] then [pm_content m] else [])
              @ map (\<lambda>c. tc_name c @ ''('' @ json_text l (tc_args c) @ '')'') (pm_tool_calls m))
         else pm_content m)\<rparr>"

definition compact_view :: "lib \<Rightarrow> provider_message list \<Rightarrow> compact_message list" where
  "compact_view l ms = map (compact_one l) ms"

definition summary_request :: "run_config \<Rightarrow> compact_message list \<Rightarrow> request" where
  "summary_request cfg folded =
     \<lparr>rq_messages =
        [plain_message ''system'' SUMMARY_SYSTEM,
         plain_message ''user'' (''<conversation>'' @ newline @ summary_payload folded @ newline
           @ ''</conversation>'' @ newline @ newline @ SUMMARY_PROMPT)],
      rq_tools = [], rq_max_tokens = rc_max_tokens cfg, rq_thinking = ThinkingOff, rq_extras = JNull\<rparr>"

definition summary_of :: "response \<Rightarrow> string + string" where
  "summary_of r =
     (if rs_stop r = StStop \<and> trim (am_content (rs_message r)) \<noteq> []
      then Inr (trim (am_content (rs_message r)))
      else Inl (''summary stop '' @ stop_label (rs_stop r)))"

definition apply_checkpoint :: "loop_state \<Rightarrow> nat \<Rightarrow> string \<Rightarrow> loop_state" where
  "apply_checkpoint st at_cut summary =
     st\<lparr>ls_checkpoint := Some \<lparr>cp_keep_from = (case ls_checkpoint st of
              Some prev \<Rightarrow> cp_keep_from prev + at_cut - 1 | None \<Rightarrow> at_cut), cp_summary = summary\<rparr>,
        ls_anchor := None\<rparr>"

end
