(* ===== verification/BatchProof.thy ===== *)
theory BatchProof
  imports Claims
begin

text \<open>
  The batch proof of \<open>crates/agent-loop/src/proof.rs\<close>: patch splitting, the mapping of a tool outcome
  to a result, the effects of one executed call, the settlement of the newest result's tail and the
  counters a rolled-back batch is refunded to. The parts that run git or a proof command are in
  \<open>RunLoop\<close>, where the world is.
\<close>

definition ROLLBACK_NOTICE :: string where
  "ROLLBACK_NOTICE = ''a tool in your last batch failed and the whole batch was reverted ''
     @ [CHR 0xE2, CHR 0x80, CHR 0x94]
     @ '' your successful changes in it are gone; re-apply them''"

section \<open>Patch splitting\<close>

record patch_text =
  pt_text :: string
  pt_truncated :: bool

record split_state =
  sp_out :: "string list"
  sp_header :: string
  sp_cur :: "string option"

definition take_cur :: "split_state \<Rightarrow> split_state" where
  "take_cur s = (case sp_cur s of Some d \<Rightarrow> s\<lparr>sp_out := sp_out s @ [d], sp_cur := None\<rparr> | None \<Rightarrow> s)"

definition split_line :: "split_state \<Rightarrow> string \<Rightarrow> split_state" where
  "split_line s line =
     (if prefix ''diff --git'' line then (take_cur s)\<lparr>sp_header := line\<rparr>
      else if prefix ''@@'' line then
        (let s' = take_cur s in s'\<lparr>sp_cur := Some (sp_header s' @ newline @ line)\<rparr>)
      else
        (case sp_cur s of
           Some hunk \<Rightarrow> s\<lparr>sp_cur := Some (hunk @ newline @ line)\<rparr>
         | None \<Rightarrow> s\<lparr>sp_header := sp_header s @ newline @ line\<rparr>))"

definition split_patch :: "patch_text \<Rightarrow> string list" where
  "split_patch p =
     (let s = take_cur (foldl split_line \<lparr>sp_out = [], sp_header = [], sp_cur = None\<rparr> (str_lines (pt_text p)))
      in if pt_truncated p then butlast (sp_out s) else sp_out s)"

section \<open>Executed calls\<close>

definition outcome_to_result :: "tool_outcome \<Rightarrow> tool_result" where
  "outcome_to_result oc =
     \<lparr>content = (if truncated oc then oc_content oc @ newline @ ''[truncated]'' else oc_content oc),
      is_error = (\<not> success oc)\<rparr>"

definition note_tool_execution ::
  "lib \<Rightarrow> loop_state \<Rightarrow> string \<Rightarrow> string \<Rightarrow> tool_result \<Rightarrow> budget_halt option \<times> loop_state" where
  "note_tool_execution l st name args_str r =
     (let (halt, st1) = observe_action l st (name @ '':'' @ args_str) (content r)
      in (halt, if \<not> is_error r \<and> (name = TOOL_EDIT \<or> name = TOOL_WRITE)
                then st1\<lparr>ls_edits := wrap_add32 (ls_edits st1) 1\<rparr> else st1))"

definition settle_tool_tail :: "loop_state \<Rightarrow> nat \<Rightarrow> run_config \<Rightarrow> loop_state" where
  "settle_tool_tail st now cfg =
     snd (deliver_directives (snd (apply_budget_nudge (queue_directives st cfg) now)))"

section \<open>Batch counters\<close>

record batch_snapshot =
  bs_edits :: u32
  bs_actions :: u32
  bs_streak :: u32
  bs_last_sig :: string
  bs_last_obs :: u64
  bs_verified :: bool

definition snapshot_batch :: "loop_state \<Rightarrow> batch_snapshot" where
  "snapshot_batch st =
     \<lparr>bs_edits = ls_edits st,
      bs_actions = actions_this_trial (counters (ls_budget st)),
      bs_streak = same_action_streak (counters (ls_budget st)),
      bs_last_sig = ls_last_sig st, bs_last_obs = ls_last_obs st,
      bs_verified = vs_verified_since_write (ls_verify st)\<rparr>"

definition refund_batch :: "loop_state \<Rightarrow> batch_snapshot \<Rightarrow> loop_state" where
  "refund_batch st snap =
     (update_counters st (\<lambda>c. c\<lparr>actions_this_trial := bs_actions snap, same_action_streak := bs_streak snap\<rparr>))
       \<lparr>ls_edits := bs_edits snap, ls_last_sig := bs_last_sig snap, ls_last_obs := bs_last_obs snap,
        ls_verify := (ls_verify st)\<lparr>vs_verified_since_write := bs_verified snap\<rparr>\<rparr>"

end
