(* ===== verification/Effects.thy ===== *)
theory Effects
  imports Prelude
begin

text \<open>
  Sequencing of fallible, state-changing code. A program takes a state and answers an error or a
  value with the new state; \<open>andthen\<close> is the \<open>?\<close> operator between two such steps. \<open>triple\<close> is the
  Hoare triple with a second postcondition for the early returns, and the rules below carry the
  proofs on the run loop.
\<close>

type_synonym ('c, 'e, 'a) prog = "'c \<Rightarrow> ('e + 'a) \<times> 'c"

named_theorems prog_defs \<open>the combinators, to execute a program\<close>

definition ret :: "'a \<Rightarrow> ('c, 'e, 'a) prog" where [prog_defs]:
  "ret a = (\<lambda>c. (Inr a, c))"

definition throw :: "'e \<Rightarrow> ('c, 'e, 'a) prog" where [prog_defs]:
  "throw e = (\<lambda>c. (Inl e, c))"

definition andthen :: "('c, 'e, 'a) prog \<Rightarrow> ('a \<Rightarrow> ('c, 'e, 'b) prog) \<Rightarrow> ('c, 'e, 'b) prog" where [prog_defs]:
  "andthen m k = (\<lambda>c. case m c of (Inl e, c') \<Rightarrow> (Inl e, c') | (Inr a, c') \<Rightarrow> k a c')"

definition gets :: "('c \<Rightarrow> 'a) \<Rightarrow> ('c, 'e, 'a) prog" where [prog_defs]:
  "gets f = (\<lambda>c. (Inr (f c), c))"

definition modify :: "('c \<Rightarrow> 'c) \<Rightarrow> ('c, 'e, unit) prog" where [prog_defs]:
  "modify f = (\<lambda>c. (Inr (), f c))"

text \<open>A step that cannot fail, and one whose result decides what to do next.\<close>

definition act :: "('c \<Rightarrow> 'a \<times> 'c) \<Rightarrow> ('c, 'e, 'a) prog" where [prog_defs]:
  "act f = (\<lambda>c. case f c of (a, c') \<Rightarrow> (Inr a, c'))"

definition guard_that :: "'e + 'a \<Rightarrow> ('c, 'e, 'a) prog" where [prog_defs]:
  "guard_that r = (\<lambda>c. (r, c))"

definition map_error :: "('e \<Rightarrow> 'f) \<Rightarrow> ('c, 'e, 'a) prog \<Rightarrow> ('c, 'f, 'a) prog" where [prog_defs]:
  "map_error f m = (\<lambda>c. case m c of (Inl e, c') \<Rightarrow> (Inl (f e), c') | (Inr a, c') \<Rightarrow> (Inr a, c'))"

text \<open>The error is dropped: \<open>let _ = ...\<close>.\<close>

definition ignore :: "('c, 'e, 'a) prog \<Rightarrow> ('c, 'f, unit) prog" where [prog_defs]:
  "ignore m = (\<lambda>c. (Inr (), snd (m c)))"

fun for_each :: "('x \<Rightarrow> ('c, 'e, unit) prog) \<Rightarrow> 'x list \<Rightarrow> ('c, 'e, unit) prog" where
  "for_each f [] = ret ()"
| "for_each f (x # xs) = andthen (f x) (\<lambda>_. for_each f xs)"

section \<open>Hoare triples\<close>

definition triple ::
  "('c \<Rightarrow> bool) \<Rightarrow> ('c, 'e, 'a) prog \<Rightarrow> ('a \<Rightarrow> 'c \<Rightarrow> bool) \<Rightarrow> ('e \<Rightarrow> 'c \<Rightarrow> bool) \<Rightarrow> bool" where
  "triple P m Q E \<longleftrightarrow> (\<forall>c. P c \<longrightarrow> (case m c of (Inr a, c') \<Rightarrow> Q a c' | (Inl e, c') \<Rightarrow> E e c'))"

lemma tripleI:
  "(\<And>c a c'. P c \<Longrightarrow> m c = (Inr a, c') \<Longrightarrow> Q a c') \<Longrightarrow>
   (\<And>c e c'. P c \<Longrightarrow> m c = (Inl e, c') \<Longrightarrow> E e c') \<Longrightarrow> triple P m Q E"
  by (auto simp: triple_def split: prod.splits sum.splits)

lemma tripleD_ok: "triple P m Q E \<Longrightarrow> P c \<Longrightarrow> m c = (Inr a, c') \<Longrightarrow> Q a c'"
  by (auto simp: triple_def split: prod.splits sum.splits)

lemma tripleD_err: "triple P m Q E \<Longrightarrow> P c \<Longrightarrow> m c = (Inl e, c') \<Longrightarrow> E e c'"
  by (auto simp: triple_def split: prod.splits sum.splits)

lemma triple_ret: "(\<And>c. P c \<Longrightarrow> Q a c) \<Longrightarrow> triple P (ret a) Q E"
  by (simp add: triple_def ret_def)

lemma triple_throw: "(\<And>c. P c \<Longrightarrow> E e c) \<Longrightarrow> triple P (throw e) Q E"
  by (simp add: triple_def throw_def)

lemma triple_gets: "(\<And>c. P c \<Longrightarrow> Q (f c) c) \<Longrightarrow> triple P (gets f) Q E"
  by (simp add: triple_def gets_def)

lemma triple_modify: "(\<And>c. P c \<Longrightarrow> Q () (f c)) \<Longrightarrow> triple P (modify f) Q E"
  by (simp add: triple_def modify_def)

lemma triple_act: "(\<And>c a c'. P c \<Longrightarrow> f c = (a, c') \<Longrightarrow> Q a c') \<Longrightarrow> triple P (act f) Q E"
  by (auto simp: triple_def act_def split: prod.splits)

lemma triple_guard: "(\<And>c e. P c \<Longrightarrow> r = Inl e \<Longrightarrow> E e c) \<Longrightarrow> (\<And>c a. P c \<Longrightarrow> r = Inr a \<Longrightarrow> Q a c) \<Longrightarrow>
   triple P (guard_that r) Q E"
  by (auto simp: triple_def guard_that_def split: sum.splits)

lemma triple_andthen:
  "triple P m R E \<Longrightarrow> (\<And>a. triple (R a) (k a) Q E) \<Longrightarrow> triple P (andthen m k) Q E"
  by (fastforce simp: triple_def andthen_def split: prod.splits sum.splits)

lemma triple_map_error: "triple P m Q (\<lambda>e. E (f e)) \<Longrightarrow> triple P (map_error f m) Q E"
  by (fastforce simp: triple_def map_error_def split: prod.splits sum.splits)

lemma triple_ignore: "triple P m (\<lambda>_. Q ()) (\<lambda>_. Q ()) \<Longrightarrow> triple P (ignore m) Q E"
proof (rule tripleI)
  fix c a c'
  assume t: "triple P m (\<lambda>_. Q ()) (\<lambda>_. Q ())" and "P c" and e: "ignore m c = (Inr a, c')"
  then have "Q () (snd (m c))"
    by (cases "m c"; cases "fst (m c)") (auto dest: tripleD_ok tripleD_err)
  then show "Q a c'" using e by (simp add: ignore_def)
qed (simp add: ignore_def)

lemma triple_for_each: "(\<And>x. x \<in> set xs \<Longrightarrow> triple I (f x) (\<lambda>_. I) E) \<Longrightarrow> triple I (for_each f xs) (\<lambda>_. I) E"
  by (induction xs) (auto intro: triple_ret triple_andthen)

lemma triple_conseq:
  "triple P' m Q' E' \<Longrightarrow> (\<And>c. P c \<Longrightarrow> P' c) \<Longrightarrow> (\<And>a c. Q' a c \<Longrightarrow> Q a c) \<Longrightarrow> (\<And>e c. E' e c \<Longrightarrow> E e c) \<Longrightarrow>
   triple P m Q E"
  by (fastforce simp: triple_def split: prod.splits sum.splits)

lemma triple_conj:
  "triple P m Q E \<Longrightarrow> triple P' m Q' E' \<Longrightarrow>
   triple (\<lambda>c. P c \<and> P' c) m (\<lambda>a c. Q a c \<and> Q' a c) (\<lambda>e c. E e c \<and> E' e c)"
  by (fastforce simp: triple_def split: prod.splits sum.splits)

lemma triple_pure: "(b \<Longrightarrow> triple P m Q E) \<Longrightarrow> triple (\<lambda>c. b \<and> P c) m Q E"
  by (auto simp: triple_def)

lemma triple_if: "(b \<Longrightarrow> triple P m Q E) \<Longrightarrow> (\<not> b \<Longrightarrow> triple P n Q E) \<Longrightarrow> triple P (if b then m else n) Q E"
  by simp

text \<open>\<open>keeps I m\<close>: whatever \<open>m\<close> answers, \<open>I\<close> still holds.\<close>

definition keeps :: "('c \<Rightarrow> bool) \<Rightarrow> ('c, 'e, 'a) prog \<Rightarrow> bool" where
  "keeps I m \<longleftrightarrow> (\<forall>c. I c \<longrightarrow> I (snd (m c)))"

named_theorems keeps_rules \<open>invariance of the combinators\<close>

lemma keepsI: "(\<And>c. I c \<Longrightarrow> I (snd (m c))) \<Longrightarrow> keeps I m"
  by (simp add: keeps_def)

lemma keepsD: "keeps I m \<Longrightarrow> I c \<Longrightarrow> I (snd (m c))"
  by (simp add: keeps_def)

lemma keeps_triple: "keeps I m \<Longrightarrow> triple I m (\<lambda>_. I) (\<lambda>_. I)"
  by (rule tripleI) (metis keepsD snd_conv)+

lemma triple_keeps: "triple I m (\<lambda>_. I) (\<lambda>_. I) \<Longrightarrow> keeps I m"
  unfolding keeps_def triple_def by (fastforce split: prod.splits sum.splits)

lemma keeps_conj: "keeps I m \<Longrightarrow> keeps I' m \<Longrightarrow> keeps (\<lambda>c. I c \<and> I' c) m"
  by (simp add: keeps_def)

lemma keeps_ret [keeps_rules]: "keeps I (ret a)"
  by (simp add: keeps_def ret_def)

lemma keeps_throw [keeps_rules]: "keeps I (throw e)"
  by (simp add: keeps_def throw_def)

lemma keeps_gets [keeps_rules]: "keeps I (gets f)"
  by (simp add: keeps_def gets_def)

lemma keeps_guard [keeps_rules]: "keeps I (guard_that r)"
  by (simp add: keeps_def guard_that_def)

lemma keeps_andthen [keeps_rules]:
  assumes "keeps I m" "\<And>a. keeps I (k a)"
  shows "keeps I (andthen m k)"
proof (rule keepsI)
  fix c
  assume "I c"
  then have "I (snd (m c))" by (rule keepsD[OF assms(1)])
  then show "I (snd (andthen m k c))"
    using keepsD[OF assms(2)] by (auto simp: andthen_def split: prod.splits sum.splits)
qed

lemma keeps_map_error [keeps_rules]: "keeps I m \<Longrightarrow> keeps I (map_error f m)"
  unfolding keeps_def map_error_def by (fastforce split: prod.splits sum.splits)

lemma keeps_ignore [keeps_rules]: "keeps I m \<Longrightarrow> keeps I (ignore m)"
  by (simp add: keeps_def ignore_def)

lemma keeps_for_each [keeps_rules]: "(\<And>x. x \<in> set xs \<Longrightarrow> keeps I (f x)) \<Longrightarrow> keeps I (for_each f xs)"
  by (induction xs) (auto intro: keeps_ret keeps_andthen)

lemma keeps_modify: "(\<And>c. I c \<Longrightarrow> I (f c)) \<Longrightarrow> keeps I (modify f)"
  by (simp add: keeps_def modify_def)

lemma keeps_act: "(\<And>c. I c \<Longrightarrow> I (snd (f c))) \<Longrightarrow> keeps I (act f)"
  unfolding keeps_def act_def by (fastforce split: prod.splits)

lemma keeps_if [keeps_rules]: "(b \<Longrightarrow> keeps I m) \<Longrightarrow> (\<not> b \<Longrightarrow> keeps I n) \<Longrightarrow> keeps I (if b then m else n)"
  by simp

lemma keeps_option [keeps_rules]:
  "(x = None \<Longrightarrow> keeps I m) \<Longrightarrow> (\<And>a. x = Some a \<Longrightarrow> keeps I (k a)) \<Longrightarrow>
   keeps I (case x of None \<Rightarrow> m | Some a \<Rightarrow> k a)"
  by (cases x) auto

lemma keeps_sum [keeps_rules]:
  "(\<And>a. x = Inl a \<Longrightarrow> keeps I (m a)) \<Longrightarrow> (\<And>b. x = Inr b \<Longrightarrow> keeps I (k b)) \<Longrightarrow>
   keeps I (case x of Inl a \<Rightarrow> m a | Inr b \<Rightarrow> k b)"
  by (cases x) auto

lemma keeps_prod [keeps_rules]: "(\<And>a b. x = (a, b) \<Longrightarrow> keeps I (k a b)) \<Longrightarrow> keeps I (case x of (a, b) \<Rightarrow> k a b)"
  by (cases x) auto

end
