(* ===== verification/RunLoop.thy ===== *)
theory RunLoop
  imports Request BatchProof Effects
begin

text \<open>
  The headless driver, \<open>crates/agent-loop/src/run.rs\<close>, with the effectful halves of \<open>proof.rs\<close> and
  \<open>request.rs\<close>. \<open>ctx\<close> is \<open>RunCtx\<close>: the loop state, the emitter, the writer and how many rows are
  durable. What the run borrows or calls outside (provider, tools, git tree, log file, proof command,
  bets hook, file system, clock, cancel token) is the record \<open>env\<close> of operations on an abstract world
  \<open>'w\<close>, each of which may answer anything and change the world in any way.

  \<^item> The clock never goes back: a reading adds what the world says has elapsed.
  \<^item> A cancel token once seen cancelled stays so. A race that answers \<open>None\<close> was won by the cancel
    branch; the branch is polled first, as \<open>biased\<close> says.
  \<^item> \<open>cx_rows\<close> are the rows the writer has appended and synced. \<open>cx_trace\<close> is a history variable:
    the effects in the order they happened. Nothing reads it.
\<close>

section \<open>The world\<close>

datatype effect =
    RowSynced item
  | Emitted agent_event
  | ProviderCalled request
  | ToolExecuted invocation
  | TreeMoved

record 'w env =
  en_lib :: lib
  en_cfg :: run_config
  en_registry :: registry
  en_agent :: string
  en_workdir :: string
  w_clock :: "'w \<Rightarrow> nat \<times> 'w"
  w_cancel :: "'w \<Rightarrow> bool \<times> 'w"
  w_complete :: "string \<Rightarrow> request \<Rightarrow> 'w \<Rightarrow> (llm_error + response) option \<times> 'w"
  w_execute :: "invocation \<Rightarrow> 'w \<Rightarrow> (tool_error + tool_outcome) option \<times> 'w"
  w_log_open :: "string \<Rightarrow> 'w \<Rightarrow> (string + unit) \<times> 'w"
  w_append :: "item \<Rightarrow> 'w \<Rightarrow> bool \<times> 'w"
  w_ensure :: "'w \<Rightarrow> (string + unit) \<times> 'w"
  w_baseline :: "'w \<Rightarrow> (string + unit) \<times> 'w"
  w_rollback :: "'w \<Rightarrow> (string + unit) \<times> 'w"
  w_restore :: "string list \<Rightarrow> 'w \<Rightarrow> (string + unit) \<times> 'w"
  w_diff :: "'w \<Rightarrow> (string + unit) \<times> 'w"
  w_patch :: "'w \<Rightarrow> (string + patch_text) \<times> 'w"
  w_probe :: "string list \<Rightarrow> 'w \<Rightarrow> bool \<times> 'w"
  w_listing :: "'w \<Rightarrow> dir_entry list option \<times> 'w"
  w_read_file :: "string \<Rightarrow> 'w \<Rightarrow> string option \<times> 'w"
  w_bets_head :: "nat \<Rightarrow> 'w \<Rightarrow> phase_verdict \<times> 'w"
  w_bets_batch :: "claim \<Rightarrow> (string \<times> bool) list \<Rightarrow> 'w \<Rightarrow> commit_verdict \<times> 'w"
  w_bets_step :: "'w \<Rightarrow> phase_verdict \<times> 'w"

record 'w ctx =
  cx_st :: loop_state
  cx_em :: emitter
  cx_writer :: bool
  cx_synced :: nat
  cx_rows :: "item list"
  cx_run_id :: u64
  cx_cancelled :: bool
  cx_clock :: nat
  cx_world :: 'w
  cx_trace :: "effect list"

type_synonym ('w, 'a) run = "('w ctx, outcome, 'a) prog"

section \<open>Primitive effects\<close>

definition world :: "('w \<Rightarrow> 'a \<times> 'w) \<Rightarrow> ('w, 'a) run" where
  "world f = act (\<lambda>c. case f (cx_world c) of (a, w) \<Rightarrow> (a, c\<lparr>cx_world := w\<rparr>))"

definition observe :: "effect \<Rightarrow> ('w, unit) run" where
  "observe e = modify (\<lambda>c. c\<lparr>cx_trace := cx_trace c @ [e]\<rparr>)"

definition state_do :: "(loop_state \<Rightarrow> loop_state) \<Rightarrow> ('w, unit) run" where
  "state_do f = modify (\<lambda>c. c\<lparr>cx_st := f (cx_st c)\<rparr>)"

definition state_act :: "(loop_state \<Rightarrow> 'a \<times> loop_state) \<Rightarrow> ('w, 'a) run" where
  "state_act f = act (\<lambda>c. case f (cx_st c) of (a, st) \<Rightarrow> (a, c\<lparr>cx_st := st\<rparr>))"

definition state_get :: "(loop_state \<Rightarrow> 'a) \<Rightarrow> ('w, 'a) run" where
  "state_get f = gets (\<lambda>c. f (cx_st c))"

definition now :: "'w env \<Rightarrow> ('w, nat) run" where
  "now en = act (\<lambda>c. case w_clock en (cx_world c) of
     (d, w) \<Rightarrow> (cx_clock c + d, c\<lparr>cx_clock := cx_clock c + d, cx_world := w\<rparr>))"

definition is_cancelled :: "'w env \<Rightarrow> ('w, bool) run" where
  "is_cancelled en = act (\<lambda>c.
     if cx_cancelled c then (True, c)
     else (case w_cancel en (cx_world c) of (b, w) \<Rightarrow> (b, c\<lparr>cx_cancelled := b, cx_world := w\<rparr>)))"

definition race :: "'w env \<Rightarrow> effect \<Rightarrow> ('w \<Rightarrow> 'a option \<times> 'w) \<Rightarrow> ('w, 'a option) run" where
  "race en e f =
     andthen (is_cancelled en) (\<lambda>b.
       if b then ret None
       else andthen (observe e) (\<lambda>_. andthen (world f) (\<lambda>r.
         case r of
           None \<Rightarrow> andthen (modify (\<lambda>c. c\<lparr>cx_cancelled := True\<rparr>)) (\<lambda>_. ret None)
         | Some a \<Rightarrow> ret (Some a))))"

definition emit_ev :: "agent_event \<Rightarrow> ('w, unit) run" where
  "emit_ev ev = modify (\<lambda>c. c\<lparr>cx_em := emit (cx_em c) ev, cx_trace := cx_trace c @ [Emitted ev]\<rparr>)"

definition stop_now :: "('w, unit) run" where
  "stop_now = state_do (\<lambda>st. st\<lparr>ls_stop_hard := True, ls_gate := begin_abort (ls_gate st)\<rparr>)"

section \<open>The durable log\<close>

definition log_failure :: outcome where
  "log_failure = Failed FailLog ''log append failed''"

definition append_row :: "'w env \<Rightarrow> item \<Rightarrow> ('w, unit) run" where
  "append_row en it =
     andthen (world (w_append en it)) (\<lambda>ok.
       if ok then modify (\<lambda>c. c\<lparr>cx_synced := cx_synced c + 1, cx_rows := cx_rows c @ [it],
                               cx_trace := cx_trace c @ [RowSynced it]\<rparr>)
       else throw log_failure)"

definition sync :: "'w env \<Rightarrow> ('w, unit) run" where
  "sync en = (\<lambda>c.
     if \<not> cx_writer c \<or> length (ls_items (cx_st c)) \<le> cx_synced c then (Inr (), c)
     else for_each (append_row en) (drop (cx_synced c) (ls_items (cx_st c))) c)"

definition record_row :: "'w env \<Rightarrow> item_kind \<Rightarrow> agent_event option \<Rightarrow> ('w, unit) run" where
  "record_row en k frame =
     andthen (now en) (\<lambda>t.
     andthen (state_do (\<lambda>st. push_item st t k)) (\<lambda>_.
     andthen (sync en) (\<lambda>_.
     case frame of Some ev \<Rightarrow> emit_ev ev | None \<Rightarrow> ret ())))"

fun event_outcome :: "outcome \<Rightarrow> run_outcome" where
  "event_outcome Done = Passed"
| "event_outcome (Halted s) = RunFailed s"
| "event_outcome (Failed _ message) = RunFailed message"
| "event_outcome Cancelled = RunAborted"

definition hopped_turn_reason :: "loop_state \<Rightarrow> u64 \<Rightarrow> ev_turn_end_reason" where
  "hopped_turn_reason st was =
     (case List.find (\<lambda>it. case kind it of ITurnEnd tid _ \<Rightarrow> tid = turn_id was | _ \<Rightarrow> False)
             (rev (ls_items st)) of
        Some it \<Rightarrow> (case kind it of ITurnEnd _ reason \<Rightarrow> turn_end_reason_to_event reason | _ \<Rightarrow> EvCompleted)
      | None \<Rightarrow> EvCompleted)"

text \<open>\<open>finish\<close> always answers the outcome it was given.\<close>

definition finish :: "'w env \<Rightarrow> outcome \<Rightarrow> ('w, outcome) run" where
  "finish en oc =
     andthen (now en) (\<lambda>t.
     andthen (state_get (\<lambda>st. outcome_log_reason oc (ls_turn_reason st))) (\<lambda>reason.
     andthen (state_do (\<lambda>st. stick_turn_reason st reason)) (\<lambda>_.
     andthen (state_get (\<lambda>st. (ls_turn st, ls_totals st))) (\<lambda>(turn, totals).
     andthen (state_do (\<lambda>st. push_item st t (ITurnEnd (turn_id turn) reason))) (\<lambda>_.
     andthen (ignore (sync en)) (\<lambda>_.
     andthen (emit_ev (TurnEnd turn (turn_end_reason_to_event reason) totals)) (\<lambda>_.
     andthen (emit_ev (RunEnd (event_outcome oc) [])) (\<lambda>_.
     ret oc))))))))"

definition close_hop :: "'w env \<Rightarrow> u64 \<Rightarrow> ('w, unit) run" where
  "close_hop en was =
     andthen (state_get ls_turn) (\<lambda>turn.
       if turn = was \<or> was = 0 then ret ()
       else
         andthen (sync en) (\<lambda>_.
         andthen (state_get (\<lambda>st. (hopped_turn_reason st was, ls_totals st))) (\<lambda>(reason, totals).
         andthen (emit_ev (TurnEnd was reason totals)) (\<lambda>_.
         emit_ev (TurnStart turn)))))"

definition do_terminate :: "'w env \<Rightarrow> ('w, phase_verdict) run" where
  "do_terminate en = andthen (now en) (\<lambda>t. state_act (\<lambda>st. terminate st (en_cfg en) t))"

definition parked :: "loop_state \<Rightarrow> bool" where
  "parked st \<longleftrightarrow> ls_phase st = Idle \<and> is_idle st"

definition settle_terminal :: "'w env \<Rightarrow> u64 \<Rightarrow> ('w, unit) run" where
  "settle_terminal en was =
     andthen (do_terminate en) (\<lambda>v.
       case v of
         Return oc \<Rightarrow> throw oc
       | _ \<Rightarrow>
           andthen (close_hop en was) (\<lambda>_.
           andthen (state_get parked) (\<lambda>b. if b then throw Done else ret ())))"

section \<open>Frames of a settled message\<close>

definition usage_report_of :: "usage \<Rightarrow> usage_report" where
  "usage_report_of u =
     \<lparr>input_tokens = u_input u, output_tokens = u_output u, cache_read_tokens = u_cache_read u,
      reasoning_tokens = u_reasoning u, cost_usd = u_cost u\<rparr>"

definition emit_message_frames :: "assistant_message \<Rightarrow> usage option \<Rightarrow> ('w, unit) run" where
  "emit_message_frames m u =
     (let whole = \<lparr>msg_role = RAssistant, msg_content = am_content m\<rparr> in
      andthen (state_act (\<lambda>st. (ls_open_msg st, st\<lparr>ls_open_msg := None\<rparr>))) (\<lambda>opened.
      andthen (case opened of
                 Some i \<Rightarrow> ret i
               | None \<Rightarrow>
                   andthen (state_act next_emit_id) (\<lambda>i.
                   andthen (emit_ev (MessageStart i RAssistant \<lparr>msg_role = RAssistant, msg_content = []\<rparr>))
                     (\<lambda>_. ret i)))
        (\<lambda>i.
      andthen (emit_ev (MessageUpdate i \<lparr>delta_kind = DText, delta_text = Some (am_content m)\<rparr> whole)) (\<lambda>_.
      emit_ev (MessageEnd i whole False (map_option usage_report_of u))))))"

section \<open>Opening a run\<close>

definition read_pin :: "'w env \<Rightarrow> string \<Rightarrow> ('w, string option) run" where
  "read_pin en f =
     andthen (world (w_read_file en f)) (\<lambda>c.
       ret (named_file_contents (\<lambda>_. c) f PIN_CAP_CHARS))"

fun pin_snapshot :: "'w env \<Rightarrow> string list \<Rightarrow> ('w, (string \<times> string) list) run" where
  "pin_snapshot en [] = ret []"
| "pin_snapshot en (f # fs) =
     andthen (read_pin en f) (\<lambda>c.
     andthen (pin_snapshot en fs) (\<lambda>rest.
       ret (case c of Some s \<Rightarrow> (f, s) # rest | None \<Rightarrow> rest)))"

definition read_file_map :: "'w env \<Rightarrow> ('w, string) run" where
  "read_file_map en = andthen (world (w_listing en)) (\<lambda>l. ret (join newline (file_map l 200)))"

definition seed_input :: "'w env \<Rightarrow> input \<Rightarrow> ('w, unit) run" where
  "seed_input en inp =
     andthen (state_get ls_turn) (\<lambda>was.
     andthen (now en) (\<lambda>t.
     andthen (state_do (\<lambda>st. apply_input st t inp)) (\<lambda>_.
     andthen (sync en) (\<lambda>_.
     andthen (state_get ls_turn) (\<lambda>turn.
       if turn \<noteq> was then emit_ev (TurnStart turn) else ret ())))))"

text \<open>
  The body of \<open>open_run\<close>. An error says whether the run still has to be closed by \<open>finish\<close>; a log
  that does not open and a run without input have emitted their own \<open>RunEnd\<close>.
\<close>

definition lift_finish :: "('w, 'a) run \<Rightarrow> ('w ctx, bool \<times> outcome, 'a) prog" where
  "lift_finish m = map_error (Pair True) m"

definition end_now :: "outcome \<Rightarrow> ('w ctx, bool \<times> outcome, 'a) prog" where
  "end_now oc =
     andthen (map_error (Pair False) (emit_ev (RunEnd (event_outcome oc) []))) (\<lambda>_. throw (False, oc))"

definition open_writer :: "'w env \<Rightarrow> ('w ctx, bool \<times> outcome, unit) prog" where
  "open_writer en =
     (case rc_log_path (en_cfg en) of
        None \<Rightarrow> ret ()
      | Some p \<Rightarrow>
          andthen (lift_finish (world (w_log_open en p))) (\<lambda>r.
            case r of
              Inr _ \<Rightarrow> modify (\<lambda>c. c\<lparr>cx_writer := True\<rparr>)
            | Inl e \<Rightarrow> end_now (Failed FailLog (''log open: '' @ e))))"

definition open_header :: "'w env \<Rightarrow> ('w, unit) run" where
  "open_header en =
     andthen (gets (\<lambda>c. (ls_items (cx_st c) = [], cx_run_id c))) (\<lambda>(fresh, rid).
       if fresh
       then record_row en (IHeader \<lparr>version = LOG_VERSION, session_id = ''run-'' @ dec rid,
              cwd = en_workdir en, model_name = rc_model (en_cfg en)\<rparr>) None
       else ret ())"

definition tree_do :: "('w \<Rightarrow> (string + unit) \<times> 'w) \<Rightarrow> string \<Rightarrow> ('w, unit) run" where
  "tree_do f label =
     andthen (observe TreeMoved) (\<lambda>_.
     andthen (world f) (\<lambda>r.
       case r of Inr _ \<Rightarrow> ret () | Inl e \<Rightarrow> throw (Failed FailSnapshot (label @ e))))"

definition freeze_prefix :: "'w env \<Rightarrow> ('w, unit) run" where
  "freeze_prefix en =
     andthen (read_file_map en) (\<lambda>m.
     andthen (state_do (\<lambda>st. st\<lparr>ls_file_map := Some m\<rparr>)) (\<lambda>_.
     andthen (pin_snapshot en (rc_context_files (en_cfg en))) (\<lambda>ps.
     state_do (\<lambda>st. st\<lparr>ls_pins := Some ps\<rparr>))))"

definition open_body :: "'w env \<Rightarrow> input list \<Rightarrow> ('w ctx, bool \<times> outcome, unit) prog" where
  "open_body en inputs =
     andthen (lift_finish (state_act next_emit_id)) (\<lambda>rid.
     andthen (modify (\<lambda>c. c\<lparr>cx_run_id := rid\<rparr>)) (\<lambda>_.
     andthen (lift_finish (emit_ev (RunStart rid (rc_goal (en_cfg en))))) (\<lambda>_.
     andthen (open_writer en) (\<lambda>_.
     andthen (lift_finish (open_header en)) (\<lambda>_.
     andthen (lift_finish (tree_do (w_ensure en) ''snapshot ensure: '')) (\<lambda>_.
     andthen (lift_finish (sync en)) (\<lambda>_.
     andthen (lift_finish (for_each (seed_input en) inputs)) (\<lambda>_.
     andthen (lift_finish (state_get ls_turn)) (\<lambda>turn.
       if turn = 0 then end_now (Failed FailInput ''run needs at least one input'')
       else lift_finish (freeze_prefix en))))))))))"

definition open_run :: "'w env \<Rightarrow> input list \<Rightarrow> 'w ctx \<Rightarrow> outcome option \<times> 'w ctx" where
  "open_run en inputs c =
     (case open_body en inputs c of
        (Inr _, c') \<Rightarrow> (None, c')
      | (Inl (True, oc), c') \<Rightarrow> (Some oc, snd (finish en oc c'))
      | (Inl (False, oc), c') \<Rightarrow> (Some oc, c'))"

section \<open>The step head\<close>

datatype head = HCall | HYield | HAgain | HExit outcome

definition step_head :: "'w env \<Rightarrow> ('w, head) run" where
  "step_head en =
     andthen (is_cancelled en) (\<lambda>b.
     andthen (if b then stop_now else ret ()) (\<lambda>_.
     andthen (now en) (\<lambda>t0.
     andthen (state_do (\<lambda>st. admit_steering st t0)) (\<lambda>_.
     andthen (sync en) (\<lambda>_.
     andthen (state_get ls_step) (\<lambda>st_no.
     andthen (world (w_bets_head en st_no)) (\<lambda>v.
       case v of
         Return oc \<Rightarrow> ret (HExit oc)
       | _ \<Rightarrow>
           andthen (now en) (\<lambda>t1.
           andthen (state_act (\<lambda>st. start_provider_call st t1)) (\<lambda>admitted.
             if admitted then ret HCall
             else
               andthen (do_terminate en) (\<lambda>v.
                 case v of
                   Return oc \<Rightarrow> ret (HExit oc)
                 | Break \<Rightarrow> ret HYield
                 | Continue \<Rightarrow>
                     andthen (state_get parked) (\<lambda>p. ret (if p then HExit Done else HAgain))))))))))))"

section \<open>The compaction checkpoint\<close>

text \<open>The part before the summarizer is called: the cut to make and the request to send.\<close>

definition checkpoint_cut :: "lib \<Rightarrow> run_config \<Rightarrow> loop_state \<Rightarrow> (nat \<times> request) option" where
  "checkpoint_cut l cfg st =
     (if \<not> enabled (rc_compaction cfg) \<or> ls_compacted st = Some (ls_turn st) then None
      else
        let folded = compact_view l (derived_messages l st cfg);
            estimate = estimate_tokens folded (ls_anchor st)
        in if \<not> compaction_due estimate (max_tokens (config (ls_budget st))) (rc_compaction cfg) then None
           else (case cut_point folded (keep_tokens (rc_compaction cfg)) of
                   None \<Rightarrow> None
                 | Some i \<Rightarrow> Some (i, summary_request cfg (take i folded))))"

definition refuse_summary :: "string \<Rightarrow> ('w, unit) run" where
  "refuse_summary why = emit_ev (Error \<lparr>err_code = ''compaction-refused'', err_message = why\<rparr>)"

definition metered_usage :: "llm_error \<Rightarrow> usage option" where
  "metered_usage e = (case e of Metered _ u _ \<Rightarrow> u | _ \<Rightarrow> None)"

definition checkpoint :: "'w env \<Rightarrow> ('w, unit) run" where
  "checkpoint en =
     andthen (state_get (checkpoint_cut (en_lib en) (en_cfg en))) (\<lambda>due.
       case due of
         None \<Rightarrow> ret ()
       | Some (i, req) \<Rightarrow>
           andthen (state_do (\<lambda>st. st\<lparr>ls_compacted := Some (ls_turn st)\<rparr>)) (\<lambda>_.
           andthen (race en (ProviderCalled req) (w_complete en (rc_model (en_cfg en)) req)) (\<lambda>r.
             case r of
               None \<Rightarrow> ret ()
             | Some (Inr resp) \<Rightarrow>
                 andthen (state_do (\<lambda>st. record_usage st (billed_usage resp))) (\<lambda>_.
                   case summary_of resp of
                     Inr s \<Rightarrow> state_do (\<lambda>st. apply_checkpoint st i s)
                   | Inl why \<Rightarrow> refuse_summary why)
             | Some (Inl e) \<Rightarrow>
                 andthen (state_do (\<lambda>st. meter st (metered_usage e))) (\<lambda>_.
                   refuse_summary (''summary call failed: '' @ debug_error (en_lib en) e)))))"

section \<open>Building the request\<close>

fun unchanged_pins :: "'w env \<Rightarrow> (string \<times> string) list \<Rightarrow> ('w, (string \<times> string) list) run" where
  "unchanged_pins en [] = ret []"
| "unchanged_pins en ((f, start) # ps) =
     andthen (read_pin en f) (\<lambda>c.
     andthen (unchanged_pins en ps) (\<lambda>rest.
       ret (if c = Some start then (f, start) # rest else rest)))"

definition build_request :: "'w env \<Rightarrow> ('w, request) run" where
  "build_request en =
     andthen (state_get ls_file_map) (\<lambda>fm.
     andthen (case fm of
                Some m \<Rightarrow> ret m
              | None \<Rightarrow>
                  andthen (read_file_map en) (\<lambda>m.
                  andthen (state_do (\<lambda>st. st\<lparr>ls_file_map := Some m\<rparr>)) (\<lambda>_. ret m))) (\<lambda>m.
     andthen (state_get ls_pins) (\<lambda>ps.
     andthen (case ps of
                Some p \<Rightarrow> ret p
              | None \<Rightarrow>
                  andthen (pin_snapshot en (rc_context_files (en_cfg en))) (\<lambda>p.
                  andthen (state_do (\<lambda>st. st\<lparr>ls_pins := Some p\<rparr>)) (\<lambda>_. ret p))) (\<lambda>p.
     andthen (unchanged_pins en p) (\<lambda>fresh.
     state_get (\<lambda>st. compose_request (en_lib en) st (en_registry en) (en_cfg en) m fresh))))))"

section \<open>Settling a provider failure\<close>

definition failure_parts :: "lib \<Rightarrow> llm_error \<Rightarrow> string \<times> usage option \<times> bool" where
  "failure_parts l e =
     (case e of
        Metered src u exhausted \<Rightarrow> (llm_error_display src, u, exhausted)
      | _ \<Rightarrow> (debug_error l e, None, False))"

definition settle_provider_error :: "'w env \<Rightarrow> llm_error \<Rightarrow> ('w, unit) run" where
  "settle_provider_error en e =
     (let (msg, u, exhausted) = failure_parts (en_lib en) e in
      andthen (is_cancelled en) (\<lambda>cancelled.
      andthen (state_do (\<lambda>st. if exhausted then st\<lparr>ls_retries := 0\<rparr> else st)) (\<lambda>_.
      andthen (now en) (\<lambda>t.
      andthen (state_do (\<lambda>st. snd (finish_provider_msg st t (PmFailed (ls_turn st) msg cancelled u)))) (\<lambda>_.
      andthen (sync en) (\<lambda>_.
      andthen (emit_ev (Error \<lparr>err_code = ''provider-failed'', err_message = msg\<rparr>)) (\<lambda>_.
      andthen (state_get ls_call_model) (\<lambda>again.
        if again then ret ()
        else
          andthen (do_terminate en) (\<lambda>v.
            case v of
              Return oc \<Rightarrow> throw oc
            | _ \<Rightarrow> andthen (state_get parked) (\<lambda>b. if b then throw Done else ret ()))))))))))"

section \<open>Tool batches\<close>

text \<open>\<open>execute_call\<close>: the registry's tool raced against the cancel token.\<close>

definition execute_call :: "'w env \<Rightarrow> invocation \<Rightarrow> ('w, tool_result) run" where
  "execute_call en iv =
     (case resolve (en_registry en) (inv_name iv) of
        None \<Rightarrow> ret \<lparr>content = ''unknown tool: '' @ inv_name iv, is_error = True\<rparr>
      | Some _ \<Rightarrow>
          andthen (race en (ToolExecuted iv) (w_execute en iv)) (\<lambda>r.
            case r of
              None \<Rightarrow> andthen stop_now (\<lambda>_. ret \<lparr>content = ''cancelled'', is_error = True\<rparr>)
            | Some (Inr oc) \<Rightarrow> ret (outcome_to_result oc)
            | Some (Inl e) \<Rightarrow> ret (result_of_error e)))"

definition record_result :: "'w env \<Rightarrow> string \<Rightarrow> tool_result \<Rightarrow> ('w, unit) run" where
  "record_result en cid r =
     andthen (now en) (\<lambda>t.
       state_do (\<lambda>st. snd (record_tool_result st t \<lparr>tm_call_id = cid, tm_result = r\<rparr>)))"

text \<open>One call of a batch up to its recorded result; the answer says whether it failed.\<close>

definition answer_call :: "'w env \<Rightarrow> tool_call \<Rightarrow> ('w, bool) run" where
  "answer_call en c =
     andthen (is_cancelled en) (\<lambda>b.
       if b
       then andthen (record_result en (call_id c) \<lparr>content = ''aborted before dispatch'', is_error = True\<rparr>)
              (\<lambda>_. ret True)
       else
         (case prepare (en_registry en) (en_agent en) c of
            Result res \<Rightarrow> andthen (record_result en (call_id c) res) (\<lambda>_. ret (is_error res))
          | Dispatch iv \<Rightarrow>
              andthen (execute_call en iv) (\<lambda>res.
              andthen (state_do (\<lambda>st. snd (note_tool_execution (en_lib en) st (inv_name iv)
                         (json_text (en_lib en) (inv_args iv)) res))) (\<lambda>_.
              andthen (record_result en (call_id c) res) (\<lambda>_. ret (is_error res))))))"

definition emit_tool_end :: "string \<Rightarrow> ('w, unit) run" where
  "emit_tool_end cid =
     andthen (state_get (\<lambda>st. Option.bind (map_of (ls_calls st) cid) cs_result)) (\<lambda>r.
       case r of
         Some d \<Rightarrow> emit_ev (ToolEnd cid (JStr (content d)) (is_error d))
       | None \<Rightarrow> ret ())"

definition settle_call :: "'w env \<Rightarrow> tool_call \<Rightarrow> ('w, bool) run" where
  "settle_call en c =
     andthen (answer_call en c) (\<lambda>failed.
     andthen (now en) (\<lambda>t.
     andthen (state_do (\<lambda>st. settle_tool_tail st t (en_cfg en))) (\<lambda>_.
     andthen (sync en) (\<lambda>_.
     andthen (emit_tool_end (call_id c)) (\<lambda>_. ret failed)))))"

fun settle_calls :: "'w env \<Rightarrow> tool_call list \<Rightarrow> ('w, bool) run" where
  "settle_calls en [] = ret False"
| "settle_calls en (c # cs) =
     andthen (settle_call en c) (\<lambda>failed.
     andthen (settle_calls en cs) (\<lambda>rest. ret (failed \<or> rest)))"

definition snapshot_text :: "'w env \<Rightarrow> ('w, string list) run" where
  "snapshot_text en =
     andthen (world (w_diff en)) (\<lambda>d.
       case d of
         Inl e \<Rightarrow> throw (Failed FailSnapshot (''snapshot diff: '' @ e))
       | Inr _ \<Rightarrow>
           andthen (world (w_patch en)) (\<lambda>p.
             case p of
               Inl e \<Rightarrow> throw (Failed FailSnapshot (''snapshot patch: '' @ e))
             | Inr pt \<Rightarrow> ret (split_patch pt)))"

definition batch_hunks :: "'w env \<Rightarrow> bool \<Rightarrow> ('w, (string \<times> bool) list) run" where
  "batch_hunks en proof_passed =
     andthen (snapshot_text en) (\<lambda>hs. ret (map (\<lambda>h. (h, proof_passed)) hs))"

text \<open>Every leading prefix is restored and probed in turn; \<open>k\<close> is the hunk the prefix ends with.\<close>

fun probe_prefixes :: "'w env \<Rightarrow> string \<Rightarrow> string list \<Rightarrow> nat list \<Rightarrow> ('w, (string \<times> bool) list) run" where
  "probe_prefixes en cmd hs [] = ret []"
| "probe_prefixes en cmd hs (k # ks) =
     andthen (tree_do (w_restore en (take (Suc k) hs)) ''snapshot restore: '') (\<lambda>_.
       case split_whitespace cmd of
         [] \<Rightarrow> throw (Failed FailSnapshot ''proof-cmd empty'')
       | argv \<Rightarrow>
           andthen (world (w_probe en argv)) (\<lambda>ok.
           andthen (probe_prefixes en cmd hs ks) (\<lambda>rest. ret ((hs ! k, ok) # rest))))"

definition incremental_hunks :: "'w env \<Rightarrow> string \<Rightarrow> ('w, (string \<times> bool) list) run" where
  "incremental_hunks en cmd =
     andthen (snapshot_text en) (\<lambda>hs. probe_prefixes en cmd hs [0..<length hs])"

record batch_report =
  br_claim :: claim
  br_hunks :: "(string \<times> bool) list"
  br_failed :: bool
  br_snap :: batch_snapshot

definition batch_claim :: claim where
  "batch_claim = \<lparr>predicted_verdict = ''tool batch results all passed'',
     on_mismatch = ''roll back the batch; keep only proven hunks''\<rparr>"

definition roll_back_failed :: "'w env \<Rightarrow> batch_snapshot \<Rightarrow> ('w, unit) run" where
  "roll_back_failed en snap =
     andthen (record_row en (IAttempt ROLLBACK_NOTICE True) None) (\<lambda>_.
     andthen (state_do (\<lambda>st. push_directive st ROLLBACK_NOTICE (en_cfg en))) (\<lambda>_.
     andthen (tree_do (w_rollback en) ''snapshot rollback: '') (\<lambda>_.
     state_do (\<lambda>st. refund_batch st snap))))"

definition tool_batch :: "'w env \<Rightarrow> tool_call list \<Rightarrow> ('w, batch_report) run" where
  "tool_batch en calls =
     andthen (tree_do (w_baseline en) ''snapshot baseline: '') (\<lambda>_.
     andthen (state_get snapshot_batch) (\<lambda>snap.
     andthen (settle_calls en calls) (\<lambda>failed.
     andthen (case rc_proof_cmd (en_cfg en) of
                Some cmd \<Rightarrow> incremental_hunks en cmd
              | None \<Rightarrow> batch_hunks en (\<not> failed)) (\<lambda>hunks.
     andthen (if failed then roll_back_failed en snap else ret ()) (\<lambda>_.
       ret \<lparr>br_claim = batch_claim, br_hunks = hunks, br_failed = failed, br_snap = snap\<rparr>)))))"

definition assess_batch :: "batch_report \<Rightarrow> loop_state \<Rightarrow> loop_state" where
  "assess_batch r st =
     (let observation = (if br_failed r then ''tool batch results not all passed''
                         else ''tool batch results all passed'');
          x = ls_experiment st
      in st\<lparr>ls_experiment := x\<lparr>ablation := note_assessment (ablation x) (assess_claim (br_claim r) observation)\<rparr>\<rparr>)"

definition note_verdict :: "batch_report \<Rightarrow> commit_verdict \<Rightarrow> loop_state \<Rightarrow> loop_state" where
  "note_verdict r v st =
     (if br_hunks r = [] then st
      else (let x = ls_experiment st in st\<lparr>ls_experiment := x\<lparr>ablation := note_commit (ablation x) v\<rparr>\<rparr>))"

definition proof_gate :: "'w env \<Rightarrow> batch_report \<Rightarrow> ('w, unit) run" where
  "proof_gate en r =
     andthen (state_do (assess_batch r)) (\<lambda>_.
     andthen (world (w_bets_batch en (br_claim r) (br_hunks r))) (\<lambda>v.
     andthen (state_do (note_verdict r v)) (\<lambda>_.
     andthen (case v of
                Committed \<Rightarrow> ret ()
              | Partial sp \<Rightarrow> tree_do (w_restore en (kept_hunks sp)) ''snapshot restore: ''
              | Aborted _ \<Rightarrow>
                  andthen (tree_do (w_rollback en) ''snapshot rollback: '') (\<lambda>_.
                  state_do (\<lambda>st. refund_batch st (br_snap r)))) (\<lambda>_.
     andthen (world (w_bets_step en)) (\<lambda>b.
       case b of
         Return oc \<Rightarrow> throw oc
       | _ \<Rightarrow> andthen (state_get ls_turn) (\<lambda>was. settle_terminal en was))))))"

section \<open>Settling a response\<close>

definition done_wins :: "loop_state \<Rightarrow> nat \<Rightarrow> bool" where
  "done_wins st t \<longleftrightarrow>
     ls_in_flight st = None \<and> open_tools st = 0 \<and> \<not> ls_call_model st \<and> ls_steering st = []
     \<and> ls_followups st = [] \<and> map_option be_halt (exceeded (ls_budget st) t) = Some HSteps"

definition hard_exit :: "'w env \<Rightarrow> string \<Rightarrow> ('w, unit) run" where
  "hard_exit en label =
     andthen (state_do (\<lambda>st. st\<lparr>ls_fatal := Some label, ls_gate := gate_close (ls_gate st) label\<rparr>)) (\<lambda>_.
     andthen (do_terminate en) (\<lambda>v. case v of Return oc \<Rightarrow> throw oc | _ \<Rightarrow> ret ()))"

definition dispatch_batch :: "'w env \<Rightarrow> tool_call list \<Rightarrow> ('w, unit) run" where
  "dispatch_batch en calls =
     andthen (for_each (\<lambda>c. emit_ev (ToolStart (call_id c) (call_name c) (call_args c))) calls) (\<lambda>_.
     andthen (tool_batch en calls) (\<lambda>report. proof_gate en report))"

definition follow_claim :: "'w env \<Rightarrow> claim_outcome \<Rightarrow> ('w, unit) run" where
  "follow_claim en oc =
     (case oc of
        ClVerifyHold \<Rightarrow> sync en
      | ClDone \<Rightarrow>
          andthen (now en) (\<lambda>t.
          andthen (state_get (\<lambda>st. (done_wins st t, ls_turn st))) (\<lambda>(wins, was).
            if wins then throw Done else settle_terminal en was))
      | ClTruncated _ \<Rightarrow> andthen (state_get ls_turn) (\<lambda>was. settle_terminal en was)
      | ClRefused \<Rightarrow> andthen (state_get ls_turn) (\<lambda>was. settle_terminal en was)
      | ClHardExit label \<Rightarrow> hard_exit en label
      | ClDispatch calls \<Rightarrow> dispatch_batch en calls)"

definition take_response :: "lib \<Rightarrow> run_config \<Rightarrow> nat \<Rightarrow> response \<Rightarrow> request \<Rightarrow> loop_state \<Rightarrow> claim_outcome \<times> loop_state" where
  "take_response l cfg t resp req st =
     (let st1 = st\<lparr>ls_verify := (ls_verify st)\<lparr>vs_hold := None\<rparr>,
                   ls_anchor := Some \<lparr>ua_messages = length (rq_messages req) - 1,
                                     ua_input_tokens = u_input (rs_usage resp)\<rparr>\<rparr>;
          st2 = snd (finish_provider_msg st1 t
                  (PmSettled (ls_turn st1) (rs_message resp) (rs_stop resp) (Some (billed_usage resp))))
      in step_claim l st2 t (rs_message resp) (rs_stop resp) cfg)"

definition settle_success :: "'w env \<Rightarrow> response \<Rightarrow> request \<Rightarrow> ('w, unit) run" where
  "settle_success en resp req =
     andthen (now en) (\<lambda>t.
     andthen (state_act (take_response (en_lib en) (en_cfg en) t resp req)) (\<lambda>oc.
     andthen (sync en) (\<lambda>_.
     andthen (emit_message_frames (rs_message resp) (Some (billed_usage resp))) (\<lambda>_.
     follow_claim en oc))))"

section \<open>The drive\<close>

definition provider_round :: "'w env \<Rightarrow> ('w, unit) run" where
  "provider_round en =
     andthen (is_cancelled en) (\<lambda>b0.
     andthen (if b0 then ret () else checkpoint en) (\<lambda>_.
     andthen (is_cancelled en) (\<lambda>b1.
     andthen (if b1 then stop_now else ret ()) (\<lambda>_.
     andthen (build_request en) (\<lambda>req.
     andthen (race en (ProviderCalled req) (w_complete en (rc_model (en_cfg en)) req)) (\<lambda>r.
       case r of
         None \<Rightarrow> andthen stop_now (\<lambda>_. settle_provider_error en (Metered LlmCancelled None False))
       | Some (Inl e) \<Rightarrow> settle_provider_error en e
       | Some (Inr resp) \<Rightarrow> settle_success en resp req))))))"

text \<open>One turn of the loop of \<open>drive\<close>; an error ends it.\<close>

definition loop_round :: "'w env \<Rightarrow> ('w, unit) run" where
  "loop_round en =
     andthen (step_head en) (\<lambda>h.
       case h of
         HExit oc \<Rightarrow> throw oc
       | HYield \<Rightarrow> ret ()
       | HAgain \<Rightarrow> ret ()
       | HCall \<Rightarrow> provider_round en)"

text \<open>\<open>None\<close>: the fuel ran out before the run ended.\<close>

fun drive :: "nat \<Rightarrow> 'w env \<Rightarrow> 'w ctx \<Rightarrow> outcome option \<times> 'w ctx" where
  "drive 0 en c = (None, c)"
| "drive (Suc n) en c =
     (case loop_round en c of
        (Inl oc, c') \<Rightarrow> (Some oc, snd (finish en oc c'))
      | (Inr _, c') \<Rightarrow> drive n en c')"

definition start_ctx :: "'w env \<Rightarrow> loop_state \<Rightarrow> emitter \<Rightarrow> bool \<Rightarrow> nat \<Rightarrow> 'w \<Rightarrow> 'w ctx" where
  "start_ctx en st em cancelled t w =
     \<lparr>cx_st = st\<lparr>ls_shape := rc_shape (en_cfg en)\<rparr>, cx_em = em, cx_writer = False, cx_synced = 0,
      cx_rows = [], cx_run_id = 0, cx_cancelled = cancelled, cx_clock = t, cx_world = w, cx_trace = []\<rparr>"

definition run :: "nat \<Rightarrow> 'w env \<Rightarrow> input list \<Rightarrow> 'w ctx \<Rightarrow> outcome option \<times> 'w ctx" where
  "run n en inputs c =
     (case open_run en inputs c of
        (Some oc, c') \<Rightarrow> (Some oc, c')
      | (None, c') \<Rightarrow> drive n en c')"

end
