(* ===== verification/Steps.thy ===== *)
theory Steps
  imports RunLoop
begin

text \<open>
  The loop state as a state machine: \<open>loop_step\<close> has one rule per operation the driver performs on
  it, and \<open>loop_ok\<close> is the invariant they all keep. A run is a sequence of such steps, whatever the
  world answers. The steps that neither occupy the single-flight slot nor open tool calls are the
  quiet ones; only an admitted provider call and a taken response are not.
\<close>

section \<open>The step relation\<close>

inductive quiet_step :: "lib \<Rightarrow> run_config \<Rightarrow> loop_state \<Rightarrow> loop_state \<Rightarrow> bool" for l cfg where
  s_input: "quiet_step l cfg st (apply_input st t inp)"
| s_admit: "quiet_step l cfg st (admit_steering st t)"
| s_failed: "quiet_step l cfg st (snd (finish_provider_msg st t (PmFailed (ls_turn st) e b u)))"
| s_usage: "quiet_step l cfg st (record_usage st u)"
| s_meter: "quiet_step l cfg st (meter st uo)"
| s_stick: "quiet_step l cfg st (stick_turn_reason st r)"
| s_push: "quiet_step l cfg st (push_item st t k)"
| s_open_msg: "quiet_step l cfg st (st\<lparr>ls_open_msg := None\<rparr>)"
| s_emit_id: "quiet_step l cfg st (st\<lparr>ls_emit_next := ls_emit_next st + 1\<rparr>)"
| s_exhausted: "quiet_step l cfg st (if x then st\<lparr>ls_retries := 0\<rparr> else st)"
| s_stop: "quiet_step l cfg st (st\<lparr>ls_stop_hard := True, ls_gate := begin_abort (ls_gate st)\<rparr>)"
| s_fatal: "quiet_step l cfg st (st\<lparr>ls_fatal := Some label, ls_gate := gate_close (ls_gate st) label\<rparr>)"
| s_file_map: "quiet_step l cfg st (st\<lparr>ls_file_map := Some m\<rparr>)"
| s_pins: "quiet_step l cfg st (st\<lparr>ls_pins := Some ps\<rparr>)"
| s_compacted: "quiet_step l cfg st (st\<lparr>ls_compacted := Some (ls_turn st)\<rparr>)"
| s_checkpoint: "0 < i \<Longrightarrow> i < length (derived_messages l st cfg) \<Longrightarrow> quiet_step l cfg st (apply_checkpoint st i s)"
| s_result: "quiet_step l cfg st (snd (record_tool_result st t msg))"
| s_executed: "quiet_step l cfg st (snd (note_tool_execution l st name args r))"
| s_tail: "quiet_step l cfg st (settle_tool_tail st t cfg)"
| s_directive: "quiet_step l cfg st (push_directive st d cfg)"
| s_refund: "quiet_step l cfg st (refund_batch st snap)"
| s_assess: "quiet_step l cfg st (assess_batch rep st)"
| s_verdict: "quiet_step l cfg st (note_verdict rep v st)"
| s_terminate: "quiet_step l cfg st (snd (terminate st cfg t))"

inductive loop_step :: "lib \<Rightarrow> run_config \<Rightarrow> loop_state \<Rightarrow> loop_state \<Rightarrow> bool" for l cfg where
  l_quiet: "quiet_step l cfg st st' \<Longrightarrow> loop_step l cfg st st'"
| l_start: "loop_step l cfg st (snd (start_provider_call st t))"
| l_response: "loop_step l cfg st (snd (take_response l cfg t resp req st))"

section \<open>The invariant\<close>

definition gate_ok :: "loop_state \<Rightarrow> bool" where
  "gate_ok st \<longleftrightarrow>
     (gate_status (ls_gate st) = GateAborting \<longrightarrow> ls_stop_hard st)
     \<and> (gate_status (ls_gate st) = GateClosed \<longrightarrow> ls_fatal st \<noteq> None)"

definition loop_ok :: "nat \<Rightarrow> loop_state \<Rightarrow> bool" where
  "loop_ok a st \<longleftrightarrow>
     gapless (ls_items st) \<and> length (ls_directives st) \<le> DIRECTIVE_CAP
     \<and> ls_retries st \<le> STEP_RETRY_BUDGET \<and> vs_nudges_used (ls_verify st) \<le> VERIFY_NUDGE_CAP
     \<and> distinct (map fst (ls_calls st)) \<and> gate_ok st
     \<and> guard_ok (ls_budget st) \<and> guard_allowance (ls_budget st) \<le> a"

lemma gapless_append [simp]: "gapless its \<Longrightarrow> gapless (append_to its t k)"
  by (auto simp: gapless_def append_to_def Let_def nth_append)

lemma gapless_admit [simp]: "gapless its \<Longrightarrow> gapless (admit_queue its t turn n qs)"
  by (induction its t turn n qs rule: admit_queue.induct) auto

lemma extend_first_seq: "map seq (extend_first s its) = map seq its"
  by (induction s its rule: extend_first.induct) (auto simp: extend_result_def split: item_kind.splits)

lemma gapless_cong:
  assumes "map seq a = map seq b"
  shows "gapless a = gapless b"
proof -
  have "length a = length b" using assms by (metis length_map)
  moreover have "seq (a ! i) = seq (b ! i)" if "i < length a" for i
    using assms that calculation by (metis nth_map)
  ultimately show ?thesis by (auto simp: gapless_def)
qed

lemma extend_first_length [simp]: "length (extend_first s its) = length its"
  by (metis extend_first_seq length_map)

lemma gapless_tail [simp]: "gapless its \<Longrightarrow> gapless (rev (extend_first s (rev its)))"
  using gapless_cong[of "rev (extend_first s (rev its))" its] by (simp add: extend_first_seq flip: rev_map)

lemmas loop_parts = loop_ok_def gate_ok_def

lemma ok_fields [simp]:
  "loop_ok a (st\<lparr>ls_open_msg := x1\<rparr>) = loop_ok a st" "loop_ok a (st\<lparr>ls_emit_next := x2\<rparr>) = loop_ok a st"
  "loop_ok a (st\<lparr>ls_file_map := x3\<rparr>) = loop_ok a st" "loop_ok a (st\<lparr>ls_pins := x4\<rparr>) = loop_ok a st"
  "loop_ok a (st\<lparr>ls_compacted := x5\<rparr>) = loop_ok a st" "loop_ok a (st\<lparr>ls_edits := x6\<rparr>) = loop_ok a st"
  by (simp_all add: loop_parts)

lemma ok_push [simp]: "loop_ok a st \<Longrightarrow> loop_ok a (push_item st t k)"
  by (simp add: loop_parts push_item_def)

lemma ok_open_turn [simp]: "loop_ok a st \<Longrightarrow> loop_ok a (open_turn st t)"
  by (simp add: loop_parts open_turn_def push_item_def Let_def)

lemma ok_enqueue [simp]: "loop_ok a st \<Longrightarrow> loop_ok a (enqueue st t q)"
  by (simp add: loop_parts enqueue_def open_turn_def push_item_def Let_def split: phase.splits)

lemma ok_stop [simp]: "loop_ok a st \<Longrightarrow> loop_ok a (st\<lparr>ls_stop_hard := True, ls_gate := begin_abort (ls_gate st)\<rparr>)"
  by (simp add: loop_parts begin_abort_def)

lemma ok_fatal [simp]: "loop_ok a st \<Longrightarrow> loop_ok a (st\<lparr>ls_fatal := Some e, ls_gate := gate_close (ls_gate st) e\<rparr>)"
  by (simp add: loop_parts gate_close_def)

lemma ok_input [simp]: "loop_ok a st \<Longrightarrow> loop_ok a (apply_input st t inp)"
  using ok_stop[of a st] by (simp add: apply_input_def split: input.splits) (simp add: loop_parts)

lemma ok_admit [simp]: "loop_ok a st \<Longrightarrow> loop_ok a (admit_steering st t)"
  by (simp add: loop_parts admit_steering_def open_turn_def push_item_def Let_def)

lemma ok_budget:
  "loop_ok a st \<Longrightarrow> guard_ok g \<Longrightarrow> guard_allowance g \<le> a \<Longrightarrow> loop_ok a (st\<lparr>ls_budget := g\<rparr>)"
  by (simp add: loop_parts)

lemma ok_filter [simp]: "distinct (map fst xs) \<Longrightarrow> distinct (map fst (filter P xs))"
  by (induction xs) auto

lemma ok_start_refused:
  "loop_ok a st \<Longrightarrow> start_provider_call st t = (False, st') \<Longrightarrow> loop_ok a st'"
  using may_step_Inl[of "ls_budget st" t]
  by (auto simp: start_provider_call_def loop_parts split: if_splits prod.splits sum.splits)

lemma ok_start_admitted:
  assumes "loop_ok a st" "start_provider_call st t = (True, st')"
  shows "0 < a \<and> loop_ok (a - 1) st'"
proof -
  obtain u g where m: "may_step (ls_budget st) t = (Inr u, g)"
    and st': "st' = st\<lparr>ls_in_flight := Some (ls_turn st), ls_step := wrap_add32 (ls_step st) 1,
       ls_budget := record_step g, ls_retries := (if \<not> ls_call_model st then STEP_RETRY_BUDGET else ls_retries st),
       ls_call_model := False, ls_calls := filter (\<lambda>(_, c). cs_result c = None) (ls_calls st)\<rparr>"
    using assms(2) by (auto simp: start_provider_call_def split: if_splits prod.splits sum.splits)
  have ok: "guard_ok (ls_budget st)" "guard_allowance (ls_budget st) \<le> a" using assms(1) by (auto simp: loop_ok_def)
  have "guard_allowance (record_step g) < a" using allowance_admit[OF ok(1) m] ok(2) by simp
  moreover have "guard_ok (record_step g)" using guard_ok_may_step[OF ok(1), of t] m by simp
  ultimately show ?thesis using assms(1) by (auto simp: st' loop_parts)
qed

lemma ok_start [simp]: "loop_ok a st \<Longrightarrow> loop_ok a (snd (start_provider_call st t))"
proof -
  assume ok: "loop_ok a st"
  obtain b st' where s: "start_provider_call st t = (b, st')" by fastforce
  show ?thesis
  proof (cases b)
    case True
    then have "loop_ok (a - 1) st'" using ok_start_admitted[OF ok, of t st'] s by simp
    then show ?thesis using s by (auto simp: loop_ok_def)
  next
    case False
    then show ?thesis using ok_start_refused[OF ok] s by simp
  qed
qed

lemma ok_usage [simp]: "loop_ok a st \<Longrightarrow> loop_ok a (record_usage st u)"
  by (simp add: loop_parts record_usage_def Let_def split: option.splits)

lemma ok_meter [simp]: "loop_ok a st \<Longrightarrow> loop_ok a (meter st u)"
  by (simp add: meter_def split: option.splits)

lemma ok_in_flight [simp]: "loop_ok a (st\<lparr>ls_in_flight := x\<rparr>) = loop_ok a st"
  by (simp add: loop_parts)

lemma ok_call_model [simp]: "loop_ok a (st\<lparr>ls_call_model := x\<rparr>) = loop_ok a st"
  by (simp add: loop_parts)

lemma ok_retries: "loop_ok a st \<Longrightarrow> n \<le> ls_retries st \<Longrightarrow> loop_ok a (st\<lparr>ls_retries := n\<rparr>)"
  by (simp add: loop_parts)

lemma ok_refund_step: "loop_ok a st \<Longrightarrow> loop_ok a (st\<lparr>ls_budget := refund_step (ls_budget st)\<rparr>)"
  using allowance_refund[of "ls_budget st"] by (auto simp: loop_parts)

lemma ok_finish [simp]: "loop_ok a st \<Longrightarrow> loop_ok a (snd (finish_provider_msg st t msg))"
  by (auto simp: finish_provider_msg_def Let_def ok_refund_step ok_retries ok_fatal[unfolded gate_close_def]
      gate_close_def split: provider_msg.splits)


lemma ok_stick [simp]: "loop_ok a st \<Longrightarrow> loop_ok a (stick_turn_reason st r)"
  by (simp add: stick_turn_reason_def loop_parts)

lemma counters_ok:
  assumes "\<And>c. steps (f c) = steps c \<and> tokens (f c) = tokens c \<and> spent_cents (f c) = spent_cents c
    \<and> refunds (f c) = refunds c" "loop_ok a st"
  shows "loop_ok a (update_counters st f)"
proof -
  let ?g = "ls_budget st"
  have "guard_ok (?g\<lparr>counters := f (counters ?g)\<rparr>) = guard_ok ?g"
    "guard_allowance (?g\<lparr>counters := f (counters ?g)\<rparr>) = guard_allowance ?g"
    using assms(1) by (simp_all add: guard_ok_def guard_allowance_def)
  then show ?thesis using assms(2) by (simp add: update_counters_def loop_parts)
qed

lemma ok_executed [simp]: "loop_ok a st \<Longrightarrow> loop_ok a (snd (note_tool_execution l st name args r))"
proof -
  assume ok: "loop_ok a st"
  obtain h st1 where o: "observe_action l st (name @ '':'' @ args) (content r) = (h, st1)" by fastforce
  have c: "loop_ok a (update_counters st (\<lambda>c. c\<lparr>same_action_streak := x c, actions_this_trial := y c\<rparr>))" for x y
    by (rule counters_ok[OF _ ok]) simp
  have "loop_ok a st1"
    using o c by (auto simp: observe_action_def Let_def loop_parts split: if_splits)
  then show ?thesis unfolding note_tool_execution_def o by simp
qed

lemma ok_directive [simp]: "loop_ok a st \<Longrightarrow> loop_ok a (push_directive st d cfg)"
  by (auto simp: push_directive_def loop_parts DIRECTIVE_CAP_def Let_def)

lemma ok_experiment [simp]: "loop_ok a (st\<lparr>ls_experiment := x\<rparr>) = loop_ok a st"
  by (simp add: loop_parts)

lemma ok_queue [simp]: "loop_ok a st \<Longrightarrow> loop_ok a (queue_directives st cfg)"
  by (simp add: queue_directives_def Let_def)

lemma ok_append_tail [simp]: "loop_ok a st \<Longrightarrow> loop_ok a (append_to_tail st s)"
  by (simp add: append_to_tail_def loop_parts)

lemma ok_nudge [simp]: "loop_ok a st \<Longrightarrow> loop_ok a (snd (apply_budget_nudge st t))"
proof -
  assume ok: "loop_ok a st"
  obtain n g where n: "nudge_due (ls_budget st) t = (n, g)" by fastforce
  have "guard_ok g" "guard_allowance g = guard_allowance (ls_budget st)"
    using ok guard_ok_nudge[of "ls_budget st" t] allowance_nudge[of "ls_budget st" t]
    by (auto simp: n loop_ok_def)
  then have "loop_ok a (st\<lparr>ls_budget := g\<rparr>)" by (intro ok_budget) (use ok in \<open>auto simp: loop_ok_def\<close>)
  then show ?thesis using ok by (simp add: apply_budget_nudge_def n split: option.splits nudge.splits)
qed

lemma ok_append_tails: "loop_ok a st \<Longrightarrow> loop_ok a (foldl append_to_tail st ds)"
  by (induction ds arbitrary: st) auto

lemma ok_deliver [simp]: "loop_ok a st \<Longrightarrow> loop_ok a (snd (deliver_directives st))"
  using ok_append_tails[of a st "ls_directives st"] by (simp add: deliver_directives_def loop_parts)

lemma ok_tail [simp]: "loop_ok a st \<Longrightarrow> loop_ok a (settle_tool_tail st t cfg)"
  by (simp add: settle_tool_tail_def)

lemma ok_assistant [simp]: "loop_ok a st \<Longrightarrow> loop_ok a (push_assistant l st t m label)"
  by (simp add: push_assistant_def Let_def)

lemma ok_calls: "loop_ok a st \<Longrightarrow> loop_ok a (st\<lparr>ls_calls := AList.update k v (ls_calls st)\<rparr>)"
  by (simp add: loop_parts distinct_update)

lemma ok_claim_call [simp]: "loop_ok a st \<Longrightarrow> loop_ok a (claim_call l t st tc)"
  using ok_calls[OF ok_push] by (simp add: claim_call_def Let_def)

lemma ok_claim_truncated [simp]: "loop_ok a st \<Longrightarrow> loop_ok a (claim_truncated l t st tc)"
  using ok_calls[OF ok_push[OF ok_push]] by (simp add: claim_truncated_def Let_def)

lemma ok_claims: "loop_ok a st \<Longrightarrow> loop_ok a (foldl (claim_call l t) st tcs)"
  "loop_ok a st \<Longrightarrow> loop_ok a (foldl (claim_truncated l t) st tcs)"
  by (induction tcs arbitrary: st) auto

lemma ok_nudge_due: "loop_ok a st \<Longrightarrow> loop_ok a (snd (verify_nudge_due st t cfg))"
  by (simp add: verify_nudge_due_def Let_def loop_parts)

lemma ok_hold [simp]: "loop_ok a (st\<lparr>ls_verify := (ls_verify st)\<lparr>vs_hold := h\<rparr>\<rparr>) = loop_ok a st"
  by (simp add: loop_parts)

lemma ok_declare [simp]: "loop_ok a st \<Longrightarrow> loop_ok a (snd (claim_declare st t cfg))"
  using ok_nudge_due[of a st t cfg]
  by (auto simp: claim_declare_def Let_def split: prod.splits option.splits)

lemma ok_step_claim [simp]: "loop_ok a st \<Longrightarrow> loop_ok a (snd (step_claim l st t m stop cfg))"
  by (simp add: step_claim_def Let_def ok_claims)

lemma ok_result [simp]: "loop_ok a st \<Longrightarrow> loop_ok a (snd (record_tool_result st t msg))"
proof -
  assume ok: "loop_ok a st"
  have v: "loop_ok a (s\<lparr>ls_calls := x, ls_verify := mark_verified (ls_verify s) c\<rparr>) = loop_ok a (s\<lparr>ls_calls := x\<rparr>)"
    for s x c
    by (simp add: loop_parts mark_verified_def)
  have i: "loop_ok a (push_item st t k\<lparr>ls_calls := AList.update c x (ls_calls (push_item st t k))\<rparr>)" for k c x
    by (rule ok_calls[OF ok_push[OF ok]])
  show ?thesis
    using ok i by (auto simp: record_tool_result_def Let_def v split: option.splits)
qed

lemma ok_refund [simp]: "loop_ok a st \<Longrightarrow> loop_ok a (refund_batch st snap)"
proof -
  assume ok: "loop_ok a st"
  have "loop_ok a (update_counters st (\<lambda>c. c\<lparr>actions_this_trial := bs_actions snap, same_action_streak := bs_streak snap\<rparr>))"
    by (rule counters_ok[OF _ ok]) simp
  then show ?thesis by (simp add: refund_batch_def loop_parts update_counters_def)
qed

lemma ok_terminate [simp]: "loop_ok a st \<Longrightarrow> loop_ok a (snd (terminate st cfg t))"
proof -
  assume ok: "loop_ok a st"
  have hop: "loop_ok a (hop_turn st t goal rest)" for goal rest
  proof -
    have "loop_ok a (st\<lparr>ls_followups := rest, ls_turn_reason := None\<rparr>)" using ok by (simp add: loop_parts)
    then have "loop_ok a (open_turn (push_item (st\<lparr>ls_followups := rest, ls_turn_reason := None\<rparr>) t k) t)" for k by simp
    then show ?thesis by (simp add: hop_turn_def Let_def) (simp add: loop_parts)
  qed
  have "loop_ok a (snd (park st t))"
    using ok hop by (auto simp: park_def loop_parts split: list.splits)
  moreover have "loop_ok a (snd (drain_stop st cfg t))"
    using ok by (simp add: drain_stop_def Let_def loop_parts)
  ultimately show ?thesis
    using ok by (auto simp: terminate_def split: option.splits turn_end_reason.splits)
qed

lemma ok_response [simp]: "loop_ok a st \<Longrightarrow> loop_ok a (snd (take_response l cfg t resp req st))"
proof -
  assume ok: "loop_ok a st"
  have "loop_ok a (st\<lparr>ls_verify := (ls_verify st)\<lparr>vs_hold := None\<rparr>, ls_anchor := x\<rparr>)" for x
    using ok by (simp add: loop_parts)
  then show ?thesis by (simp add: take_response_def Let_def)
qed

lemma quiet_step_ok: "quiet_step l cfg st st' \<Longrightarrow> loop_ok a st \<Longrightarrow> loop_ok a st'"
proof (induction rule: quiet_step.induct)
  case (s_exhausted st x)
  then show ?case using ok_retries[of a st 0] by simp
next
  case (s_checkpoint st i s)
  then show ?case by (simp add: apply_checkpoint_def loop_parts)
next
  case (s_assess st rep)
  then show ?case by (simp add: assess_batch_def Let_def)
next
  case (s_verdict st rep v)
  then show ?case by (simp add: note_verdict_def Let_def)
qed simp_all

lemma loop_step_ok: "loop_step l cfg st st' \<Longrightarrow> loop_ok a st \<Longrightarrow> loop_ok a st'"
  by (induction rule: loop_step.induct) (auto intro: quiet_step_ok)

end
