(* ===== verification/Durable.thy ===== *)
theory Durable
  imports Steps
begin

text \<open>
  What the file holds of the rows in memory. The driver appends rows and sometimes extends the text
  of the newest tool result; \<open>grows\<close> says that this is all it does to the rows, \<open>durable\<close> that the
  file holds a prefix of them up to such an extension. The locale \<open>run_invariant\<close> turns a property
  that every primitive effect keeps into an invariant of whole runs.
\<close>

section \<open>Rows only grow\<close>

definition same_row :: "item \<Rightarrow> item \<Rightarrow> bool" where
  "same_row a b \<longleftrightarrow> a = b \<or>
     (\<exists>cid x y e r. kind a = IToolResult cid x e r \<and> prefix x y \<and> b = a\<lparr>kind := IToolResult cid y e r\<rparr>)"

lemma same_row_refl [simp]: "same_row a a"
  by (simp add: same_row_def)

lemma same_row_trans: "same_row a b \<Longrightarrow> same_row b c \<Longrightarrow> same_row a c"
  unfolding same_row_def by (elim disjE exE conjE) (auto intro: prefix_order.trans)

lemma same_row_kind: "same_row a b \<Longrightarrow> (\<forall>cid x e r. kind b \<noteq> IToolResult cid x e r) \<Longrightarrow> a = b"
  by (auto simp: same_row_def)

definition grows :: "item list \<Rightarrow> item list \<Rightarrow> bool" where
  "grows its its' \<longleftrightarrow> length its \<le> length its' \<and> list_all2 same_row its (take (length its) its')"

lemma grows_refl [simp]: "grows its its"
  by (simp add: grows_def list_all2_refl)

lemma grows_nth: "grows its its' \<longleftrightarrow> length its \<le> length its' \<and> (\<forall>i<length its. same_row (its ! i) (its' ! i))"
  by (auto simp: grows_def list_all2_conv_all_nth)

lemma grows_trans: "grows a b \<Longrightarrow> grows b c \<Longrightarrow> grows a c"
  unfolding grows_nth by (meson le_trans less_le_trans same_row_trans)

lemma grows_append [simp]: "grows its (its @ ys)"
  by (simp add: grows_def list_all2_refl)

lemma grows_append_to [simp]: "grows its m \<Longrightarrow> grows its (append_to m t k)"
  unfolding append_to_def Let_def by (rule grows_trans[OF _ grows_append])

lemma grows_admit [simp]: "grows its (admit_queue its t turn n qs)"
proof (induction its t turn n qs rule: admit_queue.induct)
  case (2 items t turn n q qs)
  then show ?case using grows_trans[OF grows_append_to[OF grows_refl]] by simp
qed simp

lemma extend_result_same: "is_tool_result it \<Longrightarrow> same_row it (extend_result s it)"
  unfolding same_row_def
  by (rule disjI2) (auto simp: extend_result_def split: item_kind.splits intro!: exI[of _ "_ @ _"])

lemma extend_first_same: "list_all2 same_row its (extend_first s its)"
  by (induction s its rule: extend_first.induct) (auto simp: extend_result_same list_all2_refl simp del: is_tool_result.simps)

lemma grows_tail [simp]: "grows its (rev (extend_first s (rev its)))"
proof -
  have "list_all2 same_row (rev (rev its)) (rev (extend_first s (rev its)))"
    unfolding list_all2_rev by (rule extend_first_same)
  then show ?thesis by (simp add: grows_def)
qed

definition st_grows :: "loop_state \<Rightarrow> loop_state \<Rightarrow> bool" where
  "st_grows st st' \<longleftrightarrow> grows (ls_items st) (ls_items st')"

lemma st_grows_refl [simp]: "st_grows st st"
  by (simp add: st_grows_def)

lemma st_grows_trans: "st_grows a b \<Longrightarrow> st_grows b c \<Longrightarrow> st_grows a c"
  unfolding st_grows_def by (rule grows_trans)

lemma st_grows_items: "ls_items b = ls_items a \<Longrightarrow> st_grows a b"
  by (simp add: st_grows_def)

lemma gr_push [simp]: "st_grows st (push_item st t k)"
  by (simp add: st_grows_def push_item_def)

lemma gr_open_turn [simp]: "st_grows st (open_turn st t)"
  by (simp add: st_grows_def open_turn_def push_item_def Let_def)

lemma gr_input [simp]: "st_grows st (apply_input st t inp)"
  by (auto simp: st_grows_def apply_input_def enqueue_def open_turn_def push_item_def Let_def
      split: input.splits phase.splits)

lemma gr_admit [simp]: "st_grows st (admit_steering st t)"
  by (simp add: st_grows_def admit_steering_def open_turn_def push_item_def Let_def)

lemma gr_start [simp]: "st_grows st (snd (start_provider_call st t))"
  by (auto simp: st_grows_def start_provider_call_def split: prod.splits sum.splits)

lemma items_meter [simp]: "ls_items (record_usage st u) = ls_items st" "ls_items (meter st uo) = ls_items st"
  by (simp_all add: record_usage_def meter_def Let_def split: option.splits)

lemma gr_finish [simp]: "st_grows st (snd (finish_provider_msg st t msg))"
  by (auto simp: st_grows_def finish_provider_msg_def push_item_def Let_def split: provider_msg.splits)

lemma items_misc [simp]: "ls_items (stick_turn_reason st r) = ls_items st"
  "ls_items (update_counters st f) = ls_items st" "ls_items (push_directive st d cfg) = ls_items st"
  "ls_items (refund_batch st snap) = ls_items st" "ls_items (apply_checkpoint st i s) = ls_items st"
  "ls_items (assess_batch rep st) = ls_items st" "ls_items (note_verdict rep v st) = ls_items st"
  "ls_items (snd (verify_nudge_due st t cfg)) = ls_items st"
  by (simp_all add: stick_turn_reason_def update_counters_def push_directive_def refund_batch_def
      apply_checkpoint_def assess_batch_def note_verdict_def verify_nudge_due_def Let_def)

lemma items_executed [simp]: "ls_items (snd (note_tool_execution l st name args r)) = ls_items st"
  by (simp add: note_tool_execution_def observe_action_def Let_def split: prod.splits)

lemma items_queue [simp]: "ls_items (queue_directives st cfg) = ls_items st"
  by (simp add: queue_directives_def Let_def)

lemma gr_append_tail [simp]: "st_grows st (append_to_tail st s)"
  by (simp add: st_grows_def append_to_tail_def)

lemma gr_append_tails: "st_grows st (foldl append_to_tail st ds)"
proof (induction ds arbitrary: st)
  case (Cons d ds)
  show ?case using st_grows_trans[OF gr_append_tail Cons.IH] by simp
qed simp

lemma gr_nudge [simp]: "st_grows st (snd (apply_budget_nudge st t))"
  by (auto simp: apply_budget_nudge_def st_grows_def append_to_tail_def split: prod.splits option.splits nudge.splits)

lemma gr_deliver [simp]: "st_grows st (snd (deliver_directives st))"
  using gr_append_tails[of st "ls_directives st"] by (simp add: deliver_directives_def st_grows_def)

lemma gr_tail [simp]: "st_grows st (settle_tool_tail st t cfg)"
proof -
  have "st_grows st (queue_directives st cfg)" by (simp add: st_grows_items)
  then show ?thesis
    unfolding settle_tool_tail_def by (meson st_grows_trans gr_nudge gr_deliver)
qed

lemma gr_assistant [simp]: "st_grows st (push_assistant l st t m label)"
  by (simp add: push_assistant_def Let_def)

lemma gr_claim [simp]: "st_grows st (claim_call l t st tc)" "st_grows st (claim_truncated l t st tc)"
  by (simp_all add: st_grows_def claim_call_def claim_truncated_def push_item_def Let_def)

lemma gr_claims: "st_grows st (foldl (claim_call l t) st tcs)" "st_grows st (foldl (claim_truncated l t) st tcs)"
proof (induction tcs arbitrary: st)
  case (Cons tc tcs)
  {
    case 1
    show ?case using st_grows_trans[OF gr_claim(1) Cons(1)] by simp
  next
    case 2
    show ?case using st_grows_trans[OF gr_claim(2) Cons(2)] by simp
  }
qed simp_all

lemma gr_declare [simp]: "st_grows st (snd (claim_declare st t cfg))"
proof -
  obtain n st1 where n: "verify_nudge_due st t cfg = (n, st1)" by fastforce
  then have "ls_items st1 = ls_items st" by (metis items_misc(8) snd_conv)
  then show ?thesis by (auto simp: claim_declare_def n st_grows_def push_item_def Let_def split: option.splits)
qed

lemma gr_step_claim [simp]: "st_grows st (snd (step_claim l st t m stop cfg))"
proof -
  have "st_grows st (push_assistant l (stick_turn_reason (foldl (claim_truncated l t) st (am_tool_calls m)) r) t m s)" for r s
    using st_grows_trans[OF gr_claims(2) st_grows_trans[OF st_grows_items gr_assistant]] items_misc(1) by blast
  moreover have "st_grows st (stick_turn_reason (push_assistant l st t m s) r)" for s r
    using gr_assistant by (simp add: st_grows_def)
  moreover have "st_grows st (foldl (claim_call l t) (push_assistant l st t m s) (am_tool_calls m))" for s
    by (rule st_grows_trans[OF gr_assistant gr_claims(1)])
  moreover have "st_grows st (snd (claim_declare (push_assistant l st t m s) t cfg))" for s
    by (rule st_grows_trans[OF gr_assistant gr_declare])
  ultimately show ?thesis by (simp add: step_claim_def Let_def)
qed

lemma gr_result [simp]: "st_grows st (snd (record_tool_result st t msg))"
  by (auto simp: record_tool_result_def st_grows_def push_item_def Let_def split: option.splits)

lemma gr_terminate [simp]: "st_grows st (snd (terminate st cfg t))"
proof -
  have "st_grows st (hop_turn st t goal rest)" for goal rest
    by (auto simp: hop_turn_def st_grows_def open_turn_def push_item_def Let_def)
  then have "st_grows st (snd (park st t))"
    by (auto simp: park_def st_grows_items split: list.splits)
  moreover have "st_grows st (snd (drain_stop st cfg t))"
    by (simp add: drain_stop_def Let_def st_grows_items)
  ultimately show ?thesis by (auto simp: terminate_def split: option.splits turn_end_reason.splits)
qed

lemma gr_response [simp]: "st_grows st (snd (take_response l cfg t resp req st))"
proof -
  let ?st1 = "st\<lparr>ls_verify := (ls_verify st)\<lparr>vs_hold := None\<rparr>,
    ls_anchor := Some \<lparr>ua_messages = length (rq_messages req) - 1, ua_input_tokens = u_input (rs_usage resp)\<rparr>\<rparr>"
  have "st_grows st ?st1" by (simp add: st_grows_items)
  then show ?thesis
    unfolding take_response_def Let_def by (rule st_grows_trans[OF st_grows_trans[OF _ gr_finish] gr_step_claim])
qed

lemma quiet_step_grows: "quiet_step l cfg st st' \<Longrightarrow> st_grows st st'"
  by (induction rule: quiet_step.induct) (simp_all add: st_grows_items)

lemma loop_step_grows: "loop_step l cfg st st' \<Longrightarrow> st_grows st st'"
  by (induction rule: loop_step.induct) (auto intro: quiet_step_grows)

end
