(* ===== verification/Invariants.thy ===== *)
theory Invariants
  imports Durable
begin

text \<open>
  Invariants of whole runs. \<open>durable\<close> relates the file to the rows in memory; the locale
  \<open>quiet_invariant\<close> is the interface between a property of the run's context and the driver: its laws
  say that the property survives every primitive effect and every quiet step of the loop state, its
  lemmas that it then survives every phase of the driver but the provider admission and the claim.
  \<open>run_invariant\<close> adds those two, and its lemmas reach to the end of the run.
\<close>

section \<open>The durable prefix\<close>

definition durable :: "'w ctx \<Rightarrow> bool" where
  "durable c \<longleftrightarrow>
     cx_writer c \<longrightarrow>
       cx_synced c \<le> length (ls_items (cx_st c))
       \<and> list_all2 same_row (cx_rows c) (take (cx_synced c) (ls_items (cx_st c)))"

definition call_row :: "tool_call \<Rightarrow> item \<Rightarrow> bool" where
  "call_row c it \<longleftrightarrow> kind it = IToolCall (call_id c) (call_name c) (call_args c)"

text \<open>The rows of the calls \<open>cs\<close> are in the file.\<close>

definition calls_durable :: "tool_call list \<Rightarrow> 'w ctx \<Rightarrow> bool" where
  "calls_durable cs c \<longleftrightarrow> (cx_writer c \<longrightarrow> (\<forall>t\<in>set cs. \<exists>it\<in>set (cx_rows c). call_row t it))"

definition exec_ok :: "'w env \<Rightarrow> 'w ctx \<Rightarrow> invocation \<Rightarrow> bool" where
  "exec_ok en c iv \<longleftrightarrow>
     (\<exists>t. prepare (en_registry en) (en_agent en) t = Dispatch iv
        \<and> (cx_writer c \<longrightarrow> (\<exists>it\<in>set (cx_rows c). call_row t it)))"

text \<open>The context right after the run's first frame.\<close>

definition just_opened :: "'w ctx \<Rightarrow> bool" where
  "just_opened c \<longleftrightarrow> cx_synced c = 0 \<and> cx_rows c = [] \<and> (\<exists>rid goal. cx_trace c = [Emitted (RunStart rid goal)])"

fun boundary :: "agent_event \<Rightarrow> bool" where
  "boundary (RunStart _ _) = True"
| "boundary (RunEnd _ _) = True"
| "boundary _ = False"

lemma durable_grows:
  assumes "durable c" "st_grows (cx_st c) st"
  shows "durable (c\<lparr>cx_st := st\<rparr>)"
proof -
  have g: "length (ls_items (cx_st c)) \<le> length (ls_items st)"
    "\<And>i. i < length (ls_items (cx_st c)) \<Longrightarrow> same_row (ls_items (cx_st c) ! i) (ls_items st ! i)"
    using assms(2) by (auto simp: st_grows_def grows_nth)
  show ?thesis
    unfolding durable_def list_all2_conv_all_nth
  proof (intro impI conjI allI)
    assume w: "cx_writer (c\<lparr>cx_st := st\<rparr>)"
    then have d: "cx_synced c \<le> length (ls_items (cx_st c))" "length (cx_rows c) = cx_synced c"
      "\<And>i. i < cx_synced c \<Longrightarrow> same_row (cx_rows c ! i) (ls_items (cx_st c) ! i)"
      using assms(1) by (auto simp: durable_def list_all2_conv_all_nth)
    show "cx_synced (c\<lparr>cx_st := st\<rparr>) \<le> length (ls_items (cx_st (c\<lparr>cx_st := st\<rparr>)))"
      "length (cx_rows (c\<lparr>cx_st := st\<rparr>)) = length (take (cx_synced (c\<lparr>cx_st := st\<rparr>)) (ls_items (cx_st (c\<lparr>cx_st := st\<rparr>))))"
      using d g(1) by simp_all
    fix i
    assume "i < length (cx_rows (c\<lparr>cx_st := st\<rparr>))"
    then have i: "i < cx_synced c" using d by simp
    then have "i < length (ls_items (cx_st c))" using d(1) by simp
    then have "same_row (cx_rows c ! i) (ls_items st ! i)" using same_row_trans[OF d(3)[OF i] g(2)] by blast
    then show "same_row (cx_rows (c\<lparr>cx_st := st\<rparr>) ! i) (take (cx_synced (c\<lparr>cx_st := st\<rparr>)) (ls_items (cx_st (c\<lparr>cx_st := st\<rparr>))) ! i)"
      using i by simp
  qed
qed

lemma durable_append:
  assumes "durable c" "cx_writer c" "cx_synced c < length (ls_items (cx_st c))"
  shows "durable (c\<lparr>cx_synced := cx_synced c + 1, cx_rows := cx_rows c @ [ls_items (cx_st c) ! cx_synced c],
      cx_trace := tr\<rparr>)"
  using assms by (simp add: durable_def take_Suc_conv_app_nth list_all2_appendI)

lemma durable_calls:
  assumes "durable c" "cx_writer c \<longrightarrow> length (ls_items (cx_st c)) \<le> cx_synced c"
    "\<forall>t\<in>set cs. \<exists>it\<in>set (ls_items (cx_st c)). call_row t it"
  shows "calls_durable cs c"
  unfolding calls_durable_def
proof (intro impI ballI)
  fix t
  assume w: "cx_writer c" and "t \<in> set cs"
  then obtain it where it: "it \<in> set (ls_items (cx_st c))" "call_row t it" using assms(3) by blast
  have "list_all2 same_row (cx_rows c) (ls_items (cx_st c))" using assms(1,2) w by (simp add: durable_def)
  then obtain r where "r \<in> set (cx_rows c)" "same_row r it"
    using it(1) by (metis list_all2_conv_all_nth in_set_conv_nth)
  moreover then have "r = it" using it(2) same_row_kind by (fastforce simp: call_row_def)
  ultimately show "\<exists>it\<in>set (cx_rows c). call_row t it" using it(2) by blast
qed

section \<open>Invariants of whole runs\<close>

text \<open>Where the operations of a world can take it. An invariant may speak of the world as far as these moves keep it.\<close>

locale moving_world =
  fixes en :: "'w env" and moves :: "'w \<Rightarrow> 'w \<Rightarrow> bool"
  assumes m_clock: "moves w (snd (w_clock en w))"
    and m_cancel: "moves w (snd (w_cancel en w))"
    and m_complete: "moves w (snd (w_complete en (rc_model (en_cfg en)) req w))"
    and m_execute: "prepare (en_registry en) (en_agent en) t = Dispatch iv \<Longrightarrow> moves w (snd (w_execute en iv w))"
    and m_log_open: "rc_log_path (en_cfg en) = Some p \<Longrightarrow> moves w (snd (w_log_open en p w))"
    and m_append: "moves w (snd (w_append en it w))"
    and m_ensure: "moves w (snd (w_ensure en w))"
    and m_baseline: "moves w (snd (w_baseline en w))"
    and m_rollback: "moves w (snd (w_rollback en w))"
    and m_restore: "moves w (snd (w_restore en hs w))"
    and m_diff: "moves w (snd (w_diff en w))"
    and m_patch: "moves w (snd (w_patch en w))"
    and m_probe: "rc_proof_cmd (en_cfg en) = Some cmd \<Longrightarrow> moves w (snd (w_probe en (split_whitespace cmd) w))"
    and m_listing: "moves w (snd (w_listing en w))"
    and m_read_file: "moves w (snd (w_read_file en f w))"
    and m_bets_head: "moves w (snd (w_bets_head en n w))"
    and m_bets_batch: "moves w (snd (w_bets_batch en cl flags w))"
    and m_bets_step: "moves w (snd (w_bets_step en w))"
begin

lemmas world_moves = m_clock m_cancel m_complete m_log_open m_append m_ensure m_baseline m_rollback m_restore
  m_diff m_patch m_listing m_read_file m_bets_head m_bets_batch m_bets_step

end

text \<open>An invariant that says nothing of the world needs nothing of it.\<close>

interpretation any_world: moving_world en "\<lambda>_ _. True" for en
  by unfold_locales auto

locale quiet_invariant = moving_world +
  fixes J :: "'w ctx \<Rightarrow> bool"
  assumes J_world: "J c \<Longrightarrow> moves (cx_world c) w \<Longrightarrow> J (c\<lparr>cx_world := w\<rparr>)"
    and J_clock: "J c \<Longrightarrow> J (c\<lparr>cx_clock := t\<rparr>)"
    and J_cancel: "J c \<Longrightarrow> J (c\<lparr>cx_cancelled := b\<rparr>)"
    and J_step: "J c \<Longrightarrow> quiet_step (en_lib en) (en_cfg en) (cx_st c) st \<Longrightarrow> J (c\<lparr>cx_st := st\<rparr>)"
    and J_emit: "J c \<Longrightarrow> \<not> boundary ev \<Longrightarrow>
      J (c\<lparr>cx_em := emit (cx_em c) ev, cx_trace := cx_trace c @ [Emitted ev]\<rparr>)"
    and J_append: "J c \<Longrightarrow> durable c \<Longrightarrow> cx_writer c \<Longrightarrow> cx_synced c < length (ls_items (cx_st c)) \<Longrightarrow>
      it = ls_items (cx_st c) ! cx_synced c \<Longrightarrow>
      J (c\<lparr>cx_synced := cx_synced c + 1, cx_rows := cx_rows c @ [it], cx_trace := cx_trace c @ [RowSynced it]\<rparr>)"
    and J_called: "J c \<Longrightarrow> J (c\<lparr>cx_trace := cx_trace c @ [ProviderCalled req]\<rparr>)"
    and J_moved: "J c \<Longrightarrow> J (c\<lparr>cx_trace := cx_trace c @ [TreeMoved]\<rparr>)"
    and J_exec: "J c \<Longrightarrow> exec_ok en c iv \<Longrightarrow> J (c\<lparr>cx_trace := cx_trace c @ [ToolExecuted iv]\<rparr>)"
    and J_writer: "J c \<Longrightarrow> just_opened c \<Longrightarrow> J (c\<lparr>cx_writer := True\<rparr>)"
begin

definition K :: "tool_call list \<Rightarrow> 'w ctx \<Rightarrow> bool" where
  "K cs c \<longleftrightarrow> J c \<and> durable c \<and> calls_durable cs c"

lemma K_world: "K cs c \<Longrightarrow> moves (cx_world c) w \<Longrightarrow> K cs (c\<lparr>cx_world := w\<rparr>)"
  using J_world by (simp add: K_def durable_def calls_durable_def)

lemma K_clock: "K cs c \<Longrightarrow> K cs (c\<lparr>cx_clock := t\<rparr>)"
  using J_clock by (simp add: K_def durable_def calls_durable_def)

lemma K_cancel: "K cs c \<Longrightarrow> K cs (c\<lparr>cx_cancelled := b\<rparr>)"
  using J_cancel by (simp add: K_def durable_def calls_durable_def)

lemma K_step: "K cs c \<Longrightarrow> quiet_step (en_lib en) (en_cfg en) (cx_st c) st \<Longrightarrow> K cs (c\<lparr>cx_st := st\<rparr>)"
  using J_step durable_grows quiet_step_grows by (fastforce simp: K_def calls_durable_def)

lemma K_weaken: "K cs c \<Longrightarrow> K [] c"
  by (simp add: K_def calls_durable_def)

lemma K_subset: "K cs c \<Longrightarrow> set ds \<subseteq> set cs \<Longrightarrow> K ds c"
  by (auto simp: K_def calls_durable_def)

lemma keeps_world [keeps_rules]: "(\<And>w. moves w (snd (f w))) \<Longrightarrow> keeps (K cs) (world f)"
  unfolding world_def by (rule keeps_act) (metis K_world case_prod_beta snd_conv)

lemma keeps_now [keeps_rules]: "keeps (K cs) (now en)"
  unfolding now_def
proof (rule keeps_act)
  fix c
  assume k: "K cs c"
  obtain d w where w: "w_clock en (cx_world c) = (d, w)" by fastforce
  then have "K cs (c\<lparr>cx_clock := t, cx_world := w\<rparr>)" for t
    using K_world[OF K_clock[OF k, of t], of w] m_clock[of "cx_world c"] by simp
  then show "K cs (snd (case w_clock en (cx_world c) of
      (d, w) \<Rightarrow> (cx_clock c + d, c\<lparr>cx_clock := cx_clock c + d, cx_world := w\<rparr>)))"
    using w by simp
qed

lemma keeps_cancelled [keeps_rules]: "keeps (K cs) (is_cancelled en)"
  unfolding is_cancelled_def
proof (rule keeps_act)
  fix c
  assume k: "K cs c"
  obtain b w where w: "w_cancel en (cx_world c) = (b, w)" by fastforce
  then have "K cs (c\<lparr>cx_cancelled := b, cx_world := w\<rparr>)"
    using K_world[OF K_cancel[OF k, of b], of w] m_cancel[of "cx_world c"] by simp
  then show "K cs (snd (if cx_cancelled c then (True, c)
      else (case w_cancel en (cx_world c) of (b, w) \<Rightarrow> (b, c\<lparr>cx_cancelled := b, cx_world := w\<rparr>))))"
    using w k by simp
qed

lemma keeps_state_get [keeps_rules]: "keeps (K cs) (state_get f)"
  unfolding state_get_def by (rule keeps_gets)

lemma keeps_state_do: "(\<And>st. quiet_step (en_lib en) (en_cfg en) st (f st)) \<Longrightarrow> keeps (K cs) (state_do f)"
  unfolding state_do_def by (rule keeps_modify) (rule K_step)

lemma keeps_state_act: "(\<And>st. quiet_step (en_lib en) (en_cfg en) st (snd (f st))) \<Longrightarrow> keeps (K cs) (state_act f)"
  unfolding state_act_def by (rule keeps_act) (metis (no_types, lifting) K_step case_prod_beta snd_conv)

lemma keeps_emit [keeps_rules]: "\<not> boundary ev \<Longrightarrow> keeps (K cs) (emit_ev ev)"
  unfolding emit_ev_def by (rule keeps_modify) (use J_emit in \<open>simp add: K_def durable_def calls_durable_def\<close>)

lemma keeps_called [keeps_rules]: "keeps (K cs) (observe (ProviderCalled req))"
  unfolding observe_def by (rule keeps_modify) (use J_called in \<open>simp add: K_def durable_def calls_durable_def\<close>)

lemma keeps_moved [keeps_rules]: "keeps (K cs) (observe TreeMoved)"
  unfolding observe_def by (rule keeps_modify) (use J_moved in \<open>simp add: K_def durable_def calls_durable_def\<close>)

lemma append_row_step:
  assumes k: "K cs c" and w: "cx_writer c" and l: "cx_synced c < length (ls_items (cx_st c))"
    and it: "it = ls_items (cx_st c) ! cx_synced c"
  shows "K cs (snd (append_row en it c))"
    and "append_row en it c = (Inr u, c') \<Longrightarrow>
      cx_writer c' \<and> cx_st c' = cx_st c \<and> cx_synced c' = cx_synced c + 1"
proof -
  let ?w = "snd (w_append en it (cx_world c))" and ?c = "c\<lparr>cx_world := snd (w_append en it (cx_world c))\<rparr>"
  have moved: "K cs ?c" by (rule K_world[OF k m_append])
  then have "J ?c" "durable ?c" "calls_durable cs ?c" by (auto simp: K_def)
  then have "K cs (c\<lparr>cx_world := ?w, cx_synced := cx_synced c + 1, cx_rows := cx_rows c @ [it],
      cx_trace := cx_trace c @ [RowSynced it]\<rparr>)"
    using J_append[of ?c it] durable_append[of ?c] w l it by (auto simp: K_def calls_durable_def)
  then show "K cs (snd (append_row en it c))"
    using moved
    by (auto simp: append_row_def andthen_def world_def act_def modify_def throw_def split: prod.splits)
  show "append_row en it c = (Inr u, c') \<Longrightarrow> cx_writer c' \<and> cx_st c' = cx_st c \<and> cx_synced c' = cx_synced c + 1"
    using w by (auto simp: append_row_def andthen_def world_def act_def modify_def throw_def
        split: prod.splits if_splits)
qed

definition all_synced :: "loop_state \<Rightarrow> (outcome + unit) \<times> 'w ctx \<Rightarrow> bool" where
  "all_synced st r \<longleftrightarrow>
     (\<forall>u c'. r = (Inr u, c') \<longrightarrow> cx_st c' = st \<and> length (ls_items (cx_st c')) \<le> cx_synced c')"

lemma all_synced_err: "all_synced st (Inl e, c)"
  by (simp add: all_synced_def)

lemma append_rows_step:
  "K cs c \<Longrightarrow> cx_writer c \<Longrightarrow> cx_synced c \<le> length (ls_items (cx_st c)) \<Longrightarrow>
   xs = drop (cx_synced c) (ls_items (cx_st c)) \<Longrightarrow>
   K cs (snd (for_each (append_row en) xs c))
   \<and> all_synced (cx_st c) (for_each (append_row en) xs c)"
proof (induction xs arbitrary: c)
  case Nil
  then show ?case by (simp add: ret_def all_synced_def)
next
  case (Cons x xs)
  have l: "cx_synced c < length (ls_items (cx_st c))"
    using Cons.prems(4) by (metis drop_eq_Nil linorder_not_less list.distinct(1))
  have x: "x = ls_items (cx_st c) ! cx_synced c" "xs = drop (cx_synced c + 1) (ls_items (cx_st c))"
    using Cons.prems(4) l by (simp_all add: Cons_nth_drop_Suc[symmetric])
  note st = append_row_step[OF Cons.prems(1,2) l x(1)]
  obtain r c1 where a: "append_row en x c = (r, c1)" by fastforce
  show ?case
  proof (cases r)
    case (Inl e)
    then have "for_each (append_row en) (x # xs) c = (Inl e, c1)" using a by (simp add: andthen_def)
    then show ?thesis using st(1) a by (simp add: all_synced_err del: for_each.simps)
  next
    case (Inr u)
    have c1: "cx_writer c1" "cx_st c1 = cx_st c" "cx_synced c1 = cx_synced c + 1"
      using st(2)[OF a[unfolded Inr]] by auto
    have k1: "K cs c1" using st(1) a by simp
    have "K cs (snd (for_each (append_row en) xs c1))
      \<and> all_synced (cx_st c1) (for_each (append_row en) xs c1)"
      by (rule Cons.IH) (use c1 k1 l x in simp_all)
    moreover have "for_each (append_row en) (x # xs) c = for_each (append_row en) xs c1"
      using a Inr by (simp add: andthen_def)
    ultimately show ?thesis using c1(2) by (simp del: for_each.simps)
  qed
qed

lemma keeps_sync [keeps_rules]: "keeps (K cs) (sync en)"
proof (rule keepsI)
  fix c
  assume k: "K cs c"
  show "K cs (snd (sync en c))"
    using append_rows_step[OF k _ _ refl] k by (simp add: sync_def)
qed

lemma sync_all:
  assumes "K cs c" "sync en c = (Inr u, c')"
  shows "cx_st c' = cx_st c \<and> (cx_writer c' \<longrightarrow> length (ls_items (cx_st c')) \<le> cx_synced c')"
proof (cases "\<not> cx_writer c \<or> length (ls_items (cx_st c)) \<le> cx_synced c")
  case True
  then show ?thesis using assms(2) by (auto simp: sync_def split: if_splits)
next
  case False
  then have "cx_writer c" "cx_synced c \<le> length (ls_items (cx_st c))" by simp_all
  then have "all_synced (cx_st c) (for_each (append_row en) (drop (cx_synced c) (ls_items (cx_st c))) c)"
    using append_rows_step[OF assms(1) _ _ refl] by blast
  moreover have "for_each (append_row en) (drop (cx_synced c) (ls_items (cx_st c))) c = (Inr u, c')"
    using assms(2) False by (simp add: sync_def)
  ultimately show ?thesis unfolding all_synced_def by blast
qed

end

section \<open>The phases of the driver\<close>

lemma keeps_verdict [keeps_rules]:
  "(\<And>oc. v = Return oc \<Longrightarrow> keeps I (f oc)) \<Longrightarrow> (v = Break \<Longrightarrow> keeps I g) \<Longrightarrow> (v = Continue \<Longrightarrow> keeps I h) \<Longrightarrow>
   keeps I (case v of Return oc \<Rightarrow> f oc | Break \<Rightarrow> g | Continue \<Rightarrow> h)"
  by (cases v) auto

lemma keeps_commit [keeps_rules]:
  "keeps I f \<Longrightarrow> (\<And>sp. keeps I (g sp)) \<Longrightarrow> (\<And>r. keeps I (h r)) \<Longrightarrow>
   keeps I (case v of Committed \<Rightarrow> f | Partial sp \<Rightarrow> g sp | Aborted r \<Rightarrow> h r)"
  by (cases v) auto

lemma keeps_head [keeps_rules]:
  "(h = HCall \<Longrightarrow> keeps I a) \<Longrightarrow> keeps I b \<Longrightarrow> keeps I d \<Longrightarrow> (\<And>oc. keeps I (e oc)) \<Longrightarrow>
   keeps I (case h of HCall \<Rightarrow> a | HYield \<Rightarrow> b | HAgain \<Rightarrow> d | HExit oc \<Rightarrow> e oc)"
  by (cases h) auto

lemma keeps_list [keeps_rules]:
  "keeps I f \<Longrightarrow> (\<And>y ys. xs = y # ys \<Longrightarrow> keeps I (g y ys)) \<Longrightarrow> keeps I (case xs of [] \<Rightarrow> f | y # ys \<Rightarrow> g y ys)"
  by (cases xs) auto

context quiet_invariant begin

declare world_moves [keeps_rules]

lemma keeps_race: "(\<And>w. moves w (snd (f w))) \<Longrightarrow> keeps (K cs) (observe e) \<Longrightarrow> keeps (K cs) (race en e f)"
proof -
  have "keeps (K cs) (modify (\<lambda>c. c\<lparr>cx_cancelled := True\<rparr>))" by (rule keeps_modify) (rule K_cancel)
  then show "(\<And>w. moves w (snd (f w))) \<Longrightarrow> keeps (K cs) (observe e) \<Longrightarrow> keeps (K cs) (race en e f)"
    unfolding race_def by (intro keeps_rules) assumption+
qed

lemma keeps_execute:
  assumes "prepare (en_registry en) (en_agent en) t = Dispatch iv" "t \<in> set cs"
  shows "keeps (K cs) (observe (ToolExecuted iv))"
proof -
  have "exec_ok en c iv" if "K cs c" for c
    using that assms unfolding K_def calls_durable_def exec_ok_def by blast
  then show ?thesis
    unfolding observe_def by (intro keeps_modify) (use J_exec in \<open>simp add: K_def durable_def calls_durable_def\<close>)
qed

lemma state_steps [keeps_rules]:
  "keeps (K cs) (state_do (\<lambda>st. push_item st t k))"
  "keeps (K cs) (state_do (\<lambda>st. stick_turn_reason st r))"
  "keeps (K cs) (state_do (\<lambda>st. apply_input st t inp))"
  "keeps (K cs) (state_do (\<lambda>st. admit_steering st t))"
  "keeps (K cs) (state_do (\<lambda>st. st\<lparr>ls_file_map := Some m\<rparr>))"
  "keeps (K cs) (state_do (\<lambda>st. st\<lparr>ls_pins := Some ps\<rparr>))"
  "keeps (K cs) (state_do (\<lambda>st. st\<lparr>ls_compacted := Some (ls_turn st)\<rparr>))"
  "keeps (K cs) (state_do (\<lambda>st. record_usage st u))"
  "keeps (K cs) (state_do (\<lambda>st. meter st uo))"
  "keeps (K cs) (state_do (\<lambda>st. if x then st\<lparr>ls_retries := 0\<rparr> else st))"
  "keeps (K cs) (state_do (\<lambda>st. snd (finish_provider_msg st t (PmFailed (ls_turn st) e b uo))))"
  "keeps (K cs) (state_do (\<lambda>st. snd (record_tool_result st t msg)))"
  "keeps (K cs) (state_do (\<lambda>st. snd (note_tool_execution (en_lib en) st name args res)))"
  "keeps (K cs) (state_do (\<lambda>st. settle_tool_tail st t (en_cfg en)))"
  "keeps (K cs) (state_do (\<lambda>st. push_directive st d (en_cfg en)))"
  "keeps (K cs) (state_do (\<lambda>st. refund_batch st snap))"
  "keeps (K cs) (state_do (assess_batch rep))"
  "keeps (K cs) (state_do (note_verdict rep v))"
  "keeps (K cs) (state_do (\<lambda>st. st\<lparr>ls_fatal := Some label, ls_gate := gate_close (ls_gate st) label\<rparr>))"
  "keeps (K cs) stop_now"
  unfolding stop_now_def by (rule keeps_state_do; rule quiet_step.intros)+

lemma act_steps [keeps_rules]:
  "keeps (K cs) (state_act next_emit_id)"
  "keeps (K cs) (state_act (\<lambda>st. (ls_open_msg st, st\<lparr>ls_open_msg := None\<rparr>)))"
  "keeps (K cs) (state_act (\<lambda>st. terminate st (en_cfg en) t))"
proof -
  have "keeps (K cs) (state_act (\<lambda>st. (ls_emit_next st, st\<lparr>ls_emit_next := ls_emit_next st + 1\<rparr>)))"
    by (rule keeps_state_act, unfold snd_conv, rule quiet_step.s_emit_id)
  then show "keeps (K cs) (state_act next_emit_id)" by (simp only: next_emit_id_def[abs_def])
qed (rule keeps_state_act, simp add: quiet_step.intros)+

lemma keeps_record_row [keeps_rules]: "(\<And>ev. frame = Some ev \<Longrightarrow> \<not> boundary ev) \<Longrightarrow> keeps (K cs) (record_row en k frame)"
  unfolding record_row_def by (intro keeps_rules) auto

lemma keeps_close_hop [keeps_rules]: "keeps (K cs) (close_hop en was)"
  unfolding close_hop_def by (intro keeps_rules) auto

lemma keeps_terminate [keeps_rules]: "keeps (K cs) (do_terminate en)"
  unfolding do_terminate_def by (intro keeps_rules)

lemma keeps_settle_terminal [keeps_rules]: "keeps (K cs) (settle_terminal en was)"
  unfolding settle_terminal_def by (intro keeps_rules)

lemma keeps_frames [keeps_rules]: "keeps (K cs) (emit_message_frames m u)"
  unfolding emit_message_frames_def Let_def by (intro keeps_rules) auto

lemma keeps_read_pin [keeps_rules]: "keeps (K cs) (read_pin en f)"
  unfolding read_pin_def by (intro keeps_rules)

lemma keeps_pin_snapshot [keeps_rules]: "keeps (K cs) (pin_snapshot en fs)"
proof (induction fs)
  case (Cons f fs)
  show ?case unfolding pin_snapshot.simps by (intro keeps_rules Cons)
qed (simp add: keeps_ret)

lemma keeps_unchanged [keeps_rules]: "keeps (K cs) (unchanged_pins en ps)"
proof (induction ps)
  case (Cons p ps)
  then show ?case by (cases p) (simp, intro keeps_rules)
qed (simp add: keeps_ret)

lemma keeps_file_map [keeps_rules]: "keeps (K cs) (read_file_map en)"
  unfolding read_file_map_def by (intro keeps_rules)

lemma keeps_build [keeps_rules]: "keeps (K cs) (build_request en)"
  unfolding build_request_def by (intro keeps_rules)

lemma keeps_tree [keeps_rules]: "(\<And>w. moves w (snd (f w))) \<Longrightarrow> keeps (K cs) (tree_do f label)"
  unfolding tree_do_def by (intro keeps_rules)

text \<open>The cut is made on the state the summary is applied to: what happens in between leaves the
  transcript alone.\<close>

definition at_cut :: "nat \<Rightarrow> 'w ctx \<Rightarrow> bool" where
  "at_cut i c \<longleftrightarrow> 0 < i \<and> i < length (derived_messages (en_lib en) (cx_st c) (en_cfg en))"

lemma triple_cut:
  "triple (K cs) (state_get (checkpoint_cut (en_lib en) (en_cfg en)))
     (\<lambda>due c. K cs c \<and> (\<forall>i req. due = Some (i, req) \<longrightarrow> at_cut i c)) E"
  unfolding state_get_def
proof (rule triple_gets, intro conjI allI impI)
  fix c :: "'w ctx" and i req
  assume "checkpoint_cut (en_lib en) (en_cfg en) (cx_st c) = Some (i, req)"
  then obtain keep where "cut_point (compact_view (en_lib en) (derived_messages (en_lib en) (cx_st c) (en_cfg en))) keep = Some i"
    by (auto simp: checkpoint_cut_def Let_def split: if_splits option.splits)
  from cut_bounds[OF this] show "at_cut i c" by (simp add: at_cut_def compact_view_def)
qed simp

lemma keeps_at_cut:
  "keeps (at_cut i) (state_do (\<lambda>st. st\<lparr>ls_compacted := Some (ls_turn st)\<rparr>))"
  "keeps (at_cut i) (state_do (\<lambda>st. record_usage st u))"
  "keeps (at_cut i) (race en e f)"
proof -
  have d: "derived_messages l (st\<lparr>ls_compacted := x\<rparr>) cfg = derived_messages l st cfg"
    "derived_messages l (record_usage st u) cfg = derived_messages l st cfg" for l st cfg x
    by (simp_all add: derived_messages_def raw_messages_def raw_messages_with_def record_usage_def Let_def)
  then show "keeps (at_cut i) (state_do (\<lambda>st. st\<lparr>ls_compacted := Some (ls_turn st)\<rparr>))"
    "keeps (at_cut i) (state_do (\<lambda>st. record_usage st u))"
    unfolding state_do_def by (auto intro!: keeps_modify simp: at_cut_def)
  have "keeps (at_cut i) (is_cancelled en)" "keeps (at_cut i) (world f)" for f :: "'w \<Rightarrow> 'x \<times> 'w"
    unfolding is_cancelled_def world_def by (auto intro!: keeps_act simp: at_cut_def split: prod.splits)
  moreover have "keeps (at_cut i) (observe e)" "keeps (at_cut i) (modify (\<lambda>c. c\<lparr>cx_cancelled := True\<rparr>))" for e
    unfolding observe_def by (auto intro!: keeps_modify simp: at_cut_def)
  ultimately show "keeps (at_cut i) (race en e f)"
    unfolding race_def by (intro keeps_rules) assumption+
qed

lemma triple_apply:
  "triple (\<lambda>c. K cs c \<and> at_cut i c) (state_do (\<lambda>st. apply_checkpoint st i s)) (\<lambda>_. K cs) E"
  unfolding state_do_def by (rule triple_modify) (auto simp: at_cut_def intro: K_step quiet_step.s_checkpoint)

lemma keeps_checkpoint [keeps_rules]: "keeps (K cs) (checkpoint en)"
proof (rule triple_keeps)
  have drop: "triple (\<lambda>c. K cs c \<and> at_cut i c) m (\<lambda>_. K cs) (\<lambda>_. K cs)" if "keeps (K cs) m" for i and m :: "('w, 'x) run"
    by (rule triple_conseq[OF keeps_triple[OF that]]) auto
  have both: "triple (\<lambda>c. K cs c \<and> at_cut i c) m (\<lambda>_ c. K cs c \<and> at_cut i c) (\<lambda>_. K cs)"
    if "keeps (K cs) m" "keeps (at_cut i) m" for i and m :: "('w, 'x) run"
    by (rule triple_conseq[OF keeps_triple[OF keeps_conj[OF that]]]) auto
  have refuse: "keeps (K cs) (refuse_summary why)" for why
    unfolding refuse_summary_def by (intro keeps_rules) simp
  have race: "keeps (K cs) (race en (ProviderCalled req) (w_complete en (rc_model (en_cfg en)) req))" for req
    by (intro keeps_race keeps_rules)
  have settle: "triple (\<lambda>c. K cs c \<and> at_cut i c) (case r of
        None \<Rightarrow> ret ()
      | Some (Inr resp) \<Rightarrow>
          andthen (state_do (\<lambda>st. record_usage st (billed_usage resp))) (\<lambda>_.
            case summary_of resp of
              Inr s \<Rightarrow> state_do (\<lambda>st. apply_checkpoint st i s)
            | Inl why \<Rightarrow> refuse_summary why)
      | Some (Inl e) \<Rightarrow>
          andthen (state_do (\<lambda>st. meter st (metered_usage e))) (\<lambda>_.
            refuse_summary (''summary call failed: '' @ debug_error (en_lib en) e)))
     (\<lambda>_. K cs) (\<lambda>_. K cs)" for i r
  proof (cases r)
    case None
    then show ?thesis by (simp add: drop keeps_ret)
  next
    case (Some x)
    show ?thesis
    proof (cases x)
      case (Inl e)
      then show ?thesis unfolding Some Inl option.case sum.case by (intro drop keeps_rules refuse)
    next
      case (Inr resp)
      have "triple (\<lambda>c. K cs c \<and> at_cut i c) (case summary_of resp of
              Inr s \<Rightarrow> state_do (\<lambda>st. apply_checkpoint st i s) | Inl why \<Rightarrow> refuse_summary why)
          (\<lambda>_. K cs) (\<lambda>_. K cs)"
        by (cases "summary_of resp") (simp_all add: triple_apply drop refuse)
      then show ?thesis
        unfolding Some Inr option.case sum.case by (rule triple_andthen[OF both[OF state_steps(8) keeps_at_cut(2)]])
    qed
  qed
  show "triple (K cs) (checkpoint en) (\<lambda>_. K cs) (\<lambda>_. K cs)"
    unfolding checkpoint_def
  proof (rule triple_andthen[OF triple_cut])
    fix due :: "(nat \<times> request) option"
    show "triple (\<lambda>c. K cs c \<and> (\<forall>i req. due = Some (i, req) \<longrightarrow> at_cut i c)) (case due of
         None \<Rightarrow> ret ()
       | Some (i, req) \<Rightarrow>
           andthen (state_do (\<lambda>st. st\<lparr>ls_compacted := Some (ls_turn st)\<rparr>)) (\<lambda>_.
           andthen (race en (ProviderCalled req) (w_complete en (rc_model (en_cfg en)) req)) (\<lambda>r.
             case r of
               None \<Rightarrow> ret ()
             | Some (Inr resp) \<Rightarrow>
                 andthen (state_do (\<lambda>st. record_usage st (billed_usage resp))) (\<lambda>_.
                   case summary_of resp of
                     Inr s \<Rightarrow> state_do (\<lambda>st. apply_checkpoint st i s)
                   | Inl why \<Rightarrow> refuse_summary why)
             | Some (Inl e) \<Rightarrow>
                 andthen (state_do (\<lambda>st. meter st (metered_usage e))) (\<lambda>_.
                   refuse_summary (''summary call failed: '' @ debug_error (en_lib en) e)))))
      (\<lambda>_. K cs) (\<lambda>_. K cs)"
    proof (cases due)
      case None
      then show ?thesis unfolding None option.case by (intro triple_conseq[OF keeps_triple[OF keeps_ret]]) auto
    next
      case (Some p)
      obtain i req where p: "p = (i, req)" by fastforce
      show ?thesis
        unfolding Some p option.case prod.case
        by (rule triple_conseq[OF triple_andthen[OF both[OF state_steps(7) keeps_at_cut(1)]
            triple_andthen[OF both[OF race keeps_at_cut(3)] settle]]]) auto
    qed
  qed
qed

lemma keeps_provider_error [keeps_rules]: "keeps (K cs) (settle_provider_error en e)"
  unfolding settle_provider_error_def Let_def by (intro keeps_rules) auto

lemma keeps_record_result [keeps_rules]: "keeps (K cs) (record_result en cid r)"
  unfolding record_result_def by (intro keeps_rules)

lemma keeps_execute_call:
  "prepare (en_registry en) (en_agent en) t = Dispatch iv \<Longrightarrow> t \<in> set cs \<Longrightarrow> keeps (K cs) (execute_call en iv)"
  unfolding execute_call_def by (intro keeps_rules keeps_race keeps_execute m_execute)

lemma keeps_answer_call: "t \<in> set cs \<Longrightarrow> keeps (K cs) (answer_call en t)"
proof -
  assume t: "t \<in> set cs"
  have "keeps (K cs) (case prepare (en_registry en) (en_agent en) t of
      Result res \<Rightarrow> andthen (record_result en (call_id t) res) (\<lambda>_. ret (is_error res))
    | Dispatch iv \<Rightarrow>
        andthen (execute_call en iv) (\<lambda>res.
        andthen (state_do (\<lambda>st. snd (note_tool_execution (en_lib en) st (inv_name iv)
                   (json_text (en_lib en) (inv_args iv)) res))) (\<lambda>_.
        andthen (record_result en (call_id t) res) (\<lambda>_. ret (is_error res)))))"
  proof (cases "prepare (en_registry en) (en_agent en) t")
    case (Dispatch iv)
    then show ?thesis by (simp, intro keeps_rules keeps_execute_call[OF Dispatch t])
  next
    case (Result res)
    then show ?thesis by (simp, intro keeps_rules)
  qed
  then show "keeps (K cs) (answer_call en t)" unfolding answer_call_def by (intro keeps_rules)
qed

lemma keeps_tool_end [keeps_rules]: "keeps (K cs) (emit_tool_end cid)"
  unfolding emit_tool_end_def by (intro keeps_rules) auto

lemma keeps_settle_call: "t \<in> set cs \<Longrightarrow> keeps (K cs) (settle_call en t)"
  unfolding settle_call_def by (intro keeps_rules keeps_answer_call)

lemma keeps_settle_calls: "set ts \<subseteq> set cs \<Longrightarrow> keeps (K cs) (settle_calls en ts)"
proof (induction ts)
  case (Cons t ts)
  then show ?case unfolding settle_calls.simps by (intro keeps_rules keeps_settle_call) auto
qed (simp add: keeps_ret)

lemma keeps_snapshot_text [keeps_rules]: "keeps (K cs) (snapshot_text en)"
  unfolding snapshot_text_def by (intro keeps_rules)

lemma keeps_probe: "rc_proof_cmd (en_cfg en) = Some cmd \<Longrightarrow> keeps (K cs) (probe_prefixes en cmd hs ks)"
proof (induction ks)
  case (Cons k ks)
  show ?case
    unfolding probe_prefixes.simps by (intro keeps_rules Cons) (use m_probe[OF Cons.prems] in simp)
qed (simp add: keeps_ret)

lemma keeps_tool_batch: "keeps (K ts) (tool_batch en ts)"
  unfolding tool_batch_def batch_hunks_def incremental_hunks_def roll_back_failed_def
  by (intro keeps_rules keeps_settle_calls keeps_probe) auto

lemma keeps_proof_gate [keeps_rules]: "keeps (K cs) (proof_gate en r)"
  unfolding proof_gate_def by (intro keeps_rules)

lemma keeps_dispatch: "keeps (K ts) (dispatch_batch en ts)"
  unfolding dispatch_batch_def by (intro keeps_rules keeps_tool_batch) auto

lemma keeps_follow:
  assumes "\<And>ts. oc = ClDispatch ts \<Longrightarrow> cs = ts"
  shows "keeps (K cs) (follow_claim en oc)"
proof (cases oc)
  case (ClDispatch ts)
  then show ?thesis using assms keeps_dispatch by (simp add: follow_claim_def)
qed (simp_all add: follow_claim_def hard_exit_def, (intro keeps_rules)+)

end

end
