(* ===== verification/Runs.thy ===== *)
theory Runs
  imports Invariants
begin

text \<open>
  The interface \<open>quiet_invariant\<close> carried to the end of a run: \<open>run_invariant\<close> adds the admission of a
  provider call, the claim of a response and the opening of the log, and \<open>run_end\<close> says that what it
  promises held when the last frame went out, whatever the world answered.
\<close>

section \<open>To the end of the run\<close>

text \<open>What a frame adds to the context.\<close>

definition emitted :: "agent_event \<Rightarrow> 'w ctx \<Rightarrow> 'w ctx" where
  "emitted ev c = c\<lparr>cx_em := emit (cx_em c) ev, cx_trace := cx_trace c @ [Emitted ev]\<rparr>"

definition end_frame :: "outcome \<Rightarrow> agent_event" where
  "end_frame oc = RunEnd (event_outcome oc) []"

definition opened :: "'w env \<Rightarrow> 'w ctx \<Rightarrow> 'w ctx" where
  "opened en c =
     emitted (RunStart (ls_emit_next (cx_st c)) (rc_goal (en_cfg en)))
       (c\<lparr>cx_st := snd (next_emit_id (cx_st c)), cx_run_id := ls_emit_next (cx_st c)\<rparr>)"

definition open_tail :: "'w env \<Rightarrow> input list \<Rightarrow> ('w ctx, bool \<times> outcome, unit) prog" where
  "open_tail en inputs =
     andthen (lift_finish (tree_do (w_ensure en) ''snapshot ensure: '')) (\<lambda>_.
     andthen (lift_finish (sync en)) (\<lambda>_.
     andthen (lift_finish (for_each (seed_input en) inputs)) (\<lambda>_.
     andthen (lift_finish (state_get ls_turn)) (\<lambda>turn.
       if turn = 0 then end_now (Failed FailInput ''run needs at least one input'')
       else lift_finish (freeze_prefix en)))))"

definition open_rest :: "'w env \<Rightarrow> input list \<Rightarrow> ('w ctx, bool \<times> outcome, unit) prog" where
  "open_rest en inputs =
     andthen (open_writer en) (\<lambda>_. andthen (lift_finish (open_header en)) (\<lambda>_. open_tail en inputs))"

lemma open_body_rest: "open_body en inputs c = open_rest en inputs (opened en c)"
  by (simp add: open_body_def open_rest_def open_tail_def opened_def emitted_def lift_finish_def prog_defs state_act_def
      next_emit_id_def emit_ev_def)

fun calls_of :: "claim_outcome \<Rightarrow> tool_call list" where
  "calls_of (ClDispatch ts) = ts"
| "calls_of _ = []"

lemma claim_call_rows:
  "\<exists>it\<in>set (ls_items st). call_row t it \<Longrightarrow> \<exists>it\<in>set (ls_items (claim_call l n st x)). call_row t it"
  "\<exists>it\<in>set (ls_items (claim_call l n st x)). call_row (call_of_ref x) it"
  by (auto simp: claim_call_def push_item_def append_to_def Let_def call_row_def call_of_ref_def)

lemma claims_keep_rows:
  "\<exists>it\<in>set (ls_items st). call_row t it \<Longrightarrow> \<exists>it\<in>set (ls_items (foldl (claim_call l n) st tcs)). call_row t it"
proof (induction tcs arbitrary: st)
  case (Cons x xs)
  show ?case using Cons.IH[OF claim_call_rows(1)[OF Cons.prems]] by simp
qed simp

lemma claims_rows:
  "tc \<in> set tcs \<Longrightarrow> \<exists>it\<in>set (ls_items (foldl (claim_call l n) st tcs)). call_row (call_of_ref tc) it"
proof (induction tcs arbitrary: st)
  case (Cons x xs)
  then show ?case using claims_keep_rows[OF claim_call_rows(2)[of l n st x], where l = l and n = n and tcs = xs] by auto
qed simp

lemma response_rows:
  assumes "take_response l cfg n resp req st = (oc, st')" "t \<in> set (calls_of oc)"
  shows "\<exists>it\<in>set (ls_items st'). call_row t it"
proof -
  let ?m = "rs_message resp"
  obtain s where s: "step_claim l s n ?m (rs_stop resp) cfg = (oc, st')"
    using assms(1) unfolding take_response_def Let_def by blast
  have "am_tool_calls ?m \<noteq> [] \<and> oc = ClDispatch (map call_of_ref (am_tool_calls ?m))
    \<and> st' = foldl (claim_call l n) (push_assistant l s n ?m (stop_label (rs_stop resp))) (am_tool_calls ?m)"
    using s assms(2)
    by (auto simp: step_claim_def claim_declare_def Let_def split: if_splits prod.splits option.splits)
  then show ?thesis using assms(2) claims_rows by fastforce
qed

context quiet_invariant begin

definition claimed :: "claim_outcome \<Rightarrow> 'w ctx \<Rightarrow> bool" where
  "claimed oc c \<longleftrightarrow> K [] c \<and> (\<forall>t\<in>set (calls_of oc). \<exists>it\<in>set (ls_items (cx_st c)). call_row t it)"

lemma triple_sync_claim: "triple (claimed oc) (sync en) (\<lambda>_. K (calls_of oc)) (\<lambda>_. K [])"
proof (rule tripleI)
  fix c u c'
  assume c: "claimed oc c" and r: "sync en c = (Inr u, c')"
  then have k: "K [] c" by (simp add: claimed_def)
  then have k': "K [] c'" using keepsD[OF keeps_sync] r by (metis snd_conv)
  moreover have "calls_durable (calls_of oc) c'"
    using k' sync_all[OF k r] c by (intro durable_calls) (auto simp: K_def claimed_def)
  ultimately show "K (calls_of oc) c'" by (simp add: K_def)
next
  fix c e c'
  assume "claimed oc c" "sync en c = (Inl e, c')"
  then show "K [] c'" using keepsD[OF keeps_sync] by (metis claimed_def snd_conv)
qed

lemma keeps_K_triple: "keeps (K cs) m \<Longrightarrow> triple (K cs) m (\<lambda>_. K cs) (\<lambda>_. K [])"
  by (erule triple_conseq[OF keeps_triple]) (auto intro: K_weaken)

text \<open>The frames at both ends of the run are not part of what the law on frames covers.\<close>

lemma finish_end:
  assumes "K [] c"
  shows "\<exists>c2. K [] c2 \<and> snd (finish en oc c) = emitted (end_frame oc) c2"
proof -
  define body where "body =
     andthen (now en) (\<lambda>t.
     andthen (state_get (\<lambda>st. outcome_log_reason oc (ls_turn_reason st))) (\<lambda>reason.
     andthen (state_do (\<lambda>st. stick_turn_reason st reason)) (\<lambda>_.
     andthen (state_get (\<lambda>st. (ls_turn st, ls_totals st))) (\<lambda>(turn, totals).
     andthen (state_do (\<lambda>st. push_item st t (ITurnEnd (turn_id turn) reason))) (\<lambda>_.
     andthen (ignore (sync en)) (\<lambda>_.
     emit_ev (TurnEnd turn (turn_end_reason_to_event reason) totals)))))))"
  have "keeps (K []) (body :: ('w, unit) run)"
    unfolding body_def by (intro keeps_rules) auto
  then have "K [] (snd (body c))" using assms by (rule keepsD)
  moreover have "snd (finish en oc c) = emitted (end_frame oc) (snd (body c))"
    by (simp add: finish_def body_def prog_defs now_def state_get_def state_do_def emit_ev_def emitted_def
        end_frame_def split: prod.splits)
  ultimately show ?thesis by blast
qed

lemma keeps_header [keeps_rules]: "keeps (K cs) (open_header en)"
  unfolding open_header_def by (intro keeps_rules) auto

lemma keeps_seed [keeps_rules]: "keeps (K cs) (seed_input en i)"
  unfolding seed_input_def by (intro keeps_rules) auto

lemma keeps_freeze [keeps_rules]: "keeps (K cs) (freeze_prefix en)"
  unfolding freeze_prefix_def by (intro keeps_rules)

definition closed :: "bool \<times> outcome \<Rightarrow> 'w ctx \<Rightarrow> bool" where
  "closed e c = (if fst e then K [] c else \<exists>c2. K [] c2 \<and> c = emitted (end_frame (snd e)) c2)"

lemma triple_end_now: "triple (K []) (end_now oc) Q closed"
  by (auto simp: triple_def end_now_def closed_def emitted_def end_frame_def prog_defs emit_ev_def)

lemma triple_lift: "keeps (K []) m \<Longrightarrow> triple (K []) (lift_finish m) (\<lambda>_. K []) closed"
  unfolding lift_finish_def
  by (rule triple_map_error) (auto intro: triple_conseq[OF keeps_triple] simp: closed_def)

lemma triple_open_writer: "triple (\<lambda>c. K [] c \<and> just_opened c) (open_writer en) (\<lambda>_. K []) closed"
proof (cases "rc_log_path (en_cfg en)")
  case None
  then show ?thesis by (simp add: open_writer_def) (rule triple_ret, simp)
next
  case (Some p)
  have w: "triple (\<lambda>c. K [] c \<and> just_opened c) (lift_finish (world (w_log_open en p)))
     (\<lambda>_ c. K [] c \<and> just_opened c) closed"
    using K_world m_log_open[OF Some]
    by (fastforce simp: triple_def lift_finish_def world_def prog_defs just_opened_def split: prod.splits)
  have t: "K [] (c\<lparr>cx_writer := True\<rparr>)" if "K [] c" "just_opened c" for c
    using that J_writer by (auto simp: K_def just_opened_def durable_def calls_durable_def)
  show ?thesis
    unfolding open_writer_def Some option.case
  proof (rule triple_andthen[OF w])
    fix r :: "string + unit"
    show "triple (\<lambda>c. K [] c \<and> just_opened c) (case r of
        Inl e \<Rightarrow> end_now (Failed FailLog (''log open: '' @ e)) | Inr _ \<Rightarrow> modify (\<lambda>c. c\<lparr>cx_writer := True\<rparr>))
      (\<lambda>_. K []) closed"
    proof (cases r)
      case (Inl e)
      then show ?thesis by simp (rule triple_conseq[OF triple_end_now], auto)
    next
      case (Inr u)
      then show ?thesis by simp (rule triple_modify, auto intro: t)
    qed
  qed
qed

lemma triple_open_tail: "triple (K []) (open_tail en inputs) (\<lambda>_. K []) closed"
proof -
  have last: "triple (K []) (if turn = (0 :: nat) then end_now oc else lift_finish (freeze_prefix en)) (\<lambda>_. K []) closed"
    for turn oc
    by (rule triple_if) (rule triple_end_now, rule triple_lift[OF keeps_freeze])
  show ?thesis
    unfolding open_tail_def
    by (rule triple_andthen[OF triple_lift[OF keeps_tree[OF m_ensure]] triple_andthen[OF triple_lift[OF keeps_sync]
          triple_andthen[OF triple_lift[OF keeps_for_each[OF keeps_seed]]
          triple_andthen[OF triple_lift[OF keeps_state_get] last]]]])
qed

lemma triple_open_rest: "triple (\<lambda>c. K [] c \<and> just_opened c) (open_rest en inputs) (\<lambda>_. K []) closed"
  unfolding open_rest_def
  by (rule triple_andthen[OF triple_open_writer triple_andthen[OF triple_lift[OF keeps_header] triple_open_tail]])

text \<open>What the opening establishes, the rest of the run keeps; a run that ends at once may also end in \<open>R\<close>.\<close>

definition closed_or :: "('w ctx \<Rightarrow> bool) \<Rightarrow> bool \<times> outcome \<Rightarrow> 'w ctx \<Rightarrow> bool" where
  "closed_or R e c \<longleftrightarrow> closed e c \<or> \<not> fst e \<and> R c"

lemma open_end_from:
  assumes "triple P (open_rest en inputs) (\<lambda>_. K []) (closed_or R)" "P (opened en c)" "open_run en inputs c = (r, c')"
  shows "case r of None \<Rightarrow> K [] c' | Some oc \<Rightarrow> R c' \<or> (\<exists>c2. K [] c2 \<and> c' = emitted (end_frame oc) c2)"
proof -
  obtain v c1 where v: "open_rest en inputs (opened en c) = (v, c1)" by fastforce
  show ?thesis
  proof (cases v)
    case (Inl e)
    then have "closed_or R e c1" using tripleD_err[OF assms(1,2)] v by blast
    then show ?thesis
      using assms(3) v Inl finish_end[of c1 "snd e"]
      by (cases e; cases "fst e") (auto simp: open_run_def open_body_rest closed_def closed_or_def)
  next
    case (Inr u)
    then have "K [] c1" using tripleD_ok[OF assms(1,2)] v by blast
    then show ?thesis using assms(3) v Inr by (auto simp: open_run_def open_body_rest)
  qed
qed

lemma triple_open_strict:
  "triple (\<lambda>c. K [] c \<and> just_opened c) (open_rest en inputs) (\<lambda>_. K []) (closed_or (\<lambda>_. False))"
  by (rule triple_conseq[OF triple_open_rest]) (auto simp: closed_or_def)

lemma open_end:
  assumes "K [] (opened en c)" "just_opened (opened en c)" "open_run en inputs c = (r, c')"
  shows "case r of None \<Rightarrow> K [] c' | Some oc \<Rightarrow> \<exists>c2. K [] c2 \<and> c' = emitted (end_frame oc) c2"
  using open_end_from[OF triple_open_strict _ assms(3)] assms(1,2) by (cases r) auto

end

locale run_invariant = quiet_invariant +
  assumes J_start: "J c \<Longrightarrow> J (c\<lparr>cx_st := snd (start_provider_call (cx_st c) t)\<rparr>)"
    and J_response: "J c \<Longrightarrow> J (c\<lparr>cx_st := snd (take_response (en_lib en) (en_cfg en) t resp req (cx_st c))\<rparr>)"
begin

lemma keeps_start [keeps_rules]: "keeps (K cs) (state_act (\<lambda>st. start_provider_call st t))"
  unfolding state_act_def
proof (rule keeps_act)
  fix c
  assume k: "K cs c"
  have "st_grows (cx_st c) (snd (start_provider_call (cx_st c) t))" by simp
  then have "K cs (c\<lparr>cx_st := snd (start_provider_call (cx_st c) t)\<rparr>)"
    using k J_start durable_grows by (fastforce simp: K_def calls_durable_def)
  then show "K cs (snd (case start_provider_call (cx_st c) t of (a, st) \<Rightarrow> (a, c\<lparr>cx_st := st\<rparr>)))"
    by (simp add: case_prod_beta)
qed

lemma keeps_step_head [keeps_rules]: "keeps (K cs) (step_head en)"
  unfolding step_head_def by (intro keeps_rules)

lemma triple_claim: "triple (K []) (state_act (take_response (en_lib en) (en_cfg en) t resp req)) claimed E"
  unfolding state_act_def
proof (rule triple_act)
  fix c oc c'
  assume k: "K [] c"
    and r: "(case take_response (en_lib en) (en_cfg en) t resp req (cx_st c) of (a, st) \<Rightarrow> (a, c\<lparr>cx_st := st\<rparr>)) = (oc, c')"
  obtain st' where s: "take_response (en_lib en) (en_cfg en) t resp req (cx_st c) = (oc, st')" "c' = c\<lparr>cx_st := st'\<rparr>"
    using r by (auto split: prod.splits)
  have "st_grows (cx_st c) st'" using gr_response[of "cx_st c" "en_lib en" "en_cfg en" t resp req] s(1) by simp
  moreover have "J c'" using J_response[of c t resp req] k s by (simp add: K_def)
  ultimately show "claimed oc c'"
    using k durable_grows response_rows[OF s(1)] by (auto simp: claimed_def K_def calls_durable_def s(2))
qed

lemma triple_success: "triple (K []) (settle_success en resp req) (\<lambda>_. K []) (\<lambda>_. K [])"
proof -
  have follow: "triple (K (calls_of oc)) (follow_claim en oc) (\<lambda>_. K []) (\<lambda>_. K [])" for oc
    by (rule triple_conseq[OF keeps_triple[OF keeps_follow[of oc "calls_of oc"]]]) (auto intro: K_weaken)
  show ?thesis
    unfolding settle_success_def
    by (rule triple_andthen[OF keeps_K_triple[OF keeps_now] triple_andthen[OF triple_claim
          triple_andthen[OF triple_sync_claim triple_andthen[OF keeps_K_triple[OF keeps_frames] follow]]]])
qed

lemma keeps_success [keeps_rules]: "keeps (K []) (settle_success en resp req)"
proof (rule keepsI)
  fix c
  assume k: "K [] c"
  obtain r c' where r: "settle_success en resp req c = (r, c')" by fastforce
  then show "K [] (snd (settle_success en resp req c))"
    using tripleD_ok[OF triple_success k] tripleD_err[OF triple_success k] by (cases r) auto
qed

lemma keeps_provider_round [keeps_rules]: "keeps (K []) (provider_round en)"
  unfolding provider_round_def by (intro keeps_rules keeps_race keeps_success)

lemma keeps_loop_round: "keeps (K []) (loop_round en)"
  unfolding loop_round_def by (intro keeps_rules)

lemma drive_end:
  "K [] c \<Longrightarrow> drive n en c = (r, c') \<Longrightarrow>
   (case r of None \<Rightarrow> K [] c' | Some oc \<Rightarrow> \<exists>c2. K [] c2 \<and> c' = emitted (end_frame oc) c2)"
proof (induction n arbitrary: c)
  case (Suc n)
  obtain v c1 where v: "loop_round en c = (v, c1)" by fastforce
  then have k: "K [] c1" using keepsD[OF keeps_loop_round Suc.prems(1)] by simp
  show ?case
  proof (cases v)
    case (Inl oc)
    then show ?thesis using Suc.prems(2) v finish_end[OF k, of oc] by auto
  next
    case (Inr u)
    then show ?thesis using Suc.prems(2) v Suc.IH[OF k] by simp
  qed
qed simp

text \<open>Whatever ends a run, the law held when its last frame went out.\<close>

lemma run_end_from:
  assumes "triple P (open_rest en inputs) (\<lambda>_. K []) (closed_or R)" "P (opened en c)" "run n en inputs c = (r, c')"
  shows "case r of None \<Rightarrow> K [] c' | Some oc \<Rightarrow> R c' \<or> (\<exists>c2. K [] c2 \<and> c' = emitted (end_frame oc) c2)"
proof -
  obtain v c1 where v: "open_run en inputs c = (v, c1)" by fastforce
  note o = open_end_from[OF assms(1,2) v]
  show ?thesis
  proof (cases v)
    case None
    then show ?thesis using o drive_end assms(3) v by (fastforce simp: run_def split: option.splits)
  next
    case (Some oc)
    then show ?thesis using o assms(3) v by (auto simp: run_def)
  qed
qed

lemma run_end:
  assumes "K [] (opened en c)" "just_opened (opened en c)" "run n en inputs c = (r, c')"
  shows "case r of None \<Rightarrow> K [] c' | Some oc \<Rightarrow> \<exists>c2. K [] c2 \<and> c' = emitted (end_frame oc) c2"
  using run_end_from[OF triple_open_strict _ assms(3)] assms(1,2) by (cases r) auto

text \<open>From a new context, and for what the last frame does not touch.\<close>

lemma run_world:
  assumes "J (opened en (start_ctx en st em b t w))" "run n en inputs (start_ctx en st em b t w) = (r, c')"
  shows "\<exists>c2. J c2 \<and> cx_world c' = cx_world c2"
proof -
  have "K [] (opened en (start_ctx en st em b t w))" "just_opened (opened en (start_ctx en st em b t w))"
    using assms(1)
    by (auto simp: K_def durable_def calls_durable_def just_opened_def opened_def emitted_def start_ctx_def next_emit_id_def)
  from run_end[OF this assms(2)] show ?thesis by (cases r) (auto simp: K_def emitted_def)
qed

end

end
