(* ===== verification/Halting.thy ===== *)
theory Halting
  imports Runs
begin

text \<open>
  Every run ends. \<open>calm\<close> says what holds of the loop state between rounds: the invariant of the state
  with a step allowance \<open>a\<close>, a free single-flight slot and no open call. A round that does not end the
  run is admitted by the guard and takes one from the allowance, and comes back calm; a refused
  admission always finds a verdict that ends the run.
\<close>

section \<open>Open calls and the single-flight slot\<close>

definition open_ids :: "loop_state \<Rightarrow> string set" where
  "open_ids st = fst ` {p \<in> set (ls_calls st). cs_result (snd p) = None}"

definition calm :: "nat \<Rightarrow> bool \<Rightarrow> string set \<Rightarrow> loop_state \<Rightarrow> bool" where
  "calm a b Os st \<longleftrightarrow> loop_ok a st \<and> (b \<longrightarrow> ls_in_flight st = None) \<and> open_ids st \<subseteq> Os"

lemma open_tools_zero: "open_tools st = 0 \<longleftrightarrow> open_ids st = {}"
  by (auto simp: open_tools_def open_ids_def filter_empty_conv)

text \<open>What most operations leave alone.\<close>

definition same_slots :: "loop_state \<Rightarrow> loop_state \<Rightarrow> bool" where
  "same_slots st st' \<longleftrightarrow> ls_in_flight st' = ls_in_flight st \<and> ls_calls st' = ls_calls st"

named_theorems slots \<open>operations that keep the slot and the calls\<close>

lemma slots_refl [slots]: "same_slots st st"
  by (simp add: same_slots_def)

lemma slots_trans: "same_slots a b \<Longrightarrow> same_slots b c \<Longrightarrow> same_slots a c"
  by (simp add: same_slots_def)

lemma slots_push [slots]: "same_slots st (push_item st t k)"
  by (simp add: same_slots_def push_item_def)

lemma slots_open [slots]: "same_slots st (open_turn st t)"
  by (simp add: same_slots_def open_turn_def push_item_def Let_def)

lemma slots_input [slots]: "same_slots st (apply_input st t inp)"
  by (auto simp: same_slots_def apply_input_def enqueue_def open_turn_def push_item_def Let_def
      split: input.splits phase.splits)

lemma slots_admit [slots]: "same_slots st (admit_steering st t)"
  by (simp add: same_slots_def admit_steering_def open_turn_def push_item_def Let_def)

lemma slots_usage [slots]: "same_slots st (record_usage st u)" "same_slots st (meter st uo)"
  by (simp_all add: same_slots_def record_usage_def meter_def Let_def split: option.splits)

lemma slots_misc [slots]: "same_slots st (stick_turn_reason st r)" "same_slots st (push_directive st d cfg)"
  "same_slots st (refund_batch st snap)" "same_slots st (apply_checkpoint st i s)"
  "same_slots st (assess_batch rep st)" "same_slots st (note_verdict rep v st)"
  "same_slots st (append_to_tail st s)" "same_slots st (queue_directives st cfg)"
  by (simp_all add: same_slots_def stick_turn_reason_def push_directive_def refund_batch_def update_counters_def
      apply_checkpoint_def assess_batch_def note_verdict_def append_to_tail_def queue_directives_def Let_def)

lemma slots_executed [slots]: "same_slots st (snd (note_tool_execution l st name args r))"
  by (simp add: same_slots_def note_tool_execution_def observe_action_def update_counters_def Let_def split: prod.splits)

lemma slots_nudge: "same_slots st (snd (apply_budget_nudge st t))"
  by (auto simp: apply_budget_nudge_def same_slots_def append_to_tail_def split: prod.splits option.splits nudge.splits)

lemma slots_tails: "same_slots st (foldl append_to_tail st ds)"
  by (induction ds arbitrary: st) (auto intro: slots slots_trans)

lemma slots_deliver: "same_slots st (snd (deliver_directives st))"
  using slots_tails[of st "ls_directives st"] by (simp add: deliver_directives_def same_slots_def)

lemma slots_tail [slots]: "same_slots st (settle_tool_tail st t cfg)"
  unfolding settle_tool_tail_def by (meson slots_trans slots_nudge slots_deliver slots_misc)

lemma slots_terminate [slots]: "same_slots st (snd (terminate st cfg t))"
proof -
  have "same_slots st (snd (park st t))"
    by (auto simp: park_def hop_turn_def open_turn_def push_item_def same_slots_def Let_def split: list.splits)
  moreover have "same_slots st (snd (drain_stop st cfg t))"
    by (simp add: drain_stop_def Let_def same_slots_def)
  ultimately show ?thesis by (auto simp: terminate_def slots_refl split: option.splits turn_end_reason.splits)
qed

lemma open_ids_update: "cs_result v \<noteq> None \<Longrightarrow> distinct (map fst xs) \<Longrightarrow>
  fst ` {p \<in> set (AList.update k v xs). cs_result (snd p) = None} = fst ` {p \<in> set xs. cs_result (snd p) = None} - {k}"
proof (induction xs)
  case (Cons x xs)
  obtain y w where x: "x = (y, w)" by fastforce
  show ?case
  proof (cases "y = k")
    case True
    then have "k \<notin> fst ` set xs" using Cons.prems(2) by (simp add: x)
    then show ?thesis using Cons.prems(1) True by (force simp: x)
  next
    case False
    have "{p \<in> set (AList.update k v (x # xs)). cs_result (snd p) = None} =
      {p \<in> {x}. cs_result (snd p) = None} \<union> {p \<in> set (AList.update k v xs). cs_result (snd p) = None}"
      using False by (auto simp: x)
    moreover have "{p \<in> set (x # xs). cs_result (snd p) = None} =
      {p \<in> {x}. cs_result (snd p) = None} \<union> {p \<in> set xs. cs_result (snd p) = None}" by auto
    ultimately show ?thesis using Cons False by (auto simp: image_Un x)
  qed
qed simp

lemma recorded_open:
  assumes "loop_ok a st"
  shows "open_ids (snd (record_tool_result st t msg)) = open_ids st - {tm_call_id msg}"
    and "ls_in_flight (snd (record_tool_result st t msg)) = ls_in_flight st"
proof -
  have d: "distinct (map fst (ls_calls st))" using assms by (simp add: loop_ok_def)
  have none: "tm_call_id msg \<notin> open_ids st" if "map_of (ls_calls st) (tm_call_id msg) = None"
    using that by (auto simp: open_ids_def map_of_eq_None_iff)
  have some: "tm_call_id msg \<notin> open_ids st"
    if "map_of (ls_calls st) (tm_call_id msg) = Some c" "cs_result c \<noteq> None" for c
    using that d map_of_SomeD[OF that(1)] by (auto simp: open_ids_def dest: eq_key_imp_eq_value)
  show "open_ids (snd (record_tool_result st t msg)) = open_ids st - {tm_call_id msg}"
    using none some open_ids_update[OF _ d]
    by (auto simp: record_tool_result_def open_ids_def push_item_def Let_def split: option.splits)
  show "ls_in_flight (snd (record_tool_result st t msg)) = ls_in_flight st"
    by (simp add: record_tool_result_def push_item_def Let_def split: option.splits)
qed

lemma finished_slots: "ls_in_flight (snd (finish_provider_msg st t (PmFailed (ls_turn st) e b u))) = None"
  "ls_calls (snd (finish_provider_msg st t msg)) = ls_calls st"
  using slots_usage(2)[unfolded same_slots_def]
  by (auto simp: finish_provider_msg_def push_item_def Let_def split: provider_msg.splits)

lemma calm_slots: "same_slots st st' \<Longrightarrow> loop_ok a st' \<Longrightarrow> calm a b Os st \<Longrightarrow> calm a b Os st'"
  by (simp add: calm_def same_slots_def open_ids_def)

lemma slots_conclude:
  "same_slots st st' \<Longrightarrow>
   (ls_in_flight st' = ls_in_flight st \<or> ls_in_flight st' = None) \<and> open_ids st' \<subseteq> open_ids st"
  by (simp add: same_slots_def open_ids_def)

lemma quiet_step_slots:
  "quiet_step l cfg st st' \<Longrightarrow> loop_ok a st \<Longrightarrow>
   (ls_in_flight st' = ls_in_flight st \<or> ls_in_flight st' = None) \<and> open_ids st' \<subseteq> open_ids st"
proof (induction rule: quiet_step.induct)
  case (s_failed st t e b u)
  then show ?case by (simp add: finished_slots open_ids_def)
next
  case (s_result st t msg)
  then show ?case by (simp add: recorded_open)
qed (rule slots_conclude, (rule slots | simp add: same_slots_def))+

lemma quiet_step_calm: "quiet_step l cfg st st' \<Longrightarrow> calm a b Os st \<Longrightarrow> calm a b Os st'"
  using quiet_step_ok[of l cfg st st' a] quiet_step_slots[of l cfg st st' a] by (auto simp: calm_def)

section \<open>A round\<close>

lemma calm_less: "calm a b Os st \<Longrightarrow> Os \<subseteq> Os' \<Longrightarrow> calm a b Os' st"
  by (auto simp: calm_def)

lemma exceeded_later: "peek g t \<noteq> None \<Longrightarrow> t \<le> t' \<Longrightarrow> exceeded g t' \<noteq> None"
  by (auto simp: peek_def exceeded_def elapsed_def Let_def split: if_splits option.splits)

lemma drained_deadline [simp]: "drained (st\<lparr>ls_drain_until := x\<rparr>) = drained st"
  by (simp add: drained_def open_tools_def)

lemma refused_returns:
  assumes "start_provider_call st0 t = (False, st)" "calm a True {} st0" "t \<le> t'"
  shows "\<exists>oc. fst (terminate st cfg t') = Return oc"
proof -
  have c: "ls_in_flight st0 = None" "open_ids st0 = {}" "gate_ok st0"
    using assms(2) by (auto simp: calm_def loop_ok_def)
  have st: "st = st0" "ls_stop_hard st0 \<or> ls_fatal st0 \<noteq> None \<or> peek (ls_budget st0) t \<noteq> None"
    using assms(1) c may_step_Inl[of "ls_budget st0" t]
    by (auto simp: start_provider_call_def gate_admit_def gate_ok_def split: if_splits gate_status.splits prod.splits sum.splits)
  then have "ls_stop_hard st \<or> ls_fatal st \<noteq> None \<or> exceeded (ls_budget st) t' \<noteq> None"
    using exceeded_later assms(3) by blast
  moreover have "drained st" using c st(1) by (simp add: drained_def open_tools_zero)
  ultimately show ?thesis by (cases "ls_fatal st") (auto simp: terminate_def drain_stop_def Let_def)
qed

interpretation hold: quiet_invariant en "\<lambda>_ _. True" "\<lambda>c. calm a b Os (cx_st c)" for en a b Os
  by unfold_locales (auto intro: quiet_step_calm)

abbreviation at_rest :: "nat \<Rightarrow> 'w ctx \<Rightarrow> bool" where
  "at_rest a \<equiv> hold.K a True {} []"

lemma hold_K: "hold.K a b Os cs c \<longleftrightarrow> calm a b Os (cx_st c) \<and> durable c \<and> calls_durable cs c"
  by (simp add: hold.K_def)

lemma keeps_ok: "keeps I m \<Longrightarrow> triple I m (\<lambda>_. I) (\<lambda>_ _. True)"
  by (erule triple_conseq[OF keeps_triple]) auto

lemma hold_less: "hold.K a b Os cs c \<Longrightarrow> Os \<subseteq> Os' \<Longrightarrow> hold.K a b Os' cs c"
  by (auto simp: hold.K_def intro: calm_less)

lemma triple_record:
  "triple (hold.K a True Os cs) (record_result en cid r) (\<lambda>_. hold.K a True (Os - {cid}) cs) (\<lambda>_ _. True)"
  unfolding record_result_def
proof (rule triple_andthen[OF keeps_ok[OF hold.keeps_now]])
  fix t
  have "hold.K a True (Os - {cid}) cs
      (c\<lparr>cx_st := snd (record_tool_result (cx_st c) t \<lparr>tm_call_id = cid, tm_result = r\<rparr>)\<rparr>)"
    if k: "hold.K a True Os cs c" for c
  proof -
    let ?st = "snd (record_tool_result (cx_st c) t \<lparr>tm_call_id = cid, tm_result = r\<rparr>)"
    have "calm a True Os (cx_st c)" using k by (simp add: hold.K_def)
    then have "calm a True (Os - {cid}) ?st"
      using ok_result[of a "cx_st c" t] recorded_open[of a "cx_st c" t] by (auto simp: calm_def)
    moreover have "hold.K a True Os cs (c\<lparr>cx_st := ?st\<rparr>)" by (rule hold.K_step[OF k quiet_step.s_result])
    ultimately show ?thesis by (simp add: hold.K_def)
  qed
  then show "triple (hold.K a True Os cs)
     (state_do (\<lambda>st. snd (record_tool_result st t \<lparr>tm_call_id = cid, tm_result = r\<rparr>)))
     (\<lambda>_. hold.K a True (Os - {cid}) cs) (\<lambda>_ _. True)"
    unfolding state_do_def by (intro triple_modify)
qed

lemma triple_answer:
  assumes "t \<in> set cs"
  shows "triple (hold.K a True Os cs) (answer_call en t) (\<lambda>_. hold.K a True (Os - {call_id t}) cs) (\<lambda>_ _. True)"
proof -
  have rec: "triple (hold.K a True Os cs) (andthen (record_result en (call_id t) r) (\<lambda>_. ret b))
      (\<lambda>_. hold.K a True (Os - {call_id t}) cs) (\<lambda>_ _. True)" for r b
    by (rule triple_andthen[OF triple_record]) (rule triple_ret)
  have "triple (hold.K a True Os cs)
     (case prepare (en_registry en) (en_agent en) t of
        Result res \<Rightarrow> andthen (record_result en (call_id t) res) (\<lambda>_. ret (is_error res))
      | Dispatch iv \<Rightarrow>
          andthen (execute_call en iv) (\<lambda>res.
          andthen (state_do (\<lambda>st. snd (note_tool_execution (en_lib en) st (inv_name iv)
                     (json_text (en_lib en) (inv_args iv)) res))) (\<lambda>_.
          andthen (record_result en (call_id t) res) (\<lambda>_. ret (is_error res)))))
     (\<lambda>_. hold.K a True (Os - {call_id t}) cs) (\<lambda>_ _. True)"
  proof (cases "prepare (en_registry en) (en_agent en) t")
    case (Dispatch iv)
    show ?thesis
      by (simp add: Dispatch)
        (rule triple_andthen[OF keeps_ok[OF hold.keeps_execute_call[OF Dispatch assms]]
            triple_andthen[OF keeps_ok[OF hold.keeps_state_do[OF quiet_step.s_executed]] rec]])
  next
    case (Result res)
    then show ?thesis by (simp add: rec)
  qed
  then show ?thesis
    unfolding answer_call_def
    by (intro triple_andthen[OF keeps_ok[OF hold.keeps_cancelled]] triple_if rec)
qed

lemma triple_settle:
  "t \<in> set cs \<Longrightarrow>
   triple (hold.K a True Os cs) (settle_call en t) (\<lambda>_. hold.K a True (Os - {call_id t}) cs) (\<lambda>_ _. True)"
  unfolding settle_call_def
  by (intro triple_andthen[OF triple_answer] keeps_ok keeps_rules) simp_all

lemma triple_settles:
  "set ts \<subseteq> set cs \<Longrightarrow>
   triple (hold.K a True Os cs) (settle_calls en ts) (\<lambda>_. hold.K a True (Os - call_id ` set ts) cs) (\<lambda>_ _. True)"
proof (induction ts arbitrary: Os)
  case Nil
  then show ?case by simp (rule triple_ret, simp)
next
  case (Cons t ts)
  have "triple (hold.K a True (Os - {call_id t}) cs) (andthen (settle_calls en ts) (\<lambda>rest. ret (f \<or> rest)))
      (\<lambda>_. hold.K a True (Os - call_id ` set (t # ts)) cs) (\<lambda>_ _. True)" for f
    by (rule triple_andthen[OF Cons.IH], use Cons.prems in simp)
       (rule triple_ret, auto elim: hold_less)
  then show ?case
    unfolding settle_calls.simps using Cons.prems by (intro triple_andthen[OF triple_settle]) auto
qed

lemma triple_batch:
  "triple (hold.K a True (call_id ` set ts) ts) (tool_batch en ts) (\<lambda>_. hold.K a True {} ts) (\<lambda>_ _. True)"
proof -
  have settled: "triple (hold.K a True (call_id ` set ts) ts) (settle_calls en ts) (\<lambda>_. hold.K a True {} ts) (\<lambda>_ _. True)"
    by (rule triple_conseq[OF triple_settles[of ts ts]]) (auto elim: hold_less)
  show ?thesis
    unfolding tool_batch_def
    by (rule triple_andthen[OF keeps_ok[OF hold.keeps_tree[OF TrueI]]], rule triple_andthen[OF keeps_ok[OF hold.keeps_state_get]],
        rule triple_andthen[OF settled], rule keeps_ok, unfold batch_hunks_def incremental_hunks_def roll_back_failed_def)
      (intro keeps_rules hold.keeps_probe TrueI, auto)
qed

lemma rest_of_K: "hold.K a True {} cs c \<Longrightarrow> at_rest a c"
  by (rule hold.K_weaken)

lemma triple_dispatch:
  "triple (hold.K a True (call_id ` set ts) ts) (dispatch_batch en ts) (\<lambda>_. at_rest a) (\<lambda>_ _. True)"
  unfolding dispatch_batch_def
proof (rule triple_andthen)
  show "triple (hold.K a True (call_id ` set ts) ts)
      (for_each (\<lambda>c. emit_ev (ToolStart (call_id c) (call_name c) (call_args c))) ts)
      (\<lambda>_. hold.K a True (call_id ` set ts) ts) (\<lambda>_ _. True)"
    by (intro keeps_ok keeps_rules) simp
  show "triple (hold.K a True (call_id ` set ts) ts) (andthen (tool_batch en ts) (proof_gate en)) (\<lambda>_. at_rest a) (\<lambda>_ _. True)"
    for u
    by (rule triple_andthen[OF triple_batch])
      (rule triple_conseq[OF keeps_ok[OF hold.keeps_proof_gate]], auto intro: rest_of_K)
qed

lemma triple_follow:
  "triple (hold.K a True (call_id ` set (calls_of oc)) (calls_of oc)) (follow_claim en oc) (\<lambda>_. at_rest a) (\<lambda>_ _. True)"
proof (cases oc)
  case (ClDispatch ts)
  then show ?thesis by (simp add: follow_claim_def triple_dispatch)
qed (simp_all add: follow_claim_def hard_exit_def, (intro keeps_ok keeps_rules)+)

lemma update_members: "set (AList.update k v xs) \<subseteq> insert (k, v) (set xs)"
  by (induction xs) auto

lemma claim_call_slots:
  "ls_in_flight (claim_call l n st x) = ls_in_flight st"
  "open_ids (claim_call l n st x) \<subseteq> insert (tc_id x) (open_ids st)"
proof -
  show "ls_in_flight (claim_call l n st x) = ls_in_flight st" by (simp add: claim_call_def push_item_def Let_def)
  show "open_ids (claim_call l n st x) \<subseteq> insert (tc_id x) (open_ids st)"
    unfolding claim_call_def push_item_def open_ids_def Let_def
    using update_members by (fastforce dest!: subsetD[OF update_members])
qed

lemma claim_truncated_slots:
  "ls_in_flight (claim_truncated l n st x) = ls_in_flight st"
  "open_ids (claim_truncated l n st x) \<subseteq> open_ids st"
proof -
  show "ls_in_flight (claim_truncated l n st x) = ls_in_flight st" by (simp add: claim_truncated_def push_item_def Let_def)
  show "open_ids (claim_truncated l n st x) \<subseteq> open_ids st"
    unfolding claim_truncated_def push_item_def open_ids_def Let_def
    by (fastforce dest!: subsetD[OF update_members])
qed

lemma claims_slots:
  "ls_in_flight (foldl (claim_call l n) st tcs) = ls_in_flight st"
  "open_ids (foldl (claim_call l n) st tcs) \<subseteq> tc_id ` set tcs \<union> open_ids st"
  "ls_in_flight (foldl (claim_truncated l n) st tcs) = ls_in_flight st"
  "open_ids (foldl (claim_truncated l n) st tcs) \<subseteq> open_ids st"
proof -
  have "ls_in_flight (foldl (claim_call l n) st tcs) = ls_in_flight st
    \<and> open_ids (foldl (claim_call l n) st tcs) \<subseteq> tc_id ` set tcs \<union> open_ids st
    \<and> ls_in_flight (foldl (claim_truncated l n) st tcs) = ls_in_flight st
    \<and> open_ids (foldl (claim_truncated l n) st tcs) \<subseteq> open_ids st"
  proof (induction tcs rule: rev_induct)
    case (snoc x xs)
    then show ?case
      using claim_call_slots[of l n "foldl (claim_call l n) st xs" x]
        claim_truncated_slots[of l n "foldl (claim_truncated l n) st xs" x] by auto
  qed simp
  then show
    "ls_in_flight (foldl (claim_call l n) st tcs) = ls_in_flight st"
    "open_ids (foldl (claim_call l n) st tcs) \<subseteq> tc_id ` set tcs \<union> open_ids st"
    "ls_in_flight (foldl (claim_truncated l n) st tcs) = ls_in_flight st"
    "open_ids (foldl (claim_truncated l n) st tcs) \<subseteq> open_ids st" by blast+
qed

lemma slots_assistant: "same_slots st (push_assistant l st n m label)"
  by (simp add: push_assistant_def slots_push Let_def)

lemma slots_declare: "same_slots st (snd (claim_declare st n cfg))"
  by (auto simp: claim_declare_def verify_nudge_due_def same_slots_def push_item_def Let_def split: prod.splits option.splits)

lemma step_claim_slots:
  assumes "step_claim l st n m stop cfg = (oc, st')"
  shows "ls_in_flight st' = ls_in_flight st \<and> open_ids st' \<subseteq> call_id ` set (calls_of oc) \<union> open_ids st"
proof -
  note defs = same_slots_def open_ids_def
  let ?a = "push_assistant l st n m (stop_label stop)"
  have a: "ls_in_flight ?a = ls_in_flight st" "open_ids ?a = open_ids st"
    using slots_assistant[of st l n m "stop_label stop"] by (simp_all add: defs)
  consider "stop = StMaxTokens" | "stop = StRefused" | "stop = StError \<or> stop = StAborted"
    | "stop \<notin> {StMaxTokens, StRefused, StError, StAborted}" by blast
  then show ?thesis
  proof cases
    case 1
    let ?s = "stick_turn_reason (foldl (claim_truncated l n) st (am_tool_calls m)) MaxTokensReason"
    have "same_slots (foldl (claim_truncated l n) st (am_tool_calls m)) st'"
      using assms 1 slots_trans[OF slots_misc(1) slots_assistant] by (auto simp: step_claim_def Let_def)
    then show ?thesis using claims_slots(3,4)[of l n st "am_tool_calls m"] by (auto simp: defs)
  next
    case 2
    then have "same_slots st st'"
      using assms slots_trans[OF slots_assistant slots_misc(1)] by (auto simp: step_claim_def Let_def)
    then show ?thesis by (auto simp: defs)
  next
    case 3
    then show ?thesis using assms by (auto simp: step_claim_def Let_def)
  next
    case 4
    show ?thesis
    proof (cases "am_tool_calls m = []")
      case True
      then have "st' = snd (claim_declare ?a n cfg)" using assms 4 by (auto simp: step_claim_def Let_def)
      then show ?thesis using slots_declare[of ?a n cfg] a by (auto simp: defs)
    next
      case False
      then have "oc = ClDispatch (map call_of_ref (am_tool_calls m))" "st' = foldl (claim_call l n) ?a (am_tool_calls m)"
        using assms 4 by (auto simp: step_claim_def Let_def)
      then show ?thesis
        using claims_slots(1,2)[of l n ?a "am_tool_calls m"] a by (auto simp: call_of_ref_def image_image)
    qed
  qed
qed

lemma response_slots:
  assumes "take_response l cfg n resp req st = (oc, st')"
  shows "ls_in_flight st' = None \<and> open_ids st' \<subseteq> call_id ` set (calls_of oc) \<union> open_ids st"
proof -
  define st1 where "st1 = st\<lparr>ls_verify := (ls_verify st)\<lparr>vs_hold := None\<rparr>,
    ls_anchor := Some \<lparr>ua_messages = length (rq_messages req) - 1, ua_input_tokens = u_input (rs_usage resp)\<rparr>\<rparr>"
  define st2 where "st2 = snd (finish_provider_msg st1 n
      (PmSettled (ls_turn st1) (rs_message resp) (rs_stop resp) (Some (billed_usage resp))))"
  have "step_claim l st2 n (rs_message resp) (rs_stop resp) cfg = (oc, st')"
    using assms by (simp add: take_response_def Let_def st1_def st2_def)
  moreover have "ls_in_flight st2 = None" "open_ids st2 = open_ids st"
    using slots_usage(2)[of "st1\<lparr>ls_in_flight := None\<rparr>" "Some (billed_usage resp)"]
    by (simp_all add: st2_def finish_provider_msg_def Let_def same_slots_def open_ids_def) (simp add: st1_def)
  ultimately show ?thesis using step_claim_slots by metis
qed

lemma triple_take:
  "triple (hold.K a False {} []) (state_act (take_response (en_lib en) (en_cfg en) t resp req))
     (\<lambda>oc. hold.claimed a True (call_id ` set (calls_of oc)) oc) (\<lambda>_ _. True)"
  unfolding state_act_def
proof (rule triple_act)
  fix c :: "'w ctx" and oc and c' :: "'w ctx"
  assume k: "hold.K a False {} [] c"
    and r: "(case take_response (en_lib en) (en_cfg en) t resp req (cx_st c) of (x, st) \<Rightarrow> (x, c\<lparr>cx_st := st\<rparr>)) = (oc, c')"
  obtain st' where s: "take_response (en_lib en) (en_cfg en) t resp req (cx_st c) = (oc, st')" "c' = c\<lparr>cx_st := st'\<rparr>"
    using r by (auto split: prod.splits)
  have "st_grows (cx_st c) st'" "loop_ok a (cx_st c) \<longrightarrow> loop_ok a st'"
    using gr_response[of "cx_st c" "en_lib en" "en_cfg en" t resp req]
      ok_response[of a "cx_st c" "en_lib en" "en_cfg en" t resp req] s(1) by auto
  moreover have "calm a True (call_id ` set (calls_of oc)) st'"
    using k[unfolded hold_K] calculation(2) response_slots[OF s(1)] by (auto simp: calm_def)
  ultimately show "hold.claimed a True (call_id ` set (calls_of oc)) oc c'"
    using k[unfolded hold_K] durable_grows response_rows[OF s(1)]
    by (auto simp: hold.claimed_def hold_K calls_durable_def s(2))
qed

lemma triple_settle_success:
  "triple (hold.K a False {} []) (settle_success en resp req) (\<lambda>_. at_rest a) (\<lambda>_ _. True)"
proof -
  have sync: "triple (hold.claimed a b Os oc) (sync en) (\<lambda>_. hold.K a b Os (calls_of oc)) (\<lambda>_ _. True)" for b Os oc
    by (rule triple_conseq[OF hold.triple_sync_claim]) auto
  show ?thesis
    unfolding settle_success_def
    by (rule triple_andthen[OF keeps_ok[OF hold.keeps_now] triple_andthen[OF triple_take
          triple_andthen[OF sync triple_andthen[OF keeps_ok[OF hold.keeps_frames] triple_follow]]]])
qed

lemma triple_failed:
  "triple (hold.K a False {} [])
     (state_do (\<lambda>st. snd (finish_provider_msg st t (PmFailed (ls_turn st) e b u)))) (\<lambda>_. at_rest a) (\<lambda>_ _. True)"
  unfolding state_do_def
proof (rule triple_modify)
  fix c :: "'w ctx"
  assume k: "hold.K a False {} [] c"
  let ?st = "snd (finish_provider_msg (cx_st c) t (PmFailed (ls_turn (cx_st c)) e b u))"
  have "hold.K a False {} [] (c\<lparr>cx_st := ?st\<rparr>)" by (rule hold.K_step[OF k quiet_step.s_failed])
  then show "at_rest a (c\<lparr>cx_st := ?st\<rparr>)" 
    unfolding hold_K by (simp add: calm_def finished_slots)
qed

lemma triple_provider_error:
  "triple (hold.K a False {} []) (settle_provider_error en e) (\<lambda>_. at_rest a) (\<lambda>_ _. True)"
proof -
  obtain msg u ex where p: "failure_parts (en_lib en) e = (msg, u, ex)" by (metis prod_cases3)
  show ?thesis
    unfolding settle_provider_error_def p Let_def prod.case
    by (rule triple_andthen[OF keeps_ok[OF hold.keeps_cancelled]], rule triple_andthen[OF keeps_ok],
        rule keeps_rules, rule triple_andthen[OF keeps_ok[OF hold.keeps_now]], rule triple_andthen[OF triple_failed],
        rule keeps_ok) (intro keeps_rules, auto)
qed

lemma triple_round:
  "triple (hold.K a False {} []) (provider_round en) (\<lambda>_. at_rest a) (\<lambda>_ _. True)"
proof -
  note pre = keeps_ok[where I = "hold.K a False {} []"]
  have settle: "triple (hold.K a False {} [])
     (case r of
        None \<Rightarrow> andthen stop_now (\<lambda>_. settle_provider_error en (Metered LlmCancelled None False))
      | Some (Inl e) \<Rightarrow> settle_provider_error en e
      | Some (Inr resp) \<Rightarrow> settle_success en resp req) (\<lambda>_. at_rest a) (\<lambda>_ _. True)" for r req
  proof (cases r)
    case None
    then show ?thesis by simp (rule triple_andthen[OF pre triple_provider_error], rule keeps_rules)
  next
    case (Some x)
    then show ?thesis by (cases x) (simp_all add: triple_provider_error triple_settle_success)
  qed
  have c1: "keeps (hold.K a False {} []) (if b then ret () else checkpoint en)"
    "keeps (hold.K a False {} []) (if b then stop_now else ret ())"
    "keeps (hold.K a False {} []) (race en (ProviderCalled q) f)" for b q f
    by (intro keeps_rules hold.keeps_race)+
  show ?thesis
    unfolding provider_round_def
    by (rule triple_andthen[OF pre[OF hold.keeps_cancelled] triple_andthen[OF pre[OF c1(1)]
          triple_andthen[OF pre[OF hold.keeps_cancelled] triple_andthen[OF pre[OF c1(2)]
          triple_andthen[OF pre[OF hold.keeps_build] triple_andthen[OF pre[OF c1(3)] settle]]]]]])
qed

section \<open>The step head\<close>

definition refused :: "nat \<Rightarrow> nat \<Rightarrow> 'w ctx \<Rightarrow> bool" where
  "refused a t c \<longleftrightarrow>
     cx_clock c = t \<and> (\<exists>st0. start_provider_call st0 t = (False, cx_st c) \<and> calm a True {} st0)"

lemma triple_now_at: "triple (at_rest a) (now en) (\<lambda>t c. at_rest a c \<and> cx_clock c = t) E"
  unfolding now_def
proof (rule triple_act)
  fix c t c'
  assume k: "at_rest a c"
    and r: "(case w_clock en (cx_world c) of
       (d, w) \<Rightarrow> (cx_clock c + d, c\<lparr>cx_clock := cx_clock c + d, cx_world := w\<rparr>)) = (t, c')"
  then show "at_rest a c' \<and> cx_clock c' = t"
    by (auto simp: hold_K durable_def calls_durable_def split: prod.splits)
qed

lemma triple_admission:
  "triple (\<lambda>c. at_rest a c \<and> cx_clock c = t) (state_act (\<lambda>st. start_provider_call st t))
     (\<lambda>ok c. if ok then 0 < a \<and> hold.K (a - 1) False {} [] c else refused a t c) E"
  unfolding state_act_def
proof (rule triple_act)
  fix c ok c'
  assume k: "at_rest a c \<and> cx_clock c = t"
    and r: "(case start_provider_call (cx_st c) t of (x, st) \<Rightarrow> (x, c\<lparr>cx_st := st\<rparr>)) = (ok, c')"
  obtain st where s: "start_provider_call (cx_st c) t = (ok, st)" "c' = c\<lparr>cx_st := st\<rparr>"
    using r by (auto split: prod.splits)
  have calm: "calm a True {} (cx_st c)" "durable c" using k by (auto simp: hold_K)
  show "if ok then 0 < a \<and> hold.K (a - 1) False {} [] c' else refused a t c'"
  proof (cases ok)
    case True
    have "0 < a \<and> loop_ok (a - 1) st" using ok_start_admitted[of a "cx_st c" t st] calm(1) s(1) True by (simp add: calm_def)
    moreover have "open_ids st \<subseteq> open_ids (cx_st c)"
      using s(1) True by (auto simp: start_provider_call_def open_ids_def split: if_splits prod.splits sum.splits)
    moreover have "st_grows (cx_st c) st" using gr_start[of "cx_st c" t] s(1) by simp
    ultimately show ?thesis
      using calm durable_grows True s(2) unfolding hold_K by (auto simp: calm_def calls_durable_def)
  next
    case False
    then show ?thesis using calm(1) s k by (auto simp: refused_def)
  qed
qed

lemma triple_verdict: "triple (refused a t) (do_terminate en) (\<lambda>v c. \<exists>oc. v = Return oc) E"
proof (rule tripleI)
  fix c v c'
  assume f: "refused a t c" and r: "do_terminate en c = (Inr v, c')"
  obtain d w where d: "w_clock en (cx_world c) = (d, w)" by fastforce
  have "v = fst (terminate (cx_st c) (en_cfg en) (cx_clock c + d))"
    using r by (auto simp: do_terminate_def now_def state_act_def prog_defs d split: prod.splits)
  then show "\<exists>oc. v = Return oc"
    using f refused_returns[of _ t "cx_st c" a "cx_clock c + d" "en_cfg en"] by (auto simp: refused_def)
next
  fix c v c'
  assume "do_terminate en c = (Inl v, c')"
  then show "E v c'" by (auto simp: do_terminate_def now_def state_act_def prog_defs split: prod.splits)
qed

definition head_ok :: "nat \<Rightarrow> head \<Rightarrow> 'w ctx \<Rightarrow> bool" where
  "head_ok a h c \<longleftrightarrow> (h = HCall \<and> 0 < a \<and> hold.K (a - 1) False {} [] c) \<or> (\<exists>oc. h = HExit oc)"

lemma triple_step_head: "triple (at_rest a) (step_head en) (head_ok a) (\<lambda>_ _. True)"
proof -
  note pre = keeps_ok[where I = "at_rest a"]
  have verdict: "triple (refused a t)
     (andthen (do_terminate en) (\<lambda>v. case v of
          Return oc \<Rightarrow> ret (HExit oc) | Break \<Rightarrow> ret HYield
        | Continue \<Rightarrow> andthen (state_get parked) (\<lambda>p. ret (if p then HExit Done else HAgain))))
     (head_ok a) (\<lambda>_ _. True)" for t
  proof (rule triple_andthen[OF triple_verdict])
    fix v
    show "triple (\<lambda>c. \<exists>oc. v = Return oc) (case v of
          Return oc \<Rightarrow> ret (HExit oc) | Break \<Rightarrow> ret HYield
        | Continue \<Rightarrow> andthen (state_get parked) (\<lambda>p. ret (if p then HExit Done else HAgain)))
     (head_ok a) (\<lambda>_ _. True)"
      by (cases v) (auto simp: triple_def ret_def head_ok_def)
  qed
  have admitted: "triple (\<lambda>c. if ok then 0 < a \<and> hold.K (a - 1) False {} [] c else refused a t c)
     (if ok then ret HCall
      else andthen (do_terminate en) (\<lambda>v. case v of
          Return oc \<Rightarrow> ret (HExit oc) | Break \<Rightarrow> ret HYield
        | Continue \<Rightarrow> andthen (state_get parked) (\<lambda>p. ret (if p then HExit Done else HAgain))))
     (head_ok a) (\<lambda>_ _. True)" for ok t
    using verdict[of t] by (cases ok) (auto simp: triple_def ret_def head_ok_def)
  have bets: "triple (at_rest a)
     (case v of
        Return oc \<Rightarrow> ret (HExit oc)
      | _ \<Rightarrow>
          andthen (now en) (\<lambda>t1.
          andthen (state_act (\<lambda>st. start_provider_call st t1)) (\<lambda>admitted.
            if admitted then ret HCall
            else
              andthen (do_terminate en) (\<lambda>v.
                case v of
                  Return oc \<Rightarrow> ret (HExit oc)
                | Break \<Rightarrow> ret HYield
                | Continue \<Rightarrow> andthen (state_get parked) (\<lambda>p. ret (if p then HExit Done else HAgain))))))
     (head_ok a) (\<lambda>_ _. True)" for v
    by (cases v) (auto simp: head_ok_def intro!: triple_ret triple_andthen[OF triple_now_at triple_andthen[OF triple_admission admitted]])
  have stop: "keeps (at_rest a) (if b then stop_now else ret ())" for b by (intro keeps_rules)
  show ?thesis
    unfolding step_head_def
    by (rule triple_andthen[OF pre[OF hold.keeps_cancelled] triple_andthen[OF pre[OF stop]
          triple_andthen[OF pre[OF hold.keeps_now] triple_andthen[OF pre[OF hold.state_steps(4)]
          triple_andthen[OF pre[OF hold.keeps_sync] triple_andthen[OF pre[OF hold.keeps_state_get]
          triple_andthen[OF pre[OF hold.keeps_world[OF TrueI]] bets]]]]]]])
qed

text \<open>A round either ends the run or is paid for.\<close>

lemma triple_loop_round:
  "triple (at_rest a) (loop_round en) (\<lambda>_ c. 0 < a \<and> at_rest (a - 1) c) (\<lambda>_ _. True)"
  unfolding loop_round_def
proof (rule triple_andthen[OF triple_step_head])
  fix h
  show "triple (head_ok a h)
     (case h of HExit oc \<Rightarrow> throw oc | HYield \<Rightarrow> ret () | HAgain \<Rightarrow> ret () | HCall \<Rightarrow> provider_round en)
     (\<lambda>_ c. 0 < a \<and> at_rest (a - 1) c) (\<lambda>_ _. True)"
  proof (cases h)
    case HCall
    have "triple (\<lambda>c. 0 < a \<and> hold.K (a - 1) False {} [] c) (provider_round en)
        (\<lambda>_ c. 0 < a \<and> at_rest (a - 1) c) (\<lambda>_ _. True)"
      by (rule triple_pure, rule triple_conseq[OF triple_round]) auto
    then show ?thesis by (auto simp: HCall head_ok_def elim: triple_conseq)
  qed (auto simp: triple_def head_ok_def throw_def)
qed

lemma drive_ends: "at_rest a c \<Longrightarrow> a < n \<Longrightarrow> \<exists>oc. fst (drive n en c) = Some oc"
proof (induction n arbitrary: a c)
  case (Suc n)
  obtain v c1 where v: "loop_round en c = (v, c1)" by fastforce
  show ?case
  proof (cases v)
    case (Inr u)
    then have "0 < a \<and> at_rest (a - 1) c1"
      using tripleD_ok[OF triple_loop_round Suc.prems(1)] v by blast
    then show ?thesis using Suc.IH[of "a - 1" c1] Suc.prems(2) v Inr by auto
  qed (simp add: v)
qed simp

lemma calm_new: "calm (guard_allowance (ls_budget (new_state t))) True {} (new_state t)"
proof -
  have "guard_ok (new_guard (config_for UnattendedBatch) t)"
    by (rule guard_ok_new) (simp add: config_ok_def config_for_def U32_MAX_def)
  then show ?thesis
    by (simp add: calm_def new_state_def loop_ok_def gapless_def gate_ok_def new_gate_def DIRECTIVE_CAP_def
        STEP_RETRY_BUDGET_def default_verify_def VERIFY_NUDGE_CAP_def open_ids_def)
qed

lemma rest_opened:
  assumes "calm a True {} st"
  shows "at_rest a (opened en (start_ctx en st em b t w))" "just_opened (opened en (start_ctx en st em b t w))"
proof -
  have "calm a True {} (st\<lparr>ls_shape := s, ls_emit_next := i\<rparr>)" for s i
    using assms by (simp add: calm_def loop_parts open_ids_def)
  then show "at_rest a (opened en (start_ctx en st em b t w))"
    by (simp add: hold_K opened_def emitted_def start_ctx_def next_emit_id_def durable_def calls_durable_def)
  show "just_opened (opened en (start_ctx en st em b t w))"
    by (simp add: just_opened_def opened_def emitted_def start_ctx_def)
qed

lemma run_ends:
  assumes "calm a True {} st" "a < n"
  shows "\<exists>oc. fst (run n en inputs (start_ctx en st em b t w)) = Some oc"
proof -
  let ?c = "start_ctx en st em b t w"
  obtain v c1 where v: "open_run en inputs ?c = (v, c1)" by fastforce
  show ?thesis
  proof (cases v)
    case None
    then have "at_rest a c1" using hold.open_end[OF rest_opened[OF assms(1)] v] by simp
    then show ?thesis using drive_ends[of a c1 n en] assms(2) v None by (simp add: run_def)
  qed (simp add: run_def v)
qed

end
