(* ===== verification/Guarantees.thy ===== *)
theory Guarantees
  imports Halting
begin

text \<open>
  What every run promises, whatever the provider, the tools, the disk, the git tree, the clock and the
  user do: each promise is an instance of the interface \<open>run_invariant\<close>.
\<close>

section \<open>The promises as invariants\<close>

interpretation unlogged: run_invariant en "\<lambda>_ _. True" "\<lambda>c. cx_writer c \<or> cx_rows c = []" for en
  by unfold_locales auto

text \<open>Every tool runs on a call whose row is already in the file.\<close>

definition logged_first :: "'w env \<Rightarrow> effect list \<Rightarrow> bool" where
  "logged_first en tr \<longleftrightarrow>
     (\<forall>pre iv post. tr = pre @ ToolExecuted iv # post \<longrightarrow>
        (\<exists>t it. RowSynced it \<in> set pre \<and> call_row t it \<and> prepare (en_registry en) (en_agent en) t = Dispatch iv))"

definition write_ahead :: "'w env \<Rightarrow> 'w ctx \<Rightarrow> bool" where
  "write_ahead en c \<longleftrightarrow>
     (cx_writer c \<longrightarrow> logged_first en (cx_trace c) \<and> (\<forall>it\<in>set (cx_rows c). RowSynced it \<in> set (cx_trace c)))"

lemma logged_first_append:
  "logged_first en tr \<Longrightarrow> (\<And>iv. e \<noteq> ToolExecuted iv) \<Longrightarrow> logged_first en (tr @ [e])"
  unfolding logged_first_def
  by (intro allI impI) (metis append_butlast_last_id butlast.simps(2) butlast_append last_ConsL last_appendR last_snoc
      butlast_snoc list.distinct(1))

lemma logged_first_exec:
  assumes "logged_first en tr" "RowSynced it \<in> set tr" "call_row t it"
    "prepare (en_registry en) (en_agent en) t = Dispatch iv"
  shows "logged_first en (tr @ [ToolExecuted iv])"
  unfolding logged_first_def
proof (intro allI impI)
  fix pre iv' post
  assume e: "tr @ [ToolExecuted iv] = pre @ ToolExecuted iv' # post"
  show "\<exists>t it. RowSynced it \<in> set pre \<and> call_row t it \<and> prepare (en_registry en) (en_agent en) t = Dispatch iv'"
  proof (cases post rule: rev_cases)
    case Nil
    then show ?thesis using e assms(2-4) by auto
  next
    case (snoc xs x)
    then show ?thesis using e assms(1) by (auto simp: logged_first_def)
  qed
qed

interpretation wal: run_invariant en "\<lambda>_ _. True" "write_ahead en" for en
proof (unfold_locales, goal_cases)
  case (9 c iv)
  then show ?case by (auto simp: write_ahead_def exec_ok_def intro: logged_first_exec)
next
  case (10 c)
  then show ?case by (auto simp: write_ahead_def just_opened_def logged_first_def append_eq_Cons_conv)
qed (auto simp: write_ahead_def intro: logged_first_append)

text \<open>One \<open>RunStart\<close>, and no frame of a run's ends in between.\<close>

definition started :: "effect list \<Rightarrow> bool" where
  "started tr \<longleftrightarrow>
     (\<exists>rid goal mid. tr = Emitted (RunStart rid goal) # mid \<and> (\<forall>ev. Emitted ev \<in> set mid \<longrightarrow> \<not> boundary ev))"

lemma started_append: "started tr \<Longrightarrow> (\<And>ev. e = Emitted ev \<Longrightarrow> \<not> boundary ev) \<Longrightarrow> started (tr @ [e])"
  unfolding started_def by auto

interpretation frames: run_invariant en "\<lambda>_ _. True" "\<lambda>c. started (cx_trace c)" for en
  by unfold_locales (auto intro: started_append)

lemma frames_K: "frames.K cs c \<longleftrightarrow> started (cx_trace c) \<and> durable c \<and> calls_durable cs c"
  by (simp add: frames.K_def)

text \<open>The rows start with the header, and the state keeps its invariant.\<close>

definition headed :: "item list \<Rightarrow> bool" where
  "headed its \<longleftrightarrow> (\<exists>it rest h. its = it # rest \<and> kind it = IHeader h \<and> version h = LOG_VERSION)"

definition sound :: "nat \<Rightarrow> loop_state \<Rightarrow> bool" where
  "sound a st \<longleftrightarrow> loop_ok a st \<and> headed (ls_items st)"

interpretation limits: run_invariant en "\<lambda>_ _. True" "\<lambda>c. loop_ok a (cx_st c)" for en a
  by unfold_locales (auto intro: quiet_step_ok)

lemma headed_grows: "headed (ls_items st) \<Longrightarrow> st_grows st st' \<Longrightarrow> headed (ls_items st')"
proof -
  assume "headed (ls_items st)" and g: "st_grows st st'"
  then obtain it rest h where i: "ls_items st = it # rest" "kind it = IHeader h" "version h = LOG_VERSION"
    by (auto simp: headed_def)
  then obtain it' rest' where i': "ls_items st' = it' # rest'" "same_row it it'"
    using g by (cases "ls_items st'") (auto simp: st_grows_def grows_def)
  then have "it' = it" using i(2) by (auto simp: same_row_def)
  then show ?thesis using i i' by (auto simp: headed_def)
qed

interpretation wf: run_invariant en "\<lambda>_ _. True" "\<lambda>c. sound a (cx_st c)" for en a
  by unfold_locales (auto simp: sound_def intro: quiet_step_ok headed_grows quiet_step_grows)

text \<open>A run on a fresh state writes its header before anything else.\<close>

definition fresh :: "nat \<Rightarrow> 'w ctx \<Rightarrow> bool" where
  "fresh a c \<longleftrightarrow> loop_ok a (cx_st c) \<and> ls_items (cx_st c) = [] \<and> cx_synced c = 0 \<and> cx_rows c = []"

lemma wf_K: "wf.K a cs c \<longleftrightarrow> sound a (cx_st c) \<and> durable c \<and> calls_durable cs c"
  by (simp add: wf.K_def)

lemma fresh_header: "fresh a c \<Longrightarrow> wf.K a [] (c\<lparr>cx_st := push_item (cx_st c) t (IHeader
   \<lparr>version = LOG_VERSION, session_id = sid, cwd = d, model_name = m\<rparr>)\<rparr>)"
  unfolding wf_K unfolding sound_def
  by (auto simp: fresh_def headed_def durable_def calls_durable_def push_item_def append_to_def Let_def)
    (simp add: loop_parts gapless_def)

lemma triple_fresh_writer:
  "triple (fresh a) (open_writer en) (\<lambda>_. fresh a) (\<lambda>e c. \<not> fst e \<and> cx_rows c = [])"
  by (auto simp: triple_def open_writer_def end_now_def lift_finish_def world_def emit_ev_def prog_defs fresh_def
      split: option.splits sum.splits prod.splits)

lemma triple_fresh_header: "triple (fresh a) (open_header en) (\<lambda>_. wf.K a []) (\<lambda>_. wf.K a [])"
proof -
  have head: "triple (fresh a) (gets (\<lambda>c. (ls_items (cx_st c) = [], cx_run_id c))) (\<lambda>p c. fst p \<and> fresh a c) E" for E
    by (rule triple_gets) (simp add: fresh_def)
  have now: "triple (fresh a) (now en) (\<lambda>_. fresh a) E" for E
    unfolding now_def by (rule triple_act) (auto simp: fresh_def split: prod.splits)
  have push: "triple (fresh a) (state_do (\<lambda>st. push_item st t (IHeader
     \<lparr>version = LOG_VERSION, session_id = sid, cwd = d, model_name = m\<rparr>))) (\<lambda>_. wf.K a []) E" for t sid d m E
    unfolding state_do_def by (rule triple_modify) (rule fresh_header)
  have rec: "triple (fresh a) (record_row en (IHeader
     \<lparr>version = LOG_VERSION, session_id = sid, cwd = d, model_name = m\<rparr>) None) (\<lambda>_. wf.K a []) (\<lambda>_. wf.K a [])"
    for sid d m
    unfolding record_row_def option.case
    by (rule triple_andthen[OF now triple_andthen[OF push triple_andthen[OF keeps_triple[OF wf.keeps_sync]
          keeps_triple[OF keeps_ret]]]])
  show ?thesis
    unfolding open_header_def
    by (rule triple_andthen[OF head]) (auto simp: triple_def[of "\<lambda>_. False"] intro: rec split: prod.split)
qed

lemma triple_fresh_open:
  "triple (fresh a) (open_rest en inputs) (\<lambda>_. wf.K a []) (wf.closed_or a (\<lambda>c. cx_rows c = []))"
proof -
  have writer: "triple (fresh a) (open_writer en) (\<lambda>_. fresh a) (wf.closed_or a (\<lambda>c. cx_rows c = []))"
    by (rule triple_conseq[OF triple_fresh_writer]) (auto simp: wf.closed_or_def)
  have header: "triple (fresh a) (lift_finish (open_header en)) (\<lambda>_. wf.K a []) (wf.closed_or a (\<lambda>c. cx_rows c = []))"
    unfolding lift_finish_def
    by (rule triple_map_error, rule triple_conseq[OF triple_fresh_header]) (auto simp: wf.closed_or_def wf.closed_def)
  have tail: "triple (wf.K a []) (open_tail en inputs) (\<lambda>_. wf.K a []) (wf.closed_or a (\<lambda>c. cx_rows c = []))"
    by (rule triple_conseq[OF wf.triple_open_tail]) (auto simp: wf.closed_or_def)
  show ?thesis
    unfolding open_rest_def by (rule triple_andthen[OF writer triple_andthen[OF header tail]])
qed

section \<open>Worlds to run in\<close>

text \<open>A world whose git tree cannot be prepared, and one in which the model has nothing to do.\<close>

definition demo_lib :: lib where
  "demo_lib = \<lparr>enc_msg = (\<lambda>m. Inr (JStr (am_content m))), dec_msg = (\<lambda>j. Inl ''no decoder''),
     json_text = (\<lambda>_. []), obs_hash = (\<lambda>s. length s), debug_error = (\<lambda>_. ''error'')\<rparr>"

definition broken_env :: "unit env" where
  "broken_env =
     \<lparr>en_lib = demo_lib, en_cfg = default_run_config\<lparr>rc_log_path := Some ''run.jsonl''\<rparr>,
      en_registry = new_registry (\<lambda>_ _ _. Allow), en_agent = ''a'', en_workdir = ''/w'',
      w_clock = (\<lambda>w. (0, w)), w_cancel = (\<lambda>w. (False, w)), w_complete = (\<lambda>_ _ w. (None, w)),
      w_execute = (\<lambda>_ w. (None, w)), w_log_open = (\<lambda>_ w. (Inr (), w)), w_append = (\<lambda>_ w. (True, w)),
      w_ensure = (\<lambda>w. (Inl ''no git'', w)), w_baseline = (\<lambda>w. (Inr (), w)), w_rollback = (\<lambda>w. (Inr (), w)),
      w_restore = (\<lambda>_ w. (Inr (), w)), w_diff = (\<lambda>w. (Inr (), w)),
      w_patch = (\<lambda>w. (Inr \<lparr>pt_text = [], pt_truncated = False\<rparr>, w)), w_probe = (\<lambda>_ w. (True, w)),
      w_listing = (\<lambda>w. (None, w)), w_read_file = (\<lambda>_ w. (None, w)), w_bets_head = (\<lambda>_ w. (Continue, w)),
      w_bets_batch = (\<lambda>_ _ w. (Committed, w)), w_bets_step = (\<lambda>w. (Continue, w))\<rparr>"

definition broken_ctx :: "unit ctx" where
  "broken_ctx = start_ctx broken_env (new_state 0) new_emitter False 0 ()"

lemma broken_rows:
  "cx_rows (snd (run 1 broken_env [] broken_ctx)) =
     [\<lparr>seq = 1, item_id = ''item-1'', parent_id = None, recorded_at = 0,
       kind = IHeader \<lparr>version = 1, session_id = ''run-0'', cwd = ''/w'', model_name = ''run-model''\<rparr>\<rparr>,
      \<lparr>seq = 2, item_id = ''item-2'', parent_id = None, recorded_at = 0,
       kind = ITurnEnd ''turn-0'' (ErrorReason ''snapshot ensure: no git'')\<rparr>]"
  by (simp add: broken_ctx_def broken_env_def start_ctx_def new_state_def default_run_config_def run_def
      open_run_def open_body_def open_writer_def open_header_def tree_do_def finish_def record_row_def sync_def
      append_row_def lift_finish_def prog_defs state_act_def state_do_def state_get_def next_emit_id_def
      emit_ev_def observe_def world_def now_def push_item_def append_to_def outcome_log_reason_def
      stick_turn_reason_def turn_id_def LOG_VERSION_def dec.simps char_of_def bit_0 Let_def)

definition row_ser :: "item \<Rightarrow> string" where
  "row_ser it = (if seq it = 1 then ''{1}'' else ''{2}'')"

definition row_de :: "item list \<Rightarrow> string \<Rightarrow> string + item" where
  "row_de its s = (if s = ''{1}'' then Inr (its ! 0) else if s = ''{2}'' then Inr (its ! 1) else Inl ''bad'')"

lemma fresh_opened:
  assumes "loop_ok a st" "ls_items st = []"
  shows "fresh a (opened en (start_ctx en st em b t w))"
  using assms by (simp add: fresh_def opened_def emitted_def start_ctx_def next_emit_id_def loop_parts)

lemma same_row_header: "same_row a b \<Longrightarrow> seq a = seq b \<and> (kind b = IHeader h \<longrightarrow> kind a = IHeader h)"
  by (auto simp: same_row_def)

lemma well_formed_rows:
  assumes "list_all2 same_row rows (take (length rows) its)" "length rows \<le> length its"
    "loop_ok a st \<and> headed its \<and> ls_items st = its"
  shows "well_formed_log rows"
proof -
  have g: "gapless its" using assms(3) by (auto simp: loop_ok_def)
  have row: "same_row (rows ! i) (its ! i)" if "i < length rows" for i
    using assms(1) that by (simp add: list_all2_conv_all_nth)
  have "gapless rows"
    unfolding gapless_def
  proof (intro allI impI)
    fix i
    assume i: "i < length rows"
    then have "seq (rows ! i) = seq (its ! i)" using same_row_header[OF row[OF i]] by blast
    then show "seq (rows ! i) = i + 1" using g i assms(2) by (simp add: gapless_def)
  qed
  moreover have "\<exists>h. kind (hd rows) = IHeader h \<and> version h = LOG_VERSION" if "rows \<noteq> []"
  proof -
    obtain it h where h: "its ! 0 = it" "kind it = IHeader h" "version h = LOG_VERSION"
      using assms(3) by (auto simp: headed_def)
    have "same_row (rows ! 0) (its ! 0)" using row[of 0] that by simp
    then have "kind (rows ! 0) = IHeader h" using same_row_header h by metis
    then show ?thesis using h(3) that by (simp add: hd_conv_nth)
  qed
  ultimately show ?thesis by (auto simp: well_formed_log_def)
qed

lemma calm_from:
  "loop_ok a st \<Longrightarrow> ls_in_flight st = None \<Longrightarrow> open_tools st = 0 \<Longrightarrow> calm a True {} st"
  by (simp add: calm_def open_tools_zero)

section \<open>Properties\<close>

text \<open>C1 (run_terminates): Every run ends. From a state that has no call in flight and none open, with a
  step allowance of \<open>a\<close> (steps and refunds left, and the grace step), \<open>a + 1\<close> turns of the driver's loop
  always reach an outcome, whatever the provider, the tools, the disk, git, the bets hook, the clock
  and the user do; in particular the driver never spins on a refused step.\<close>

theorem run_terminates:
  assumes "loop_ok a st" "ls_in_flight st = None" "open_tools st = 0" "a < n"
  shows "\<exists>oc. fst (run n en inputs (start_ctx en st em b t w)) = Some oc"
  by (rule run_ends[OF calm_from[OF assms(1-3)] assms(4)])

lemma new_allowance: "loop_ok 26 (new_state t)"
proof -
  have "calm (guard_allowance (ls_budget (new_state t))) True {} (new_state t)" by (rule calm_new)
  moreover have "guard_allowance (ls_budget (new_state t)) = 26"
    by (simp add: guard_allowance_def new_state_def new_guard_def config_for_def zero_counters_def)
  ultimately show ?thesis by (simp add: calm_def)
qed

theorem run_terminates_witness:
  "\<exists>oc. fst (run 27 broken_env [InUser ''fix the bug''] (start_ctx broken_env (new_state 0) new_emitter False 0 ())) = Some oc"
  by (rule run_terminates[OF new_allowance]) (simp_all add: new_state_def open_tools_def)

text \<open>C5 (run_is_bracketed): A run announces itself once and says how it ended once: its first frame is the
  only \<open>RunStart\<close>, its last frame is the only \<open>RunEnd\<close> and carries the outcome the run returns, on every
  path, also when the log cannot be opened or the disk fails.\<close>

theorem run_is_bracketed:
  assumes "loop_ok a st" "ls_in_flight st = None" "open_tools st = 0" "a < n"
  shows "\<exists>oc rid goal mid c'. run n en inputs (start_ctx en st em b t w) = (Some oc, c')
    \<and> cx_trace c' = Emitted (RunStart rid goal) # mid @ [Emitted (RunEnd (event_outcome oc) [])]
    \<and> (\<forall>ev. Emitted ev \<in> set mid \<longrightarrow> \<not> boundary ev)"
proof -
  let ?c = "start_ctx en st em b t w"
  obtain oc c' where r: "run n en inputs ?c = (Some oc, c')"
    using run_ends[OF calm_from[OF assms(1-3)] assms(4)] by (metis prod.collapse)
  have "frames.K [] (opened en ?c)" "just_opened (opened en ?c)"
    unfolding frames_K
    by (auto simp: started_def durable_def calls_durable_def just_opened_def opened_def emitted_def start_ctx_def)
  from frames.run_end[OF this r] obtain c2 where c2: "started (cx_trace c2)" "c' = emitted (end_frame oc) c2"
    unfolding frames_K by auto
  then show ?thesis using r by (fastforce simp: started_def emitted_def end_frame_def)
qed

theorem run_is_bracketed_witness:
  "\<exists>oc rid goal mid c'. run 27 broken_env [] broken_ctx = (Some oc, c')
    \<and> cx_trace c' = Emitted (RunStart rid goal) # mid @ [Emitted (RunEnd (event_outcome oc) [])]
    \<and> (\<forall>ev. Emitted ev \<in> set mid \<longrightarrow> \<not> boundary ev)"
  unfolding broken_ctx_def by (rule run_is_bracketed[OF new_allowance]) (simp_all add: new_state_def open_tools_def)

text \<open>C6 (run_log_is_prefix): At every point a run can end, the rows in the log file are the first rows
  of the state in memory, in order and each appended once; where a row differs it is a tool result
  that has since been extended at its end.\<close>

theorem run_log_is_prefix:
  "\<exists>k. list_all2 same_row (cx_rows (snd (run n en inputs (start_ctx en st em b t w))))
         (take k (ls_items (cx_st (snd (run n en inputs (start_ctx en st em b t w))))))"
proof -
  let ?c = "start_ctx en st em b t w"
  obtain r c' where r: "run n en inputs ?c = (r, c')" by fastforce
  have prefix: "\<exists>k. list_all2 same_row (cx_rows c) (take k (ls_items (cx_st c)))"
    if "unlogged.K [] c" for c :: "'a ctx"
    using that by (cases "cx_writer c") (auto simp: unlogged.K_def durable_def)
  have "unlogged.K [] (opened en ?c)" "just_opened (opened en ?c)"
    by (auto simp: unlogged.K_def durable_def calls_durable_def just_opened_def opened_def emitted_def start_ctx_def)
  from unlogged.run_end[OF this r] have "\<exists>k. list_all2 same_row (cx_rows c') (take k (ls_items (cx_st c')))"
    using prefix by (cases r) (auto simp: emitted_def)
  then show ?thesis by (simp add: r)
qed

text \<open>C3 (tools_run_after_logged): With a log, no tool runs before the row of its call is in the file: each
  execution in the history comes after the synced row of a call that the registry prepared to exactly
  this invocation.\<close>

theorem tools_run_after_logged: "write_ahead en (snd (run n en inputs (start_ctx en st em b t w)))"
proof -
  let ?c = "start_ctx en st em b t w"
  obtain r c' where r: "run n en inputs ?c = (r, c')" by fastforce
  have "wal.K en [] (opened en ?c)" "just_opened (opened en ?c)"
    by (auto simp: wal.K_def write_ahead_def durable_def calls_durable_def just_opened_def opened_def emitted_def start_ctx_def)
  from wal.run_end[OF this r] have "write_ahead en c'"
    by (cases r) (auto simp: wal.K_def emitted_def write_ahead_def intro: logged_first_append)
  then show ?thesis by (simp add: r)
qed

text \<open>C7 (run_keeps_limits): A run keeps the invariant of the loop state: rows numbered from 1 without a gap,
  at most three directives waiting, at most two provider retries and two verification nudges, one entry
  per open call, a gate that is closed only by an abort or a fatal error, and a step allowance that
  never grows.\<close>

theorem run_keeps_limits:
  assumes "loop_ok a st"
  shows "loop_ok a (cx_st (snd (run n en inputs (start_ctx en st em b t w))))"
proof -
  let ?c = "start_ctx en st em b t w"
  obtain r c' where r: "run n en inputs ?c = (r, c')" by fastforce
  have "loop_ok a (st\<lparr>ls_shape := s, ls_emit_next := i\<rparr>)" for s i using assms by (simp add: loop_parts)
  then have "limits.K a [] (opened en ?c)" "just_opened (opened en ?c)"
    by (auto simp: limits.K_def durable_def calls_durable_def just_opened_def opened_def emitted_def start_ctx_def next_emit_id_def)
  from limits.run_end[OF this r] have "loop_ok a (cx_st c')"
    by (cases r) (auto simp: limits.K_def emitted_def)
  then show ?thesis by (simp add: r)
qed

theorem run_keeps_limits_witness:
  "loop_ok 26 (cx_st (snd (run 5 broken_env [InStopHard] (start_ctx broken_env (new_state 0) new_emitter False 0 ()))))"
  by (rule run_keeps_limits[OF new_allowance])



end
