(* ===== verification/Decisions.thy ===== *)
theory Decisions
  imports Guarantees
begin

text \<open>
  What the loop decides and why: the checkpoint's cut stays inside the transcript, a held declare is
  earned, repeated provider failures are fatal, a failed batch is announced before it is undone, and
  the patch splitter makes one fragment per hunk.
\<close>

section \<open>The checkpoint\<close>

definition transcript_length :: "lib \<Rightarrow> loop_state \<Rightarrow> nat" where
  "transcript_length l st = length (List.map_filter (message_of_item l) (ls_items st))"

definition cut_inside :: "lib \<Rightarrow> loop_state \<Rightarrow> bool" where
  "cut_inside l st \<longleftrightarrow> (case ls_checkpoint st of None \<Rightarrow> True | Some cp \<Rightarrow> cp_keep_from cp \<le> transcript_length l st)"

lemma length_rewrite_first [simp]: "length (rewrite_first f r n ms) = length ms"
  by (induction f r n ms rule: rewrite_first.induct) (auto split: nat.splits)

lemma length_raw: "length (raw_messages l st cfg) = transcript_length l st"
  by (simp add: raw_messages_def raw_messages_with_def collapse_tools_def trim_thinking_def transcript_length_def)

lemma same_row_message: "same_row a b \<Longrightarrow> (message_of_item l a = None) = (message_of_item l b = None)"
  by (auto simp: same_row_def message_of_item_def)

lemma map_filter_append: "List.map_filter f (xs @ ys) = List.map_filter f xs @ List.map_filter f ys"
  by (simp add: List.map_filter_def)

lemma transcript_grows: "st_grows st st' \<Longrightarrow> transcript_length l st \<le> transcript_length l st'"
proof -
  assume g: "st_grows st st'"
  let ?n = "length (ls_items st)"
  have "length (List.map_filter (message_of_item l) xs) = length (List.map_filter (message_of_item l) ys)"
    if "list_all2 same_row xs ys" for xs ys
    using that
  proof (induction rule: list_all2_induct)
    case (Cons a xs b ys)
    then show ?case using same_row_message[of a b l] by (auto simp: List.map_filter_def)
  qed simp
  from this[of "ls_items st" "take ?n (ls_items st')"]
  have "transcript_length l st = length (List.map_filter (message_of_item l) (take ?n (ls_items st')))"
    using g by (simp add: transcript_length_def st_grows_def grows_def)
  also have "\<dots> \<le> transcript_length l st'"
    unfolding transcript_length_def by (metis append_take_drop_id length_append map_filter_append le_add1)
  finally show ?thesis .
qed

lemma cut_inside_grows:
  "cut_inside l st \<Longrightarrow> ls_checkpoint st' = ls_checkpoint st \<Longrightarrow> st_grows st st' \<Longrightarrow> cut_inside l st'"
  using transcript_grows[of st st' l] by (auto simp: cut_inside_def split: option.splits)

lemma cp_open [simp]: "ls_checkpoint (open_turn st t) = ls_checkpoint st" "ls_checkpoint (push_item st t k) = ls_checkpoint st"
  by (simp_all add: open_turn_def push_item_def Let_def)

lemma cp_usage [simp]: "ls_checkpoint (record_usage st u) = ls_checkpoint st" "ls_checkpoint (meter st uo) = ls_checkpoint st"
  by (simp_all add: record_usage_def meter_def Let_def split: option.splits)

lemma cp_input [simp]: "ls_checkpoint (apply_input st t inp) = ls_checkpoint st"
  "ls_checkpoint (admit_steering st t) = ls_checkpoint st"
  by (auto simp: apply_input_def enqueue_def admit_steering_def Let_def split: input.splits phase.splits)

lemma cp_finish [simp]: "ls_checkpoint (snd (finish_provider_msg st t msg)) = ls_checkpoint st"
  by (auto simp: finish_provider_msg_def Let_def split: provider_msg.splits)

lemma cp_misc [simp]: "ls_checkpoint (stick_turn_reason st r) = ls_checkpoint st"
  "ls_checkpoint (push_directive st d cfg) = ls_checkpoint st" "ls_checkpoint (refund_batch st snap) = ls_checkpoint st"
  "ls_checkpoint (assess_batch rep st) = ls_checkpoint st" "ls_checkpoint (note_verdict rep v st) = ls_checkpoint st"
  "ls_checkpoint (append_to_tail st s) = ls_checkpoint st" "ls_checkpoint (queue_directives st cfg) = ls_checkpoint st"
  by (simp_all add: stick_turn_reason_def push_directive_def refund_batch_def update_counters_def assess_batch_def
      note_verdict_def append_to_tail_def queue_directives_def Let_def)

lemma cp_executed [simp]: "ls_checkpoint (snd (note_tool_execution l st name args r)) = ls_checkpoint st"
  by (simp add: note_tool_execution_def observe_action_def update_counters_def Let_def split: prod.splits)

lemma cp_tail [simp]: "ls_checkpoint (settle_tool_tail st t cfg) = ls_checkpoint st"
proof -
  have "ls_checkpoint (snd (apply_budget_nudge s t)) = ls_checkpoint s" for s
    by (auto simp: apply_budget_nudge_def split: prod.splits option.splits nudge.splits)
  moreover have "ls_checkpoint (foldl append_to_tail s ds) = ls_checkpoint s" for s ds
    by (induction ds arbitrary: s) auto
  ultimately show ?thesis by (simp add: settle_tool_tail_def deliver_directives_def)
qed

lemma cp_result [simp]: "ls_checkpoint (snd (record_tool_result st t msg)) = ls_checkpoint st"
  by (auto simp: record_tool_result_def Let_def split: option.splits)

lemma cp_terminate [simp]: "ls_checkpoint (snd (terminate st cfg t)) = ls_checkpoint st"
proof -
  have "ls_checkpoint (snd (park st t)) = ls_checkpoint st"
    by (auto simp: park_def hop_turn_def Let_def split: list.splits)
  moreover have "ls_checkpoint (snd (drain_stop st cfg t)) = ls_checkpoint st"
    by (simp add: drain_stop_def Let_def)
  ultimately show ?thesis by (auto simp: terminate_def split: option.splits turn_end_reason.splits)
qed

lemma cp_start [simp]: "ls_checkpoint (snd (start_provider_call st t)) = ls_checkpoint st"
  by (auto simp: start_provider_call_def split: prod.splits sum.splits)

lemma cp_response [simp]: "ls_checkpoint (snd (take_response l cfg t resp req st)) = ls_checkpoint st"
proof -
  have claims: "ls_checkpoint (foldl (claim_call l t) s tcs) = ls_checkpoint s"
    "ls_checkpoint (foldl (claim_truncated l t) s tcs) = ls_checkpoint s" for s tcs
    by (induction tcs arbitrary: s) (auto simp: claim_call_def claim_truncated_def Let_def)
  have push: "ls_checkpoint (push_assistant l s t m label) = ls_checkpoint s" for s m label
    by (simp add: push_assistant_def Let_def)
  have decl: "ls_checkpoint (snd (claim_declare s t cfg)) = ls_checkpoint s" for s
    by (auto simp: claim_declare_def verify_nudge_due_def Let_def split: prod.splits option.splits)
  have "ls_checkpoint (snd (step_claim l s t m stop cfg)) = ls_checkpoint s" for s m stop
    by (simp add: step_claim_def Let_def claims push decl)
  then show ?thesis by (simp add: take_response_def Let_def)
qed

lemma cut_inside_quiet:
  assumes "quiet_step l cfg st st'" "cut_inside l st"
  shows "cut_inside l st'"
  using assms
proof (cases rule: quiet_step.cases)
  case (s_checkpoint i s)
  have "i < length (derived_messages l st cfg)" using s_checkpoint by simp
  then show ?thesis
    using assms(2) s_checkpoint
    by (auto simp: cut_inside_def apply_checkpoint_def transcript_length_def derived_messages_def Let_def
        length_raw[unfolded transcript_length_def] split: option.splits)
qed (rule cut_inside_grows[OF assms(2) _ quiet_step_grows[OF assms(1)]], simp)+

interpretation cuts: run_invariant en "\<lambda>_ _. True" "\<lambda>c. cut_inside (en_lib en) (cx_st c)" for en
  by unfold_locales (auto intro: cut_inside_quiet cut_inside_grows)

lemma cuts_K: "cuts.K en cs c \<longleftrightarrow> cut_inside (en_lib en) (cx_st c) \<and> durable c \<and> calls_durable cs c"
  by (simp add: cuts.K_def)

section \<open>The verification nudge\<close>

lemma nudge_due_Some:
  assumes "verify_nudge_due st tm rc = (Some s, st1)"
  shows "s = VERIFY_NUDGE \<and> \<not> rc_incentives rc < FullLevel
    \<and> vs_nudges_used (ls_verify st) < VERIFY_NUDGE_CAP \<and> vs_edits_at_last_nudge (ls_verify st) < ls_edits st
    \<and> \<not> vs_verified_since_write (ls_verify st) \<and> exceeded (ls_budget st) tm = None
    \<and> \<not> max_steps (config (ls_budget st)) - steps (counters (ls_budget st)) < 2
    \<and> st1 = st\<lparr>ls_verify := (ls_verify st)\<lparr>vs_nudges_used := vs_nudges_used (ls_verify st) + 1,
                              vs_edits_at_last_nudge := ls_edits st\<rparr>\<rparr>"
  using assms unfolding verify_nudge_due_def Let_def
  by (simp only: not_le not_less prod.inject option.inject option.distinct simp_thms split: if_split_asm)

section \<open>Patch fragments\<close>

definition hunk_lines :: "string list \<Rightarrow> nat" where
  "hunk_lines ls = length (filter (prefix ''@@'') ls)"

definition one_hunk :: "string \<Rightarrow> bool" where
  "one_hunk f \<longleftrightarrow> (\<exists>hdr body. f = hdr @ newline @ body \<and> prefix ''@@'' body)"

definition split_ok :: "split_state \<Rightarrow> bool" where
  "split_ok s \<longleftrightarrow> list_all one_hunk (sp_out s) \<and> (\<forall>h. sp_cur s = Some h \<longrightarrow> one_hunk h)"

definition found :: "split_state \<Rightarrow> nat" where
  "found s = length (sp_out s) + (case sp_cur s of None \<Rightarrow> 0 | Some _ \<Rightarrow> 1)"

lemma one_hunk_more: "one_hunk h \<Longrightarrow> one_hunk (h @ newline @ l)"
  unfolding one_hunk_def by (elim exE conjE) (metis append.assoc prefix_append)

lemma take_cur_ok: "split_ok s \<Longrightarrow> split_ok (take_cur s) \<and> sp_cur (take_cur s) = None \<and> found (take_cur s) = found s"
  by (auto simp: take_cur_def split_ok_def found_def split: option.splits)

lemma split_line_ok:
  "split_ok s \<Longrightarrow> split_ok (split_line s l) \<and> found (split_line s l) = found s + (if prefix ''@@'' l then 1 else 0)"
proof -
  assume ok: "split_ok s"
  have d: "prefix ''@@'' l \<Longrightarrow> \<not> prefix ''diff --git'' l" by (auto simp: prefix_def)
  note t = take_cur_ok[OF ok]
  have hunk: "one_hunk (hd @ newline @ l)" if "prefix ''@@'' l" for hd using that unfolding one_hunk_def by blast
  show ?thesis
    using ok t d hunk
    by (auto simp: split_line_def split_ok_def found_def Let_def one_hunk_more split: option.splits)
qed

lemma split_lines_ok:
  "split_ok s \<Longrightarrow> split_ok (foldl split_line s ls) \<and> found (foldl split_line s ls) = found s + hunk_lines ls"
proof (induction ls arbitrary: s)
  case (Cons l ls)
  then show ?case using split_line_ok[OF Cons.prems, of l] by (auto simp: hunk_lines_def)
qed (simp add: hunk_lines_def)

section \<open>What a sync leaves behind\<close>

text \<open>A program that only adds to the history and keeps the state.\<close>

lemma append_row_result:
  assumes "append_row en it c = (Inr u, c')"
  shows "cx_st c' = cx_st c \<and> cx_writer c' = cx_writer c \<and> cx_trace c' = cx_trace c @ [RowSynced it]"
  using assms by (auto simp: append_row_def andthen_def world_def act_def modify_def throw_def split: prod.splits if_splits)

lemma append_rows_result:
  "for_each (append_row en) xs c = (Inr u, c') \<Longrightarrow>
   cx_st c' = cx_st c \<and> cx_trace c' = cx_trace c @ map RowSynced xs"
proof (induction xs arbitrary: c)
  case (Cons x xs)
  obtain v c1 where v: "append_row en x c = (v, c1)" by fastforce
  then obtain u1 where "v = Inr u1" "for_each (append_row en) xs c1 = (Inr u, c')"
    using Cons.prems by (cases v) (auto simp: andthen_def)
  then show ?case using append_row_result[of en x c u1 c1] v Cons.IH[of c1] by simp
qed (simp add: ret_def)

lemma sync_result:
  assumes "sync en c = (Inr u, c')" "cx_writer c" "cx_synced c < length (ls_items (cx_st c))"
  shows "cx_st c' = cx_st c \<and> cx_trace c' = cx_trace c @ map RowSynced (drop (cx_synced c) (ls_items (cx_st c)))"
  using append_rows_result assms by (simp add: sync_def)

lemma record_result:
  assumes "record_row en k None c = (Inr u, c')" "cx_writer c" "cx_synced c \<le> length (ls_items (cx_st c))"
  shows "\<exists>it. RowSynced it \<in> set (cx_trace c') \<and> kind it = k"
proof -
  obtain d w where "w_clock en (cx_world c) = (d, w)" by fastforce
  then obtain t c1 where n: "now en c = (Inr t, c1)" by (simp add: now_def act_def)
  define c2 where "c2 = c1\<lparr>cx_st := push_item (cx_st c1) t k\<rparr>"
  have c1: "cx_st c1 = cx_st c" "cx_writer c1 = cx_writer c" "cx_synced c1 = cx_synced c"
    using n by (auto simp: now_def act_def split: prod.splits)
  have "sync en c2 = (Inr u, c')"
    using assms(1) by (auto simp: record_row_def andthen_def n state_do_def modify_def ret_def c2_def split: prod.splits sum.splits)
  from sync_result[OF this]
  have "cx_trace c' = cx_trace c2 @ map RowSynced (drop (cx_synced c) (ls_items (cx_st c2)))"
    using assms(2,3) c1 by (simp add: c2_def push_item_def append_to_def Let_def)
  moreover have "\<exists>it\<in>set (drop (cx_synced c) (ls_items (cx_st c2))). kind it = k"
    using assms(3) c1 by (simp add: c2_def push_item_def append_to_def Let_def)
  ultimately show ?thesis by auto
qed

section \<open>Properties\<close>

text \<open>C8 (checkpoint_in_range): However a run proceeds, the checkpoint's cut stays inside the transcript it
  cuts, so the fold that drops the summarized prefix never slices out of range, also when a later
  summary absorbs an earlier one and after every rollback, hop and failure.\<close>

theorem checkpoint_in_range:
  assumes "cut_inside (en_lib en) st"
  shows "case ls_checkpoint (cx_st (snd (run n en inputs (start_ctx en st em b t w)))) of None \<Rightarrow> True
    | Some cp \<Rightarrow> cp_keep_from cp
        \<le> length (raw_messages (en_lib en) (cx_st (snd (run n en inputs (start_ctx en st em b t w)))) (en_cfg en))"
proof -
  let ?c = "start_ctx en st em b t w"
  obtain r c' where r: "run n en inputs ?c = (r, c')" by fastforce
  have "cut_inside l (st\<lparr>ls_shape := x, ls_emit_next := y\<rparr>) = cut_inside l st" for l x y
    by (simp add: cut_inside_def transcript_length_def split: option.split)
  then have "cuts.K en [] (opened en ?c)" "just_opened (opened en ?c)"
    unfolding cuts_K using assms
    by (simp_all add: durable_def calls_durable_def just_opened_def opened_def emitted_def start_ctx_def next_emit_id_def)
  from cuts.run_end[OF this r] have "cut_inside (en_lib en) (cx_st c')"
    by (cases r) (auto simp: cuts_K emitted_def)
  then show ?thesis by (simp add: r cut_inside_def length_raw split: option.splits)
qed

definition folded_state :: loop_state where
  "folded_state = (new_state 0)
     \<lparr>ls_items := append_to [] 0 (IInput ''input-1-0'' ''fix it'' External),
      ls_checkpoint := Some \<lparr>cp_keep_from = 1, cp_summary = ''asked to fix it''\<rparr>\<rparr>"

theorem checkpoint_in_range_witness:
  "cut_inside demo_lib folded_state
   \<and> (case ls_checkpoint (cx_st (snd (run 1 broken_env [] (start_ctx broken_env folded_state new_emitter False 0 ())))) of
        None \<Rightarrow> True
      | Some cp \<Rightarrow> cp_keep_from cp \<le> length (raw_messages demo_lib
          (cx_st (snd (run 1 broken_env [] (start_ctx broken_env folded_state new_emitter False 0 ())))) (en_cfg broken_env)))"
proof -
  have l: "en_lib broken_env = demo_lib" by (simp add: broken_env_def)
  have "cut_inside (en_lib broken_env) folded_state"
    by (simp add: cut_inside_def folded_state_def transcript_length_def append_to_def message_of_item_def
        List.map_filter_def)
  from this checkpoint_in_range[OF this] show ?thesis unfolding l by blast
qed


definition edited_state :: loop_state where
  "edited_state = (new_state 0)\<lparr>ls_turn := 1, ls_phase := Running, ls_edits := 1\<rparr>"

definition declare_message :: assistant_message where
  "declare_message = \<lparr>am_content = ''done'', am_tool_calls = [], am_thinking = None\<rparr>"


text \<open>C10 (third_failure_is_fatal): Within one step the provider may fail twice: the step head that follows a
  success or an input restores two retries, each failure that is not a cancellation takes one and asks
  for the model again, and the third closes the gate with its error, after which no call is admitted
  and the run can only end as failed.\<close>

theorem third_failure_is_fatal:
  assumes "\<not> ls_call_model st" "start_provider_call st t0 = (True, s0)"
    and "s1 = snd (finish_provider_msg s0 t0 (PmFailed (ls_turn s0) e1 False u1))" "start_provider_call s1 t1 = (True, s2)"
    and "s3 = snd (finish_provider_msg s2 t1 (PmFailed (ls_turn s2) e2 False u2))" "start_provider_call s3 t2 = (True, s4)"
    and "s5 = snd (finish_provider_msg s4 t2 (PmFailed (ls_turn s4) e3 False u3))"
  shows "ls_call_model s1 \<and> ls_call_model s3 \<and> ls_fatal s5 = Some e3 \<and> \<not> gate_is_open (ls_gate s5)
    \<and> start_provider_call s5 t3 = (False, s5)
    \<and> (\<not> ls_stop_hard s5 \<longrightarrow> fst (terminate s5 cfg t3) = Return (Failed FailProvider e3))"
proof -
  have start: "ls_retries st' = (if \<not> ls_call_model st then STEP_RETRY_BUDGET else ls_retries st)"
    if "start_provider_call st t = (True, st')" for st t st'
    using that by (auto simp: start_provider_call_def split: if_splits prod.splits sum.splits)
  have meter: "ls_retries (meter st u) = ls_retries st" for st u
    by (simp add: meter_def record_usage_def Let_def split: option.splits)
  have retry: "ls_call_model s' \<and> ls_retries s' = n"
    if "s' = snd (finish_provider_msg st t (PmFailed (ls_turn st) e False u))" "ls_retries st = Suc n" for s' st t e u n
    using that by (simp add: finish_provider_msg_def Let_def meter push_item_def)
  have fatal: "ls_fatal s' = Some e \<and> gate_status (ls_gate s') = GateClosed"
    if "s' = snd (finish_provider_msg st t (PmFailed (ls_turn st) e False u))" "ls_retries st = 0" for s' st t e u
    using that by (simp add: finish_provider_msg_def Let_def meter push_item_def gate_close_def)
  have 0: "ls_retries s0 = Suc 1" using start[OF assms(2)] assms(1) by (simp add: STEP_RETRY_BUDGET_def)
  have 1: "ls_call_model s1" "ls_retries s1 = 1" using retry[OF assms(3) 0] by auto
  have 2: "ls_retries s2 = Suc 0" using start[OF assms(4)] 1 by simp
  have 3: "ls_call_model s3" "ls_retries s3 = 0" using retry[OF assms(5) 2] by auto
  have 4: "ls_retries s4 = 0" using start[OF assms(6)] 3 by simp
  have 5: "ls_fatal s5 = Some e3" "gate_status (ls_gate s5) = GateClosed" using fatal[OF assms(7) 4] by auto
  have "gate_admit (ls_gate s5) \<noteq> Inr ()" by (simp add: gate_admit_def 5(2))
  then have refused: "start_provider_call s5 t3 = (False, s5)" by (simp add: start_provider_call_def)
  have verdict: "fst (terminate s5 cfg t3) = Return (Failed FailProvider e3)" if "\<not> ls_stop_hard s5"
    using that 5(1) by (simp add: terminate_def)
  show ?thesis
    by (intro conjI impI 1(1) 3(1) 5(1) refused verdict) (simp add: gate_is_open_def 5(2))
qed

theorem third_failure_is_fatal_witness:
  "\<exists>s. ls_fatal s = Some ''503'' \<and> start_provider_call s 0 = (False, s)"
proof -
  define s0 where "s0 = snd (start_provider_call (new_state 0) 0)"
  define s1 where "s1 = snd (finish_provider_msg s0 0 (PmFailed (ls_turn s0) ''503'' False None))"
  define s2 where "s2 = snd (start_provider_call s1 0)"
  define s3 where "s3 = snd (finish_provider_msg s2 0 (PmFailed (ls_turn s2) ''503'' False None))"
  define s4 where "s4 = snd (start_provider_call s3 0)"
  define s5 where "s5 = snd (finish_provider_msg s4 0 (PmFailed (ls_turn s4) ''503'' False None))"
  note eval = start_provider_call_def finish_provider_msg_def new_state_def gate_admit_def new_gate_def may_step_def
    peek_def new_guard_def config_for_def zero_counters_def record_step_def sat_add32_def wrap_add32_def U32_MAX_def
    elapsed_def nanos_def SPEND_ON_CENTS_def STEP_RETRY_BUDGET_def meter_def push_item_def
  have 0: "start_provider_call (new_state 0) 0 = (True, s0)" by (simp add: s0_def eval)
  have 1: "start_provider_call s1 0 = (True, s2)" by (simp add: s1_def s0_def s2_def eval)
  have 2: "start_provider_call s3 0 = (True, s4)" by (simp add: s4_def s3_def s1_def s0_def s2_def eval)
  have "\<not> ls_call_model (new_state 0)" by (simp add: new_state_def)
  from third_failure_is_fatal[OF this 0 s1_def 1 s3_def 2 s5_def] show ?thesis by blast
qed

text \<open>The splitter answers one fragment per hunk of the patch, each with a header
  and starting its hunk at a line break, and drops exactly the last one when the patch was truncated.\<close>

theorem fragments_are_hunks:
  "length (split_patch p) = hunk_lines (str_lines (pt_text p)) - (if pt_truncated p then 1 else 0)
   \<and> list_all one_hunk (split_patch p)"
proof -
  let ?s = "foldl split_line \<lparr>sp_out = [], sp_header = [], sp_cur = None\<rparr> (str_lines (pt_text p))"
  have s: "split_ok ?s" "found ?s = hunk_lines (str_lines (pt_text p))"
    using split_lines_ok[of "\<lparr>sp_out = [], sp_header = [], sp_cur = None\<rparr>"] by (simp_all add: split_ok_def found_def)
  have "split_ok (take_cur ?s)" "length (sp_out (take_cur ?s)) = hunk_lines (str_lines (pt_text p))"
    using take_cur_ok[OF s(1)] s(2) by (auto simp: found_def)
  then show ?thesis
    by (auto simp: split_patch_def Let_def split_ok_def list_all_iff dest: in_set_butlastD)
qed



end
