(* ===== verification/Adapter.thy ===== *)
theory Adapter
  imports Provider "HOL-Library.Word"
begin

text \<open>
  The OpenAI-compatible adapter, \<open>crates/provider-openai\<close>: the wire body and its parser
  (\<open>protocol.rs\<close>), the price table (\<open>pricing.rs\<close>), the retry schedule and the truncation ladder
  (\<open>retry.rs\<close>) and the request loop of \<open>complete\<close> (\<open>client.rs\<close>). One HTTP exchange, the environment
  variable, the clock and the sleep are operations of the record \<open>http_env\<close> on an abstract world; the
  derived decoder of a chat body, \<open>serde_json\<close>'s printer and parser and the \<open>Debug\<close> form of an error are
  the record \<open>wire_lib\<close>. Durations are nanoseconds, \<open>f64\<close> values reals.
\<close>

section \<open>Prices\<close>

definition price_rates :: "string \<Rightarrow> (real \<times> real \<times> real) option" where
  "price_rates model =
     (if prefix ''deepseek-flash'' model \<or> prefix ''deepseek-v4-flash'' model \<or> prefix ''deepseek-v4.1-flash'' model
      then Some (6 / 1000, 30 / 100, 120 / 100)
      else if prefix ''deepseek-v4-pro'' model then Some (44 / 1000, 132 / 100, 396 / 100)
      else if prefix ''glm-5.3-flash'' model then Some (3 / 100, 15 / 100, 50 / 100)
      else None)"

definition price_usd :: "string \<Rightarrow> u64 \<Rightarrow> u64 \<Rightarrow> u64 \<Rightarrow> real option" where
  "price_usd model inp cached out =
     (case price_rates model of
        None \<Rightarrow> None
      | Some (hit, miss, out_rate) \<Rightarrow>
          (let miss_in = inp - cached
           in Some ((real cached * hit + real miss_in * miss + real out * out_rate) / 1000000)))"

section \<open>Retry\<close>

record endpoint_profile =
  emission_threshold :: usize
  ep_thinking_off :: "json option"

definition default_profile :: endpoint_profile where
  "default_profile = \<lparr>emission_threshold = 12000,
     ep_thinking_off = Some (JObj [(''thinking'', JObj [(''type'', JStr ''disabled'')])])\<rparr>"

record wire_knobs =
  wk_max_tokens :: usize
  wk_thinking_off :: "json option"
  wk_suppressed :: bool

definition knobs_of :: "request \<Rightarrow> endpoint_profile \<Rightarrow> wire_knobs" where
  "knobs_of req p =
     \<lparr>wk_max_tokens = rq_max_tokens req, wk_thinking_off = ep_thinking_off p,
      wk_suppressed = (rq_thinking req = ThinkingOff \<and> ep_thinking_off p \<noteq> None)\<rparr>"

definition MAX_TOKENS_CEILING :: usize where "MAX_TOKENS_CEILING = 32768"

definition apply_ladder :: "wire_knobs \<Rightarrow> usize \<Rightarrow> usize \<Rightarrow> bool \<times> wire_knobs" where
  "apply_ladder k content_chars reasoning_chars =
     (if \<not> wk_suppressed k \<and> content_chars = 0 \<and> 0 < reasoning_chars \<and> wk_thinking_off k \<noteq> None
      then (True, k\<lparr>wk_suppressed := True\<rparr>)
      else
        let raised = min (min (wk_max_tokens k * 2) U64_MAX) MAX_TOKENS_CEILING
        in if wk_max_tokens k < raised then (True, k\<lparr>wk_max_tokens := raised\<rparr>) else (False, k))"

definition merge_usage :: "usage option \<Rightarrow> usage option \<Rightarrow> usage option" where
  "merge_usage acc nxt =
     (case (acc, nxt) of
        (Some a, Some n) \<Rightarrow> Some (plus a n)
      | (Some a, None) \<Rightarrow> Some a
      | (None, n) \<Rightarrow> n)"

definition RETRY_AFTER_CAP :: nat where "RETRY_AFTER_CAP = 60 * 1000000000"

text \<open>The draw of the jitter: \<open>stamp\<close> is \<open>secs ^ subsec_nanos\<close> of the wall clock (0 before the epoch),
  \<open>draws\<close> the process counter. The factor is the result divided by 1000.\<close>

definition jitter_permille :: "64 word \<Rightarrow> 64 word \<Rightarrow> nat" where
  "jitter_permille stamp draws =
     (let x0 = xor stamp (draws * 0x9E3779B97F4A7C15);
          x1 = xor x0 (drop_bit 30 x0) * 0xBF58476D1CE4E5B9;
          x2 = xor x1 (drop_bit 27 x1) * 0x94D049BB133111EB;
          x3 = xor x2 (drop_bit 31 x2)
      in unat x3 mod 250)"

definition backoff_delay :: "nat \<Rightarrow> nat \<Rightarrow> nat" where
  "backoff_delay permille attempt = 2 ^ min attempt 10 * (1000 + permille) * 1000000"

definition is_cold_start :: "string \<Rightarrow> bool" where
  "is_cold_start msg = str_contains msg ''503''"

definition schedule_delay :: "nat \<Rightarrow> nat option \<Rightarrow> string \<Rightarrow> nat \<Rightarrow> nat option" where
  "schedule_delay permille after last_err attempt =
     (case after of
        Some d \<Rightarrow> if RETRY_AFTER_CAP < d then None else Some d
      | None \<Rightarrow> if is_cold_start last_err then Some (60 * 1000000000) else Some (backoff_delay permille attempt))"

definition chars_after :: "string \<Rightarrow> string \<Rightarrow> nat" where
  "chars_after txt marker =
     (case find_str marker txt of
        None \<Rightarrow> 0
      | Some i \<Rightarrow>
          (case parse_u64 (takeWhile is_digit (drop (i + length marker) txt)) of Some n \<Rightarrow> n | None \<Rightarrow> 0))"

section \<open>The wire body\<close>

definition json_set :: "string \<Rightarrow> json \<Rightarrow> (string \<times> json) list \<Rightarrow> (string \<times> json) list" where
  "json_set k v m = AList.update k v m"

record chat_call =
  cc_id :: "string option"
  cc_name :: "string option"
  cc_arguments :: "string option"

record chat_choice =
  ch_content :: string
  ch_reasoning_content :: string
  ch_reasoning :: string
  ch_calls :: "chat_call list"
  ch_finish :: "string option"

record wire_usage_fields =
  wu_prompt :: u64
  wu_completion :: u64
  wu_cached :: "u64 option"
  wu_reasoning :: "u64 option"

record chat_resp =
  cr_choices :: "chat_choice list"
  cr_usage :: "wire_usage_fields option"

record wire_lib =
  wl_print :: "json \<Rightarrow> string"
  wl_parse :: "string \<Rightarrow> json option"
  wl_alnum :: "string \<Rightarrow> bool"
  wl_chat :: "json \<Rightarrow> string + chat_resp"
  wl_chat_text :: "string \<Rightarrow> chat_resp option"
  wl_finish_debug :: "string option \<Rightarrow> string"
  wl_error_debug :: "llm_error \<Rightarrow> string"

text \<open>\<open>m.thinking.as_deref().is_some_and(|t| !t.trim().is_empty())\<close>\<close>

definition real_thinking :: "provider_message \<Rightarrow> string option" where
  "real_thinking m = (case pm_thinking m of Some t \<Rightarrow> if trim t \<noteq> [] then Some t else None | None \<Rightarrow> None)"

definition thinking_conversation :: "request \<Rightarrow> bool" where
  "thinking_conversation req \<longleftrightarrow>
     list_ex (\<lambda>m. pm_role m = ''assistant'' \<and> real_thinking m \<noteq> None) (rq_messages req)"

definition echo_key :: "request \<Rightarrow> bool" where
  "echo_key req \<longleftrightarrow>
     thinking_conversation req \<or> (rq_messages req \<noteq> [] \<and> pm_role (last (rq_messages req)) = ''tool'')"

definition wire_call :: "wire_lib \<Rightarrow> tool_call_ref \<Rightarrow> json" where
  "wire_call l tc =
     JObj [(''id'', JStr (tc_id tc)), (''type'', JStr ''function''),
           (''function'', JObj [(''name'', JStr (tc_name tc)),
              (''arguments'', JStr (case tc_args tc of JStr s \<Rightarrow> s | v \<Rightarrow> wl_print l v))])]"

definition wire_message :: "wire_lib \<Rightarrow> bool \<Rightarrow> provider_message \<Rightarrow> (string \<times> json) list" where
  "wire_message l echo m =
     (let o0 = [(''role'', JStr (pm_role m)), (''content'', JStr (pm_content m))];
          o1 = (if pm_tool_calls m \<noteq> [] then json_set ''tool_calls'' (JArr (map (wire_call l) (pm_tool_calls m))) o0 else o0);
          o2 = (case pm_tool_call_id m of Some i \<Rightarrow> json_set ''tool_call_id'' (JStr i) o1 | None \<Rightarrow> o1)
      in if pm_role m = ''assistant'' \<and> echo
         then json_set ''reasoning_content'' (JStr (case real_thinking m of Some t \<Rightarrow> t | None \<Rightarrow> [])) o2
         else o2)"

definition wire_tool :: "tool_declaration \<Rightarrow> json" where
  "wire_tool t =
     JObj [(''type'', JStr ''function''),
           (''function'', JObj [(''name'', JStr (decl_name t)), (''description'', JStr (decl_description t)),
              (''parameters'', decl_schema t)])]"

definition merge_fields :: "(string \<times> json) list \<Rightarrow> (string \<times> json) list \<Rightarrow> (string \<times> json) list" where
  "merge_fields frag b = foldl (\<lambda>b (k, v). json_set k v b) b frag"

definition object_fields :: "json option \<Rightarrow> (string \<times> json) list" where
  "object_fields j = (case Option.bind j as_object of Some m \<Rightarrow> m | None \<Rightarrow> [])"

definition wire_body :: "wire_lib \<Rightarrow> string \<Rightarrow> request \<Rightarrow> wire_knobs \<Rightarrow> json" where
  "wire_body l model req k =
     (let b0 = [(''model'', JStr model),
                (''messages'', JArr (map (\<lambda>m. JObj (wire_message l (echo_key req) m)) (rq_messages req))),
                (''max_tokens'', JInt (int (wk_max_tokens k)))];
          b1 = (if wk_suppressed k then merge_fields (object_fields (wk_thinking_off k)) b0 else b0);
          b2 = (if rq_tools req \<noteq> [] then json_set ''tools'' (JArr (map wire_tool (rq_tools req))) b1 else b1)
      in JObj (merge_fields (object_fields (Some (rq_extras req))) b2))"

section \<open>Parsing an answer\<close>

definition wire_usage :: "wire_usage_fields option \<Rightarrow> string \<Rightarrow> usage option" where
  "wire_usage u model =
     map_option (\<lambda>u.
       let cached = (case wu_cached u of Some n \<Rightarrow> n | None \<Rightarrow> 0)
       in \<lparr>u_input = wu_prompt u, u_output = wu_completion u, u_cache_read = cached, u_cache_write = 0,
           u_reasoning = (case wu_reasoning u of Some n \<Rightarrow> if 0 < n then Some n else None | None \<Rightarrow> None),
           u_cost = price_usd model (wu_prompt u) cached (wu_completion u)\<rparr>) u"

record body_fail =
  bf_msg :: string
  bf_usage :: "usage option"

definition parsed_call :: "wire_lib \<Rightarrow> nat \<Rightarrow> chat_call \<Rightarrow> tool_call_ref" where
  "parsed_call l i tc =
     \<lparr>tc_id = (case cc_id tc of Some x \<Rightarrow> x | None \<Rightarrow> ''call-'' @ dec i),
      tc_name = (case cc_name tc of Some n \<Rightarrow> n | None \<Rightarrow> []),
      tc_args = parse_streaming_json (wl_parse l) (wl_alnum l)
        (case cc_arguments tc of Some a \<Rightarrow> a | None \<Rightarrow> ''{}'')\<rparr>"

definition parsed_calls :: "wire_lib \<Rightarrow> chat_call list \<Rightarrow> tool_call_ref list" where
  "parsed_calls l tcs = map (\<lambda>(i, tc). parsed_call l i tc) (List.enumerate 0 tcs)"

definition choice_reasoning :: "chat_choice \<Rightarrow> string" where
  "choice_reasoning ch =
     (if trim (ch_reasoning_content ch) = [] then ch_reasoning ch else ch_reasoning_content ch)"

definition empty_answer :: "string \<Rightarrow> string \<Rightarrow> nat \<Rightarrow> string" where
  "empty_answer model finish n =
     ''empty content from '' @ model @ '' (finish_reason='' @ finish @ ''; reasoning_content='' @ dec n @
     '' chars); the endpoint shipped no text''"

definition truncated_answer :: "usize \<Rightarrow> nat \<Rightarrow> nat \<Rightarrow> string" where
  "truncated_answer max_tokens c r =
     ''output truncated at '' @ dec max_tokens @ '' tokens (finish_reason=length; content='' @ dec c @
     '' chars; reasoning_content='' @ dec r @ '' chars); raise max_tokens''"

definition choice_message :: "wire_lib \<Rightarrow> chat_choice \<Rightarrow> assistant_message" where
  "choice_message l ch =
     \<lparr>am_content = ch_content ch, am_tool_calls = parsed_calls l (ch_calls ch),
      am_thinking = (if trim (choice_reasoning ch) \<noteq> [] then Some (choice_reasoning ch) else None)\<rparr>"

definition no_usage :: usage where
  "no_usage = \<lparr>u_input = 0, u_output = 0, u_cache_read = 0, u_cache_write = 0, u_reasoning = None, u_cost = None\<rparr>"

definition parse_body :: "wire_lib \<Rightarrow> json \<Rightarrow> string \<Rightarrow> usize \<Rightarrow> body_fail + response" where
  "parse_body l v model max_tokens =
     (case wl_chat l v of
        Inl e \<Rightarrow> Inl \<lparr>bf_msg = ''bad chat body: '' @ e, bf_usage = None\<rparr>
      | Inr resp \<Rightarrow>
          (let wire = wire_usage (cr_usage resp) model in
           case cr_choices resp of
             [] \<Rightarrow> Inl \<lparr>bf_msg = empty_answer model ''None'' 0, bf_usage = wire\<rparr>
           | ch # _ \<Rightarrow>
               (let msg = choice_message l ch;
                    stop = infer_stop (wl_alnum l) (ch_finish ch) msg;
                    rlen = length (trim (choice_reasoning ch))
                in if stop = StMaxTokens
                   then Inl \<lparr>bf_msg = truncated_answer max_tokens (length (trim (ch_content ch))) rlen, bf_usage = wire\<rparr>
                   else if trim (ch_content ch) = [] \<and> am_tool_calls msg = []
                   then Inl \<lparr>bf_msg = empty_answer model (wl_finish_debug l (ch_finish ch)) rlen, bf_usage = wire\<rparr>
                   else Inr \<lparr>rs_message = msg, rs_stop = stop,
                             rs_usage = (case wire of Some u \<Rightarrow> u | None \<Rightarrow> no_usage),
                             rs_latency_ms = 0, rs_attempts = 1, rs_raw_stop = ch_finish ch,
                             rs_retry_usage = None\<rparr>)))"

section \<open>One attempt\<close>

record oai_client =
  oa_endpoint :: string
  oa_profile :: endpoint_profile
  oa_key_env :: string
  oa_refreshable :: bool
  oa_headers :: "(string \<times> string) list"
  oa_request_timeout :: nat

definition REQUEST_TIMEOUT :: nat where "REQUEST_TIMEOUT = 600 * 1000000000"

definition new_client :: "string \<Rightarrow> endpoint_profile \<Rightarrow> oai_client" where
  "new_client endpoint p =
     \<lparr>oa_endpoint = rev (dropWhile (\<lambda>c. c = CHR ''/'') (rev endpoint)), oa_profile = p,
      oa_key_env = ''OPENAI_API_KEY'', oa_refreshable = False, oa_headers = [],
      oa_request_timeout = REQUEST_TIMEOUT\<rparr>"

definition with_request_timeout :: "oai_client \<Rightarrow> nat \<Rightarrow> oai_client" where
  "with_request_timeout c d = c\<lparr>oa_request_timeout := d\<rparr>"

definition with_key_env :: "oai_client \<Rightarrow> string \<Rightarrow> oai_client" where
  "with_key_env c v = c\<lparr>oa_key_env := v, oa_refreshable := oa_refreshable c\<rparr>"

definition with_refreshable :: "oai_client \<Rightarrow> bool \<Rightarrow> oai_client" where
  "with_refreshable c b = c\<lparr>oa_refreshable := b\<rparr>"

definition with_header :: "oai_client \<Rightarrow> string \<Rightarrow> string \<Rightarrow> oai_client" where
  "with_header c n v = c\<lparr>oa_headers := oa_headers c @ [(n, v)]\<rparr>"

record http_reply =
  rp_status :: nat
  rp_retry_after :: "string option"
  rp_text :: string
  rp_json :: "string + json"

text \<open>\<open>send\<close> takes the URL, the extra headers, the bearer token, the timeout and the body, and answers
  the texts of the error and of its source chain, or the reply.\<close>

record 'w http_env =
  he_env :: "string \<Rightarrow> 'w \<Rightarrow> string option"
  he_send :: "string \<Rightarrow> (string \<times> string) list \<Rightarrow> string \<Rightarrow> nat \<Rightarrow> json \<Rightarrow> 'w \<Rightarrow>
    ((string \<times> string list) + http_reply) \<times> 'w"
  he_status_text :: "nat \<Rightarrow> string"
  he_sleep :: "nat \<Rightarrow> 'w \<Rightarrow> 'w"
  he_instant :: "'w \<Rightarrow> nat"
  he_epoch_secs :: "'w \<Rightarrow> nat option"
  he_draw :: "'w \<Rightarrow> (64 word \<times> 64 word) \<times> 'w"

definition resolve :: "'w http_env \<Rightarrow> oai_client \<Rightarrow> 'w \<Rightarrow> llm_error + string" where
  "resolve h c w =
     (let key = (case he_env h (oa_key_env c) w of Some k \<Rightarrow> k | None \<Rightarrow> [])
      in if trim key = [] then Inl (Auth (''missing API key: '' @ oa_key_env c @ '' is unset or empty''))
         else Inr key)"

definition check_credentials :: "'w http_env \<Rightarrow> oai_client \<Rightarrow> 'w \<Rightarrow> llm_error + unit" where
  "check_credentials h c w = map_sum id (\<lambda>_. ()) (resolve h c w)"

record once_fail =
  of_error :: llm_error
  of_msg :: string
  of_after :: "nat option"
  of_retryable :: bool
  of_truncated :: bool
  of_content_chars :: usize
  of_reasoning_chars :: usize
  of_usage :: "usage option"

definition plain_fail :: "llm_error \<Rightarrow> string \<Rightarrow> nat option \<Rightarrow> bool \<Rightarrow> usage option \<Rightarrow> once_fail" where
  "plain_fail e msg after retry u =
     \<lparr>of_error = e, of_msg = msg, of_after = after, of_retryable = retry, of_truncated = False,
      of_content_chars = 0, of_reasoning_chars = 0, of_usage = u\<rparr>"

definition is_stale_msg :: "string \<Rightarrow> bool" where
  "is_stale_msg s = contains_any [''expired'', ''stale''] (to_lowercase s)"

definition class_retries :: "error_class \<Rightarrow> bool" where
  "class_retries k \<longleftrightarrow> k = Retryable \<or> k = Overload \<or> k = AuthStale"

definition status_fail :: "'w http_env \<Rightarrow> wire_lib \<Rightarrow> oai_client \<Rightarrow> string \<Rightarrow> http_reply \<Rightarrow> 'w \<Rightarrow> once_fail" where
  "status_fail h l c model r w =
     (let after = Option.bind (rp_retry_after r) (parse_retry_after (he_epoch_secs h w));
          short = take_chars 300 (rp_text r);
          msg = he_status_text h (rp_status r) @ '': '' @ short;
          usage = Option.bind (wl_chat_text l (rp_text r)) (\<lambda>b. wire_usage (cr_usage b) model)
      in if rp_status r = 401 \<or> rp_status r = 403
         then if oa_refreshable c \<and> is_stale_msg (rp_text r)
              then plain_fail (Transport msg) msg after True usage
              else plain_fail (Auth msg) msg None False usage
         else let e = Http (rp_status r) after short
              in plain_fail e msg after (class_retries (classify_error e)) usage)"

definition body_failed :: "body_fail \<Rightarrow> once_fail" where
  "body_failed b =
     (let truncated = str_contains (bf_msg b) ''finish_reason=length'';
          e = Transport (bf_msg b)
      in \<lparr>of_error = e, of_msg = bf_msg b, of_after = None,
          of_retryable = (if truncated then True else class_retries (classify_error e)),
          of_truncated = truncated,
          of_content_chars = chars_after (bf_msg b) ''; content='',
          of_reasoning_chars = chars_after (bf_msg b) ''; reasoning_content='',
          of_usage = bf_usage b\<rparr>)"

definition once :: "'w http_env \<Rightarrow> wire_lib \<Rightarrow> oai_client \<Rightarrow> string \<Rightarrow> request \<Rightarrow> wire_knobs \<Rightarrow> 'w \<Rightarrow>
    (once_fail + response) \<times> 'w" where
  "once h l c model req k w =
     (case resolve h c w of
        Inl e \<Rightarrow> (Inl (plain_fail e (wl_error_debug l e) None False None), w)
      | Inr key \<Rightarrow>
          (case he_send h (oa_endpoint c @ ''/chat/completions'') (oa_headers c) key (oa_request_timeout c)
                  (wire_body l model req k) w of
             (Inl (e, chain), w') \<Rightarrow>
               (let msg = e @ concat (map (\<lambda>x. '': '' @ x) chain)
                in (Inl (plain_fail (Transport msg) msg None True None), w'))
           | (Inr r, w') \<Rightarrow>
               if \<not> (200 \<le> rp_status r \<and> rp_status r \<le> 299) then (Inl (status_fail h l c model r w'), w')
               else (case rp_json r of
                       Inl e \<Rightarrow> (Inl (plain_fail (Transport e) e None True None), w')
                     | Inr v \<Rightarrow> (map_sum body_failed id (parse_body l v model (wk_max_tokens k)), w'))))"

section \<open>The request loop\<close>

record retry_state =
  ry_knobs :: wire_knobs
  ry_error :: llm_error
  ry_label :: string
  ry_after :: "nat option"
  ry_usage :: "usage option"
  ry_retryable :: bool

definition scheduled :: "'w http_env \<Rightarrow> nat option \<Rightarrow> string \<Rightarrow> nat \<Rightarrow> 'w \<Rightarrow> nat option \<times> 'w" where
  "scheduled h after label attempt w =
     (if after \<noteq> None \<or> is_cold_start label then (schedule_delay 0 after label attempt, w)
      else case he_draw h w of
             ((stamp, n), w') \<Rightarrow> (schedule_delay (jitter_permille stamp n) after label attempt, w'))"

definition pause :: "'w http_env \<Rightarrow> retry_state \<Rightarrow> nat \<Rightarrow> 'w \<Rightarrow> bool \<times> 'w" where
  "pause h st attempt w =
     (if attempt = 0 then (True, w)
      else case scheduled h (ry_after st) (ry_label st) attempt w of
             (None, w') \<Rightarrow> (False, w')
           | (Some d, w') \<Rightarrow> (True, he_sleep h d w'))"

definition record_failure :: "retry_state \<Rightarrow> once_fail \<Rightarrow> retry_state" where
  "record_failure st f =
     st\<lparr>ry_label := of_msg f, ry_error := of_error f, ry_retryable := of_retryable f, ry_after := None,
        ry_usage := merge_usage (ry_usage st) (of_usage f)\<rparr>"

definition attempt_cap :: "string \<Rightarrow> nat" where
  "attempt_cap msg = (if is_cold_start msg then 7 else 4)"

definition next_knobs :: "nat \<Rightarrow> once_fail \<Rightarrow> wire_knobs \<Rightarrow> wire_knobs option" where
  "next_knobs attempt f k =
     (if \<not> of_retryable f then None
      else if of_truncated f
      then (case apply_ladder k (of_content_chars f) (of_reasoning_chars f) of
              (went, k') \<Rightarrow> if went then Some k' else None)
      else if attempt_cap (of_msg f) \<le> attempt then None
      else Some k)"

definition gave_up :: "retry_state \<Rightarrow> llm_error" where
  "gave_up st = Metered (ry_error st) (ry_usage st) (ry_retryable st)"

definition answered :: "nat \<Rightarrow> nat \<Rightarrow> usage option \<Rightarrow> response \<Rightarrow> response" where
  "answered elapsed attempt acc r =
     r\<lparr>rs_latency_ms := elapsed div 1000000 mod 2 ^ 64, rs_attempts := attempt + 1, rs_retry_usage := acc\<rparr>"

definition ladder_left :: "wire_knobs \<Rightarrow> nat" where
  "ladder_left k = (if wk_suppressed k then 0 else 1) + (MAX_TOKENS_CEILING - wk_max_tokens k)"

lemma apply_ladder_decreases: "apply_ladder k a b = (True, k') \<Longrightarrow> ladder_left k' < ladder_left k"
  by (auto simp: apply_ladder_def ladder_left_def Let_def MAX_TOKENS_CEILING_def split: if_splits)

lemma next_knobs_decreases:
  assumes "next_knobs attempt f k = Some k'"
  shows "ladder_left k' < ladder_left k \<or> k' = k \<and> attempt < 7"
  using assms apply_ladder_decreases
  by (fastforce simp: next_knobs_def attempt_cap_def split: if_splits prod.splits)

function complete_loop :: "'w http_env \<Rightarrow> wire_lib \<Rightarrow> oai_client \<Rightarrow> string \<Rightarrow> request \<Rightarrow> nat \<Rightarrow> nat \<Rightarrow>
    retry_state \<Rightarrow> 'w \<Rightarrow> (llm_error + response) \<times> 'w" where
  "complete_loop h l c model req started attempt st w =
     (case pause h st attempt w of (go, w1) \<Rightarrow>
        if \<not> go then (Inl (gave_up st), w1)
        else case once h l c model req (ry_knobs st) w1 of
               (Inr r, w2) \<Rightarrow> (Inr (answered (he_instant h w2 - started) attempt (ry_usage st) r), w2)
             | (Inl f, w2) \<Rightarrow>
                 (case next_knobs attempt f (ry_knobs st) of
                    None \<Rightarrow> (Inl (gave_up (record_failure st f)), w2)
                  | Some k \<Rightarrow>
                      complete_loop h l c model req started (attempt + 1)
                        ((record_failure st f)\<lparr>ry_knobs := k, ry_after := of_after f\<rparr>) w2))"
  by pat_completeness auto
termination
  by (relation "inv_image (less_than <*lex*> less_than)
        (\<lambda>(h, l, c, model, req, started, attempt, st, w). (ladder_left (ry_knobs st), 8 - attempt))")
    (auto dest: next_knobs_decreases)

declare complete_loop.simps [simp del]

definition first_state :: "wire_knobs \<Rightarrow> retry_state" where
  "first_state k =
     \<lparr>ry_knobs = k, ry_error = Transport ''no attempts'', ry_label = ''no attempts'', ry_after = None,
      ry_usage = None, ry_retryable = False\<rparr>"

definition oai_complete :: "'w http_env \<Rightarrow> wire_lib \<Rightarrow> oai_client \<Rightarrow> string \<Rightarrow> request \<Rightarrow> 'w \<Rightarrow>
    (llm_error + response) \<times> 'w" where
  "oai_complete h l c model req w =
     complete_loop h l c model req (he_instant h w) 0 (first_state (knobs_of req (oa_profile c))) w"

section \<open>The loop keeps its promises\<close>

text \<open>What a retry does to the world before it sends: a draw, a sleep, or nothing.\<close>

lemma pause_keeps:
  assumes "\<And>d w. m (he_sleep h d w) = m w" "\<And>w. m (snd (he_draw h w)) = m w"
  shows "m (snd (pause h st attempt w)) = m w"
proof -
  have "m w' = m w" if "scheduled h after label attempt w = (d, w')" for after label d w'
    using that assms(2)[of w] by (auto simp: scheduled_def split: if_splits prod.splits)
  then show ?thesis
    using assms(1) by (fastforce simp: pause_def split: prod.split option.split)
qed

text \<open>The number of times the cap can still be doubled.\<close>

function doublings :: "nat \<Rightarrow> nat" where
  "doublings m = (if m = 0 \<or> MAX_TOKENS_CEILING \<le> m then 0
     else Suc (doublings (min (m * 2) MAX_TOKENS_CEILING)))"
  by pat_completeness auto
termination by (relation "measure (\<lambda>m. MAX_TOKENS_CEILING - m)") auto

declare doublings.simps [simp del]

lemma doublings_bound: "MAX_TOKENS_CEILING \<le> m * 2 ^ n \<Longrightarrow> doublings m \<le> n"
proof (induction n arbitrary: m)
  case 0
  then show ?case by (simp add: doublings.simps)
next
  case (Suc n)
  have "MAX_TOKENS_CEILING \<le> min (m * 2) MAX_TOKENS_CEILING * 2 ^ n"
    using Suc.prems by (simp add: min_def algebra_simps)
  from Suc.IH[OF this] show ?case by (subst doublings.simps) auto
qed

definition rungs :: "wire_knobs \<Rightarrow> nat" where
  "rungs k = (if wk_suppressed k then 0 else 1) + doublings (wk_max_tokens k)"

lemma rungs_bound: "rungs k \<le> 16"
proof -
  have "doublings m \<le> 15" for m
  proof (cases m)
    case 0 then show ?thesis by (simp add: doublings.simps)
  next
    case (Suc j)
    then show ?thesis by (intro doublings_bound) (simp add: MAX_TOKENS_CEILING_def)
  qed
  from this[of "wk_max_tokens k"] show ?thesis by (simp add: rungs_def)
qed

lemma apply_ladder_rungs:
  assumes "apply_ladder k a b = (True, k')"
  shows "rungs k' < rungs k"
proof (cases "k' = k\<lparr>wk_suppressed := True\<rparr> \<and> \<not> wk_suppressed k")
  case True
  then show ?thesis by (auto simp: rungs_def)
next
  case False
  then have k': "k' = k\<lparr>wk_max_tokens := min (min (wk_max_tokens k * 2) U64_MAX) MAX_TOKENS_CEILING\<rparr>"
    and grew: "wk_max_tokens k < wk_max_tokens k'"
    using assms by (auto simp: apply_ladder_def Let_def split: if_splits)
  have "MAX_TOKENS_CEILING \<le> U64_MAX" by (simp add: MAX_TOKENS_CEILING_def U64_MAX_def)
  then have "min (min (wk_max_tokens k * 2) U64_MAX) MAX_TOKENS_CEILING = min (wk_max_tokens k * 2) MAX_TOKENS_CEILING"
    by simp
  moreover have "doublings (wk_max_tokens k) = Suc (doublings (min (wk_max_tokens k * 2) MAX_TOKENS_CEILING))"
    using grew unfolding k' by (subst doublings.simps) auto
  ultimately show ?thesis unfolding k' rungs_def by simp
qed

lemma next_knobs_rungs:
  assumes "next_knobs attempt f k = Some k'"
  shows "rungs k' < rungs k \<or> k' = k \<and> attempt < 7"
  using assms apply_ladder_rungs
  by (fastforce simp: next_knobs_def attempt_cap_def split: if_splits prod.splits)

text \<open>One attempt sends at most one request.\<close>

lemma once_sends:
  assumes "\<And>u hs b t j w. sent (snd (he_send h u hs b t j w)) = sent w + (1::nat)"
  shows "sent (snd (once h l c model req k w)) \<le> sent w + 1"
proof (cases "resolve h c w")
  case (Inl e)
  then show ?thesis by (simp add: once_def)
next
  case (Inr key)
  obtain r w' where r: "he_send h (oa_endpoint c @ ''/chat/completions'') (oa_headers c) key
      (oa_request_timeout c) (wire_body l model req k) w = (r, w')" by (cases "he_send h (oa_endpoint c @ ''/chat/completions'') (oa_headers c) key
      (oa_request_timeout c) (wire_body l model req k) w")
  then have "sent w' = sent w + 1" using assms by (metis snd_conv)
  moreover have "snd (once h l c model req k w) = w'"
    using Inr r by (auto simp: once_def Let_def split: sum.splits prod.splits)
  ultimately show ?thesis by simp
qed

text \<open>The rule the properties of the loop are proved by: \<open>I\<close> holds before every attempt, \<open>Q\<close> at every
  exit.\<close>

lemma complete_loop_rule:
  assumes start: "I attempt st w"
    and stop: "\<And>a st w w'. I a st w \<Longrightarrow> pause h st a w = (False, w') \<Longrightarrow> Q (Inl (gave_up st), w')"
    and good: "\<And>a st w w1 r w2. I a st w \<Longrightarrow> pause h st a w = (True, w1) \<Longrightarrow>
      once h l c model req (ry_knobs st) w1 = (Inr r, w2) \<Longrightarrow>
      Q (Inr (answered (he_instant h w2 - started) a (ry_usage st) r), w2)"
    and fail: "\<And>a st w w1 f w2. I a st w \<Longrightarrow> pause h st a w = (True, w1) \<Longrightarrow>
      once h l c model req (ry_knobs st) w1 = (Inl f, w2) \<Longrightarrow> next_knobs a f (ry_knobs st) = None \<Longrightarrow>
      Q (Inl (gave_up (record_failure st f)), w2)"
    and again: "\<And>a st w w1 f w2 k. I a st w \<Longrightarrow> pause h st a w = (True, w1) \<Longrightarrow>
      once h l c model req (ry_knobs st) w1 = (Inl f, w2) \<Longrightarrow> next_knobs a f (ry_knobs st) = Some k \<Longrightarrow>
      I (a + 1) ((record_failure st f)\<lparr>ry_knobs := k, ry_after := of_after f\<rparr>) w2"
  shows "Q (complete_loop h l c model req started attempt st w)"
  using start
proof (induction "(ladder_left (ry_knobs st), 8 - attempt)" arbitrary: attempt st w
    rule: wf_induct_rule[OF wf_lex_prod[OF wf_less_than wf_less_than]])
  case 1
  obtain go w1 where p: "pause h st attempt w = (go, w1)" by fastforce
  obtain o1 w2 where o: "once h l c model req (ry_knobs st) w1 = (o1, w2)" by fastforce
  consider "\<not> go" | r where "go" "o1 = Inr r"
    | f where "go" "o1 = Inl f" "next_knobs attempt f (ry_knobs st) = None"
    | f k where "go" "o1 = Inl f" "next_knobs attempt f (ry_knobs st) = Some k"
    using option.exhaust[of "next_knobs attempt (projl o1) (ry_knobs st)"]
    by (metis sum.collapse(1,2))
  then show ?case
  proof cases
    case 1
    then show ?thesis using stop[OF "1.prems"] p by (subst complete_loop.simps) simp
  next
    case 2
    then show ?thesis using good[OF "1.prems"] p o by (subst complete_loop.simps) simp
  next
    case 3
    then show ?thesis using fail[OF "1.prems"] p o by (subst complete_loop.simps) simp
  next
    case 4
    have "I (attempt + 1) ((record_failure st f)\<lparr>ry_knobs := k, ry_after := of_after f\<rparr>) w2"
      using again[OF "1.prems"] p o 4 by simp
    from "1.hyps"[OF _ this] next_knobs_decreases[OF 4(3)]
    show ?thesis using p o 4 by (subst complete_loop.simps) auto
  qed
qed


text \<open>A failure that is not retried is of a class that no retry is for.\<close>

lemma map_sum_Inl: "map_sum f id x = Inl y \<longleftrightarrow> (\<exists>b. x = Inl b \<and> y = f b)"
  by (cases x) auto

lemma status_fail_final:
  "class_retries (classify_error (of_error (status_fail h l c model r w))) \<Longrightarrow> of_retryable (status_fail h l c model r w)"
  by (auto simp: status_fail_def plain_fail_def Let_def class_retries_def)

lemma body_failed_final:
  "class_retries (classify_error (of_error (body_failed b))) \<Longrightarrow> of_retryable (body_failed b)"
  unfolding body_failed_def Let_def by (cases "str_contains (bf_msg b) ''finish_reason=length''") simp_all

lemma once_failure_final:
  assumes "once h l c model req k w = (Inl f, w')" "\<not> of_retryable f"
  shows "\<not> class_retries (classify_error (of_error f))"
proof (cases "resolve h c w")
  case (Inl e)
  then show ?thesis using assms
    by (auto simp: once_def plain_fail_def resolve_def class_retries_def Let_def split: if_splits)
next
  case (Inr key)
  then show ?thesis using assms
    by (auto simp: once_def plain_fail_def Let_def map_sum_Inl dest: status_fail_final body_failed_final
        split: sum.splits prod.splits if_splits)
qed

text \<open>
  C18 (complete_is_bounded): one call of \<open>complete\<close> sends at most 24 requests, whatever the endpoint answers:
  eight attempts on the retry schedule and the sixteen rungs of the truncation ladder (one that turns
  thinking off and fifteen doublings of the cap). \<open>sent\<close> is any count of the requests the world has seen.\<close>

theorem complete_is_bounded:
  assumes send: "\<And>u hs b t j w. sent (snd (he_send h u hs b t j w)) = sent w + (1::nat)"
    and sleep: "\<And>d w. sent (he_sleep h d w) = sent w"
    and draw: "\<And>w. sent (snd (he_draw h w)) = sent w"
  shows "sent (snd (oai_complete h l c model req w)) \<le> sent w + 24"
proof -
  let ?B = "sent w + 24"
  let ?I = "\<lambda>a st w'. sent w' + max 1 (8 - a) + rungs (ry_knobs st) \<le> ?B"
  have step: "sent w2 \<le> sent w1 + 1" if "once h l c model req k w1 = (x, w2)" for k w1 x w2
    using once_sends[of sent h l c model req k w1] send that by simp
  have rest: "sent w2 = sent w1" if "pause h st a w1 = (go, w2)" for st a w1 go w2
    using pause_keeps[of sent h st a w1] sleep draw that by simp
  show ?thesis unfolding oai_complete_def
  proof (rule complete_loop_rule[where I = ?I and Q = "\<lambda>r. sent (snd r) \<le> ?B"])
    show "?I 0 (first_state (knobs_of req (oa_profile c))) w" using rungs_bound by simp
  next
    fix a w0 w1 f w2 k and st :: retry_state
    assume I: "?I a st w0" and p: "pause h st a w0 = (True, w1)"
      and o: "once h l c model req (ry_knobs st) w1 = (Inl f, w2)"
      and n: "next_knobs a f (ry_knobs st) = Some k"
    have "sent w2 \<le> sent w0 + 1" using step[OF o] rest[OF p] by simp
    then show "?I (a + 1) ((record_failure st f)\<lparr>ry_knobs := k, ry_after := of_after f\<rparr>) w2"
      using I next_knobs_rungs[OF n] by auto
  qed (use step rest in fastforce)+
qed

text \<open>
  C19 (nothing_billed_is_lost): the usage a call reports is the sum of what every one of its attempts was
  billed, the failed ones included: an error carries the sum as its usage, an answer as its billed usage.
  \<open>ledger\<close> is any account of the world that adds what each attempt carried.\<close>

theorem nothing_billed_is_lost:
  assumes sleep: "\<And>d w. ledger (he_sleep h d w) = ledger w"
    and draw: "\<And>w. ledger (snd (he_draw h w)) = ledger w"
    and failed: "\<And>k w f w'. once h l c model req k w = (Inl f, w') \<Longrightarrow>
      ledger w' = merge_usage (ledger w) (of_usage f)"
    and served: "\<And>k w r w'. once h l c model req k w = (Inr r, w') \<Longrightarrow>
      ledger w' = merge_usage (ledger w) (Some (rs_usage r))"
    and fresh: "ledger w = None"
  shows "case oai_complete h l c model req w of
      (Inl e, w') \<Rightarrow> (\<exists>src ex. e = Metered src (ledger w') ex)
    | (Inr r, w') \<Rightarrow> Some (billed_usage r) = ledger w'"
    (is "?Q (oai_complete h l c model req w)")
proof -
  let ?I = "\<lambda>a st w'. ledger w' = ry_usage st"
  have rest: "ledger w2 = ledger w1" if "pause h st a w1 = (go, w2)" for st a w1 go w2
    using pause_keeps[of ledger h st a w1] sleep draw that by simp
  have bad: "ledger w2 = merge_usage (ledger w0) (of_usage f)"
    if "pause h st a w0 = (go, w1)" "once h l c model req k w1 = (Inl f, w2)" for st a w0 go w1 k f w2
    using rest[OF that(1)] failed[OF that(2)] by simp
  have good: "ledger w2 = merge_usage (ledger w0) (Some (rs_usage r))"
    if "pause h st a w0 = (go, w1)" "once h l c model req k w1 = (Inr r, w2)" for st a w0 go w1 k r w2
    using rest[OF that(1)] served[OF that(2)] by simp
  show ?thesis unfolding oai_complete_def
  proof (rule complete_loop_rule[where I = ?I and Q = ?Q])
    fix a st w0 w1 r w2
    assume "?I a st w0" "pause h st a w0 = (True, w1)" "once h l c model req (ry_knobs st) w1 = (Inr r, w2)"
    then show "?Q (Inr (answered (he_instant h w2 - he_instant h w) a (ry_usage st) r), w2)"
      using good by (auto simp: answered_def billed_usage_def merge_usage_def split: option.split)
  qed (auto simp: first_state_def fresh gave_up_def record_failure_def rest bad)
qed

text \<open>
  \<open>complete\<close> fails with a metered error only, and one that does not say that
  the retries ran out is of a class no retry is for: authentication, a context overflow or a fatal answer.\<close>

theorem unexhausted_is_final:
  assumes "oai_complete h l c model req w = (Inl e, w')"
  shows "\<exists>src u ex. e = Metered src u ex \<and> (\<not> ex \<longrightarrow> classify_error src \<in> {Fatal, ContextOverflow})"
proof -
  let ?Q = "\<lambda>r. \<forall>e. fst r = Inl e \<longrightarrow>
    (\<exists>src u ex. e = Metered src u ex \<and> (\<not> ex \<longrightarrow> \<not> class_retries (classify_error src)))"
  let ?I = "\<lambda>a st w'. a = 0 \<or> ry_retryable st"
  have final: "\<not> class_retries (classify_error (of_error f))"
    if "once h l c model req k w1 = (Inl f, w2)" "\<not> of_retryable f" for k w1 f w2
    by (rule once_failure_final[OF that])
  have "?Q (oai_complete h l c model req w)" unfolding oai_complete_def
  proof (rule complete_loop_rule[where I = ?I and Q = ?Q])
    fix a w0 w' and st :: retry_state
    assume "?I a st w0" "pause h st a w0 = (False, w')"
    then have "ry_retryable st" by (auto simp: pause_def)
    then show "?Q (Inl (gave_up st), w')" by (auto simp: gave_up_def)
  next
    fix a w0 w1 f w2 and st :: retry_state
    assume "once h l c model req (ry_knobs st) w1 = (Inl f, w2)"
    then show "?Q (Inl (gave_up (record_failure st f)), w2)"
      using final by (fastforce simp: gave_up_def record_failure_def)
  next
    fix a w0 w1 f w2 k and st :: retry_state
    assume "next_knobs a f (ry_knobs st) = Some k"
    then have "of_retryable f" by (simp add: next_knobs_def split: if_splits)
    then show "?I (a + 1) ((record_failure st f)\<lparr>ry_knobs := k, ry_after := of_after f\<rparr>) w2"
      by (simp add: record_failure_def)
  qed (simp_all add: first_state_def)
  moreover have "k \<in> {Fatal, ContextOverflow}" if "\<not> class_retries k" for k
    using that by (cases k) (simp_all add: class_retries_def)
  ultimately show ?thesis using assms by fastforce
qed


text \<open>
  in a conversation in thinking mode, or one whose last row is a tool result,
  every assistant row goes on the wire with the key \<open>reasoning_content\<close>, its own reasoning or the empty
  string; the rows keep their order and their number. Assumed is that neither the extras nor the fragment
  of the profile replaces the rows.\<close>

lemma map_of_merge_fields:
  "k \<notin> fst ` set frag \<Longrightarrow> map_of (merge_fields frag b) k = map_of b k"
  unfolding merge_fields_def json_set_def
  by (induction frag arbitrary: b) (auto simp: AList.update_conv' split: prod.splits)

lemma wire_body_rows:
  assumes "''messages'' \<notin> fst ` set (object_fields (Some (rq_extras req)))"
    and "''messages'' \<notin> fst ` set (object_fields (wk_thinking_off k))"
  shows "\<exists>b. wire_body l model req k = JObj b \<and>
    map_of b ''messages'' = Some (JArr (map (\<lambda>m. JObj (wire_message l (echo_key req) m)) (rq_messages req)))"
  using assms by (simp add: wire_body_def map_of_merge_fields json_set_def AList.update_conv' Let_def)

lemma wire_message_reasoning:
  "pm_role m = ''assistant'' \<Longrightarrow> map_of (wire_message l True m) ''reasoning_content'' =
    Some (JStr (case real_thinking m of Some t \<Rightarrow> t | None \<Rightarrow> []))"
  by (simp add: wire_message_def json_set_def AList.update_conv' Let_def)

theorem reasoning_is_echoed:
  assumes "echo_key req"
    and "''messages'' \<notin> fst ` set (object_fields (Some (rq_extras req)))"
    and "''messages'' \<notin> fst ` set (object_fields (wk_thinking_off k))"
  shows "\<exists>b rows. wire_body l model req k = JObj b \<and> map_of b ''messages'' = Some (JArr rows) \<and>
    list_all2 (\<lambda>m row. pm_role m = ''assistant'' \<longrightarrow> (\<exists>fields. row = JObj fields \<and>
        map_of fields ''reasoning_content'' = Some (JStr (case real_thinking m of Some t \<Rightarrow> t | None \<Rightarrow> []))))
      (rq_messages req) rows"
proof -
  have "list_all2 (\<lambda>m row. pm_role m = ''assistant'' \<longrightarrow> (\<exists>fields. row = JObj fields \<and>
      map_of fields ''reasoning_content'' = Some (JStr (case real_thinking m of Some t \<Rightarrow> t | None \<Rightarrow> []))))
    (rq_messages req) (map (\<lambda>m. JObj (wire_message l (echo_key req) m)) (rq_messages req))"
    using assms(1) by (simp add: list_all2_conv_all_nth wire_message_reasoning)
  then show ?thesis using wire_body_rows[OF assms(2,3)] by blast
qed

text \<open>The cold-start test reads the whole label, so the digits of a body count too.\<close>

lemma cold_start_reads_bodies: "is_cold_start ''429 Too Many Requests: request 15031 refused''"
  by code_simp

section \<open>Witnesses\<close>

text \<open>An endpoint that answers every request with a truncated body, and bills for it; the world counts
  the requests.\<close>

definition cut_choice :: chat_choice where
  "cut_choice = \<lparr>ch_content = [], ch_reasoning_content = ''rrrr'', ch_reasoning = [], ch_calls = [], ch_finish = Some ''length''\<rparr>"

definition cut_lib :: wire_lib where
  "cut_lib = \<lparr>wl_print = (\<lambda>_. []), wl_parse = (\<lambda>_. None), wl_alnum = (\<lambda>_. False),
     wl_chat = (\<lambda>_. Inr \<lparr>cr_choices = [cut_choice],
       cr_usage = Some \<lparr>wu_prompt = 5, wu_completion = 64, wu_cached = None, wu_reasoning = None\<rparr>\<rparr>),
     wl_chat_text = (\<lambda>_. None), wl_finish_debug = (\<lambda>_. []), wl_error_debug = (\<lambda>_. [])\<rparr>"

definition cut_http :: "string option \<Rightarrow> nat http_env" where
  "cut_http key = \<lparr>he_env = (\<lambda>_ _. key),
     he_send = (\<lambda>_ _ _ _ _ n. (Inr \<lparr>rp_status = 200, rp_retry_after = None, rp_text = [], rp_json = Inr JNull\<rparr>, n + 1)),
     he_status_text = dec, he_sleep = (\<lambda>_ n. n), he_instant = (\<lambda>_. 0), he_epoch_secs = (\<lambda>_. None),
     he_draw = (\<lambda>n. ((0, 0), n))\<rparr>"

definition cut_request :: request where
  "cut_request = \<lparr>rq_messages = [\<lparr>pm_role = ''assistant'', pm_content = ''x'', pm_tool_calls = [],
       pm_tool_call_id = None, pm_thinking = Some ''why''\<rparr>],
     rq_tools = [], rq_max_tokens = 64, rq_thinking = ThinkingAuto, rq_extras = JNull\<rparr>"

definition cut_client :: oai_client where
  "cut_client = new_client ''http://host/'' default_profile"

primrec cut_ledger :: "nat \<Rightarrow> usage option" where
  "cut_ledger 0 = None"
| "cut_ledger (Suc n) = merge_usage (cut_ledger n) (wire_usage (cr_usage (projr (wl_chat cut_lib JNull))) ''m'')"

theorem complete_is_bounded_witness:
  "snd (oai_complete (cut_http (Some ''k'')) cut_lib cut_client ''m'' cut_request 0) \<le> 24"
  using complete_is_bounded[of "\<lambda>n. n" "cut_http (Some ''k'')" cut_lib cut_client "''m''" cut_request 0]
  by (simp add: cut_http_def)

lemma cut_once:
  "once (cut_http (Some ''k'')) cut_lib cut_client ''m'' cut_request k n =
    (Inl (body_failed \<lparr>bf_msg = truncated_answer (wk_max_tokens k) 0 4,
       bf_usage = wire_usage (cr_usage (projr (wl_chat cut_lib JNull))) ''m''\<rparr>), n + 1)"
proof -
  have "infer_stop (\<lambda>_. False) (Some ''length'') m = StMaxTokens" for m by code_simp
  moreover have "trim ''k'' \<noteq> []" "length (trim ''rrrr'') = 4" "trim [] = []" "trim ''rrrr'' \<noteq> []" by code_simp+
  ultimately show ?thesis
    by (simp add: once_def resolve_def cut_http_def cut_lib_def parse_body_def cut_choice_def choice_reasoning_def Let_def)
qed

theorem nothing_billed_is_lost_witness:
  "case oai_complete (cut_http (Some ''k'')) cut_lib cut_client ''m'' cut_request 0 of
      (Inl e, n) \<Rightarrow> (\<exists>src ex. e = Metered src (cut_ledger n) ex)
    | (Inr r, n) \<Rightarrow> Some (billed_usage r) = cut_ledger n"
  by (rule nothing_billed_is_lost) (auto simp: cut_once body_failed_def Let_def, simp_all add: cut_http_def)

theorem unexhausted_is_final_witness:
  "\<exists>src u ex. fst (oai_complete (cut_http None) cut_lib cut_client ''m'' cut_request 0) = Inl (Metered src u ex) \<and>
    (\<not> ex \<longrightarrow> classify_error src \<in> {Fatal, ContextOverflow})"
proof -
  obtain e n where e: "oai_complete (cut_http None) cut_lib cut_client ''m'' cut_request 0 = (Inl e, n)"
    by (simp add: oai_complete_def complete_loop.simps pause_def once_def resolve_def cut_http_def Let_def
        trim_def plain_fail_def next_knobs_def)
  show ?thesis using unexhausted_is_final[OF e] e by auto
qed

theorem reasoning_is_echoed_witness:
  "\<exists>b rows. wire_body cut_lib ''m'' cut_request (knobs_of cut_request default_profile) = JObj b \<and>
    map_of b ''messages'' = Some (JArr rows) \<and>
    list_all2 (\<lambda>m row. pm_role m = ''assistant'' \<longrightarrow> (\<exists>fields. row = JObj fields \<and>
        map_of fields ''reasoning_content'' = Some (JStr (case real_thinking m of Some t \<Rightarrow> t | None \<Rightarrow> []))))
      (rq_messages cut_request) rows"
proof (rule reasoning_is_echoed)
  show "echo_key cut_request" by code_simp
qed (simp_all add: cut_request_def object_fields_def knobs_of_def default_profile_def)

end
