(* ===== verification/Jail.thy ===== *)
theory Jail
  imports ToolCore
begin

text \<open>
  The path policy of the built-in tools, \<open>crates/tools-std/src/policy.rs\<close>: the execution policy, the
  deny globs and the containment check \<open>resolve_under\<close>. A path is the list of its components, which is
  how \<open>std::path\<close> compares paths; a message spells it with single slashes. The file system is the record
  \<open>fs\<close> of its answers in a world \<open>'w\<close>. \<open>glob_lang\<close> is the declarative meaning of a glob; the
  hand-rolled matcher of the code is proved equal to it.
\<close>

section \<open>Execution policy\<close>

datatype exec_policy = Allowlist | AnyCommand

definition exec_policy_of :: "string \<Rightarrow> string + exec_policy" where
  "exec_policy_of s =
     (if s = ''allowlist'' then Inr Allowlist
      else if s = ''any'' then Inr AnyCommand
      else Inl (''--exec-policy needs allowlist or any, got '' @ debug_str s))"

section \<open>Paths\<close>

datatype component = RootDir | CurDir | ParentDir | Normal string

type_synonym path = "component list"

definition SLASH :: char where "SLASH = CHR ''/''"

text \<open>\<open>Path::components\<close>: repeated slashes and inner dots are dropped, a leading dot is kept.\<close>

definition part_component :: "string \<Rightarrow> component list" where
  "part_component s =
     (if s = [] \<or> s = ''.'' then [] else if s = ''..'' then [ParentDir] else [Normal s])"

definition components :: "string \<Rightarrow> path" where
  "components s =
     (let parts = split_on SLASH s;
          rest = concat (map part_component parts)
      in if prefix [SLASH] s then RootDir # rest
         else if hd parts = ''.'' then CurDir # rest
         else rest)"

definition is_absolute :: "path \<Rightarrow> bool" where
  "is_absolute p \<longleftrightarrow> p \<noteq> [] \<and> hd p = RootDir"

definition join_path :: "path \<Rightarrow> path \<Rightarrow> path" where
  "join_path r p = (if is_absolute p \<or> r = [] then p else r @ filter (\<lambda>c. c \<noteq> CurDir) p)"

definition parent :: "path \<Rightarrow> path option" where
  "parent p = (if p = [] \<or> last p = RootDir then None else Some (butlast p))"

fun component_text :: "component \<Rightarrow> string" where
  "component_text RootDir = []"
| "component_text CurDir = ''.''"
| "component_text ParentDir = ''..''"
| "component_text (Normal s) = s"

definition path_text :: "path \<Rightarrow> string" where
  "path_text p = (if p = [RootDir] then [SLASH] else join [SLASH] (map component_text p))"

definition normalize_step :: "path \<Rightarrow> component \<Rightarrow> path" where
  "normalize_step out c =
     (case c of
        RootDir \<Rightarrow> [RootDir]
      | CurDir \<Rightarrow> out
      | ParentDir \<Rightarrow> (case parent out of Some q \<Rightarrow> q | None \<Rightarrow> out)
      | Normal s \<Rightarrow> out @ [Normal s])"

definition normalize :: "path \<Rightarrow> path" where
  "normalize p = foldl normalize_step [] p"

definition under :: "path \<Rightarrow> path \<Rightarrow> bool" where
  "under r cand \<longleftrightarrow> prefix (normalize r) (normalize cand)"

section \<open>Globs\<close>

definition STAR :: char where "STAR = CHR ''*''"

text \<open>The places the two loops of the matcher try: after every slash, and up to the next slash.\<close>

fun after_slashes :: "string \<Rightarrow> string list" where
  "after_slashes [] = []"
| "after_slashes (c # cs) = (if c = SLASH then cs # after_slashes cs else after_slashes cs)"

fun star_tails :: "string \<Rightarrow> string list" where
  "star_tails [] = [[]]"
| "star_tails (c # cs) = (c # cs) # (if c = SLASH then [] else star_tails cs)"

function glob_go :: "string \<Rightarrow> string \<Rightarrow> bool" where
  "glob_go p s =
     (if p = [] then s = []
      else if prefix [STAR, STAR, SLASH] p
      then list_ex (glob_go (drop 3 p)) (s # after_slashes s)
      else if hd p = STAR
      then
        let rest = dropWhile (\<lambda>c. c = STAR) p
        in if rest = [] then 2 \<le> length p \<or> SLASH \<notin> set s
           else list_ex (glob_go rest) (star_tails s)
      else s \<noteq> [] \<and> hd p = hd s \<and> glob_go (tl p) (tl s))"
  by pat_completeness auto
termination
proof (relation "measure (length \<circ> fst)", goal_cases)
  case (3 p s x z)
  then show ?case by (cases p) (auto simp: le_imp_less_Suc length_dropWhile_le)
qed (auto simp: prefix_def)

declare glob_go.simps [simp del]

definition glob_match :: "string \<Rightarrow> string \<Rightarrow> bool" where
  "glob_match pat path = glob_go pat path"

definition default_denied_globs :: "string list" where
  "default_denied_globs =
     [''**/.env'', ''**/.env.*'', ''**/*.pem'', ''**/*.key'', ''**/id_rsa*'', ''**/.npmrc'', ''**/.netrc'',
      ''**/.aws'', ''**/.aws/**'', ''**/.ssh'', ''**/.ssh/**'']"

definition is_env_template :: "string \<Rightarrow> bool" where
  "is_env_template rel \<longleftrightarrow> last (split_on SLASH rel) \<in> {''.env.example'', ''.env.sample'', ''.env.template''}"

section \<open>Containment\<close>

datatype path_error = PathDenied string | MissingParent string

datatype io_error = NotFound | IoError string

record 'w fs =
  fs_canonicalize :: "path \<Rightarrow> 'w \<Rightarrow> io_error + path"
  fs_is_symlink :: "path \<Rightarrow> 'w \<Rightarrow> bool"
  fs_read_link :: "path \<Rightarrow> 'w \<Rightarrow> string + path"

definition has_git :: "path \<Rightarrow> bool" where
  "has_git p \<longleftrightarrow> Normal ''.git'' \<in> set p"

definition git_component_hit :: "path \<Rightarrow> path \<Rightarrow> bool" where
  "git_component_hit canon_root canon \<longleftrightarrow>
     (prefix canon_root canon \<and> has_git (drop (length canon_root) canon))"

definition GIT_DENIED :: string where
  "GIT_DENIED = ''path is the git substrate (.git): harness-only''"

definition LINK_ESCAPES :: string where
  "LINK_ESCAPES = ''symlink escapes the tool root''"

definition canonical_root :: "('w, 'm) fs_scheme \<Rightarrow> path \<Rightarrow> 'w \<Rightarrow> path" where
  "canonical_root f r w = (case fs_canonicalize f r w of Inr c \<Rightarrow> c | Inl _ \<Rightarrow> r)"

definition link_safe :: "('w, 'm) fs_scheme \<Rightarrow> path \<Rightarrow> path \<Rightarrow> path \<Rightarrow> bool \<Rightarrow> 'w \<Rightarrow> path_error + unit" where
  "link_safe f canon_root canon target wr w =
     (case fs_read_link f target w of
        Inl e \<Rightarrow> Inl (PathDenied (''unreadable symlink: '' @ e))
      | Inr link \<Rightarrow>
          (let resolved = (if is_absolute link then link else join_path canon link);
               real = (case fs_canonicalize f resolved w of Inr r \<Rightarrow> r | Inl _ \<Rightarrow> resolved)
           in if \<not> under canon_root real then Inl (PathDenied LINK_ESCAPES)
              else if wr \<and> git_component_hit canon_root real then Inl (PathDenied GIT_DENIED)
              else Inr ()))"

definition symlink_safe :: "('w, 'm) fs_scheme \<Rightarrow> path \<Rightarrow> path \<Rightarrow> bool \<Rightarrow> 'w \<Rightarrow> path_error + unit" where
  "symlink_safe f r target wr w =
     (let canon_root = canonical_root f r w in
      if normalize target = normalize r then Inr ()
      else
        let par = (case parent target of Some q \<Rightarrow> q | None \<Rightarrow> r) in
        (case fs_canonicalize f par w of
           Inl NotFound \<Rightarrow> Inl (MissingParent (''parent directory does not exist: create '' @ path_text par
             @ '' first, then re-issue''))
         | Inl (IoError e) \<Rightarrow> Inl (PathDenied (''path is not resolvable: '' @ e))
         | Inr canon \<Rightarrow>
             if \<not> prefix canon_root canon then Inl (PathDenied LINK_ESCAPES)
             else if wr \<and> git_component_hit canon_root canon then Inl (PathDenied GIT_DENIED)
             else if fs_is_symlink f target w then link_safe f canon_root canon target wr w
             else Inr ()))"

text \<open>The path below the root the globs look at.\<close>

definition relative_text :: "path \<Rightarrow> path \<Rightarrow> string" where
  "relative_text r p =
     (if prefix (normalize r) (normalize p)
      then dropWhile (\<lambda>c. c = SLASH)
        (map (\<lambda>c. if c = CHR 0x5C then SLASH else c) (path_text (drop (length (normalize r)) (normalize p))))
      else [])"

definition denied_by :: "string \<Rightarrow> string \<Rightarrow> bool" where
  "denied_by rel g \<longleftrightarrow> \<not> (prefix ''**/.env'' g \<and> is_env_template rel) \<and> glob_match g rel"

definition resolve_under :: "('w, 'm) fs_scheme \<Rightarrow> path \<Rightarrow> string \<Rightarrow> bool \<Rightarrow> string list \<Rightarrow> 'w \<Rightarrow> path_error + path" where
  "resolve_under f r path_arg wr globs w =
     (let arg = (case strip_prefix ''/app/'' path_arg of Some s \<Rightarrow> s | None \<Rightarrow> path_arg);
          p = join_path r (components arg)
      in if \<not> under r p then Inl (PathDenied ''path escapes tool root'')
         else
           let rel = relative_text r p in
           if list_ex (denied_by rel) globs then Inl (PathDenied (''path matches denied glob: '' @ rel))
           else if wr \<and> has_git p then Inl (PathDenied GIT_DENIED)
           else try_then (symlink_safe f r p wr w) (\<lambda>_. Inr p))"


section \<open>What a glob means\<close>

datatype glob_token = Lit char | Star | Dirs | Deep

function glob_tokens :: "string \<Rightarrow> glob_token list" where
  "glob_tokens p =
     (if p = [] then []
      else if prefix [STAR, STAR, SLASH] p then Dirs # glob_tokens (drop 3 p)
      else if hd p = STAR
      then
        let rest = dropWhile (\<lambda>c. c = STAR) p
        in if rest = [] then [if 2 \<le> length p then Deep else Star] else Star # glob_tokens rest
      else Lit (hd p) # glob_tokens (tl p))"
  by pat_completeness auto
termination
proof (relation "measure length", goal_cases)
  case (3 p x)
  then show ?case by (cases p) (auto simp: le_imp_less_Suc length_dropWhile_le)
qed (auto simp: prefix_def)

declare glob_tokens.simps [simp del]

text \<open>\<open>Star\<close> is any run without a slash, \<open>Dirs\<close> any number of whole directories, \<open>Deep\<close> anything.\<close>

primrec glob_lang :: "glob_token list \<Rightarrow> string set" where
  "glob_lang [] = {[]}"
| "glob_lang (t # ts) =
     (case t of
        Lit c \<Rightarrow> {c # s | s. s \<in> glob_lang ts}
      | Star \<Rightarrow> {a @ s | a s. SLASH \<notin> set a \<and> s \<in> glob_lang ts}
      | Dirs \<Rightarrow> {a @ s | a s. (a = [] \<or> last a = SLASH) \<and> s \<in> glob_lang ts}
      | Deep \<Rightarrow> {a @ s | a s. s \<in> glob_lang ts})"

lemma after_slashes_iff:
  "t \<in> set (after_slashes s) \<longleftrightarrow> (\<exists>a. a \<noteq> [] \<and> last a = SLASH \<and> s = a @ t)"
proof (induction s)
  case (Cons c cs)
  have "(\<exists>a. a \<noteq> [] \<and> last a = SLASH \<and> c # cs = a @ t) \<longleftrightarrow>
      (c = SLASH \<and> t = cs) \<or> (\<exists>a. a \<noteq> [] \<and> last a = SLASH \<and> cs = a @ t)"
    by (auto simp: Cons_eq_append_conv split: if_splits)
  then show ?case using Cons by auto
qed simp

lemma star_tails_iff: "t \<in> set (star_tails s) \<longleftrightarrow> (\<exists>a. SLASH \<notin> set a \<and> s = a @ t)"
proof (induction s)
  case (Cons c cs)
  then show ?case by (auto simp: Cons_eq_append_conv)
qed simp

lemma dirs_places:
  "t \<in> set (s # after_slashes s) \<longleftrightarrow> (\<exists>a. (a = [] \<or> last a = SLASH) \<and> s = a @ t)"
  by (cases "t = s") (auto simp: after_slashes_iff)

lemma glob_go_lang: "glob_go p s \<longleftrightarrow> s \<in> glob_lang (glob_tokens p)"
proof (induction p s rule: glob_go.induct)
  case (1 p s)
  let ?rest = "dropWhile (\<lambda>c. c = STAR) p"
  consider "p = []" | "p \<noteq> []" "prefix [STAR, STAR, SLASH] p"
    | "p \<noteq> []" "\<not> prefix [STAR, STAR, SLASH] p" "hd p = STAR" "?rest = []"
    | "p \<noteq> []" "\<not> prefix [STAR, STAR, SLASH] p" "hd p = STAR" "?rest \<noteq> []"
    | "p \<noteq> []" "\<not> prefix [STAR, STAR, SLASH] p" "hd p \<noteq> STAR" by blast
  then show ?case
  proof cases
    case 1
    then show ?thesis by (simp add: glob_go.simps[of "[]" s] glob_tokens.simps[of "[]"])
  next
    case 2
    have "glob_go p s \<longleftrightarrow> (\<exists>t \<in> set (s # after_slashes s). t \<in> glob_lang (glob_tokens (drop 3 p)))"
      using 2 "1.IH"(1)[OF 2] by (subst glob_go.simps) (simp add: list_ex_iff)
    then show ?thesis unfolding Bex_def dirs_places using 2 by (subst glob_tokens.simps) auto
  next
    case 3
    then show ?thesis by (subst glob_go.simps, subst glob_tokens.simps) auto
  next
    case 4
    have "glob_go p s \<longleftrightarrow> (\<exists>t \<in> set (star_tails s). t \<in> glob_lang (glob_tokens ?rest))"
      using 4 "1.IH"(2)[OF 4(1,2,3) refl 4(4)] by (subst glob_go.simps) (simp add: list_ex_iff del: dropWhile_eq_Nil_conv)
    then show ?thesis unfolding Bex_def star_tails_iff using 4 by (subst glob_tokens.simps) auto
  next
    case 5
    then show ?thesis using "1.IH"(3)[OF 5]
      by (subst glob_go.simps, subst glob_tokens.simps) (cases s, auto)
  qed
qed



section \<open>Secrets stay out of reach\<close>

lemma lits_lang: "s \<in> glob_lang (map Lit xs @ ts) \<longleftrightarrow> (\<exists>t. s = xs @ t \<and> t \<in> glob_lang ts)"
  by (induction xs arbitrary: s) auto

lemma tail_lang: "s \<in> glob_lang (map Lit xs) \<longleftrightarrow> s = xs"
  using lits_lang[of s xs "[]"] by auto

text \<open>Where a name of a path stands in its text.\<close>

lemma join_Cons: "join sep (x # xs) = (if xs = [] then x else x @ sep @ join sep xs)"
  by (cases xs) auto

lemma join_place:
  "n \<in> set ns \<Longrightarrow> \<exists>a b. (a = [] \<or> last a = SLASH) \<and> (b = [] \<or> hd b = SLASH) \<and> join [SLASH] ns = a @ n @ b"
proof (induction ns)
  case (Cons x xs)
  show ?case
  proof (cases "n = x")
    case True
    then show ?thesis
      by (intro exI[of _ "[]"] exI[of _ "if xs = [] then [] else [SLASH] @ join [SLASH] xs"]) (simp add: join_Cons)
  next
    case False
    then have "n \<in> set xs" using Cons.prems by simp
    with Cons.IH obtain a b where "a = [] \<or> last a = SLASH" "b = [] \<or> hd b = SLASH"
      "join [SLASH] xs = a @ n @ b" "xs \<noteq> []" by fastforce
    then show ?thesis
      by (intro exI[of _ "x @ [SLASH] @ a"] exI[of _ b]) (auto simp: join_Cons)
  qed
qed simp

lemma join_last_place:
  "ns \<noteq> [] \<Longrightarrow> \<exists>a. (a = [] \<or> last a = SLASH) \<and> join [SLASH] ns = a @ last ns"
proof (induction ns)
  case (Cons x xs)
  show ?case
  proof (cases "xs = []")
    case True
    then show ?thesis by (intro exI[of _ "[]"]) simp
  next
    case False
    then obtain a where "a = [] \<or> last a = SLASH" "join [SLASH] xs = a @ last xs" using Cons by blast
    then show ?thesis using False by (intro exI[of _ "x @ [SLASH] @ a"]) (auto simp: join_Cons)
  qed
qed simp

lemma split_on_place: "SLASH \<notin> set n \<Longrightarrow> a = [] \<or> last a = SLASH \<Longrightarrow> last (split_on SLASH (a @ n)) = n"
proof (induction a)
  case Nil
  then have "split_on SLASH n = [n]" by (induction n) auto
  then show ?case by simp
next
  case (Cons c cs)
  show ?case
  proof (cases "cs = []")
    case True
    then show ?thesis using Cons by simp
  next
    case False
    then have "last (split_on SLASH (cs @ n)) = n" using Cons by (auto split: if_splits)
    moreover obtain g gs where g: "split_on SLASH (cs @ n) = g # gs" by (metis split_on_not_Nil neq_Nil_conv)
    moreover have "gs \<noteq> []"
    proof
      assume "gs = []"
      then have "cs @ n = g" using join_split_on[of SLASH "cs @ n"] g by simp
      moreover have "SLASH \<notin> set g" using split_on_no_sep[of g SLASH "cs @ n"] g by simp
      moreover have "SLASH \<in> set cs" using \<open>cs \<noteq> []\<close> Cons.prems(2) last_in_set[of cs] by simp
      ultimately show "False" by auto
    qed
    ultimately show ?thesis by simp
  qed
qed

text \<open>The text of names that are a file system's: none empty, none with a slash or a backslash.\<close>

definition plain_names :: "string list \<Rightarrow> bool" where
  "plain_names ns \<longleftrightarrow> (\<forall>n\<in>set ns. n \<noteq> [] \<and> SLASH \<notin> set n \<and> CHR 0x5C \<notin> set n)"

lemma relative_text_names:
  assumes "prefix (normalize r) (normalize p)" "drop (length (normalize r)) (normalize p) = map Normal ns" "plain_names ns"
  shows "relative_text r p = join [SLASH] ns"
proof -
  have names_text: "path_text (map Normal ns) = join [SLASH] ns"
    by (cases ns) (auto simp: path_text_def comp_def)
  have nb: "CHR 0x5C \<notin> set (join [SLASH] ns)"
    using assms(3) by (induction ns) (auto simp: join_Cons plain_names_def SLASH_def)
  have "dropWhile (\<lambda>c. c = SLASH) (join [SLASH] ns) = join [SLASH] ns"
  proof (cases ns)
    case (Cons n ms)
    then obtain c cs where "n = c # cs" "c \<noteq> SLASH"
      using assms(3) by (cases n) (auto simp: plain_names_def)
    then show ?thesis using Cons by (simp add: join_Cons)
  qed simp
  moreover have "map (\<lambda>c. if c = CHR 0x5C then SLASH else c) (join [SLASH] ns) = join [SLASH] ns"
    using nb by (intro map_idI) auto
  ultimately show ?thesis using assms by (simp add: relative_text_def names_text)
qed

text \<open>The tokens of the stock globs.\<close>

lemma stock_tokens:
  "glob_tokens ''**/.env'' = Dirs # map Lit ''.env''"
  "glob_tokens ''**/.npmrc'' = Dirs # map Lit ''.npmrc''"
  "glob_tokens ''**/.netrc'' = Dirs # map Lit ''.netrc''"
  "glob_tokens ''**/.aws'' = Dirs # map Lit ''.aws''"
  "glob_tokens ''**/.ssh'' = Dirs # map Lit ''.ssh''"
  "glob_tokens ''**/.aws/**'' = Dirs # map Lit ''.aws/'' @ [Deep]"
  "glob_tokens ''**/.ssh/**'' = Dirs # map Lit ''.ssh/'' @ [Deep]"
  "glob_tokens ''**/id_rsa*'' = Dirs # map Lit ''id_rsa'' @ [Star]"
  "glob_tokens ''**/.env.*'' = Dirs # map Lit ''.env.'' @ [Star]"
  "glob_tokens ''**/*.pem'' = Dirs # Star # map Lit ''.pem''"
  "glob_tokens ''**/*.key'' = Dirs # Star # map Lit ''.key''"
  by code_simp+


lemma dirs_lang: "s \<in> glob_lang (Dirs # ts) \<longleftrightarrow> (\<exists>a t. (a = [] \<or> last a = SLASH) \<and> s = a @ t \<and> t \<in> glob_lang ts)"
  by auto

text \<open>A name that a stock glob is about is matched wherever the glob says it may stand.\<close>

lemma named_file_matches:
  assumes "glob_tokens g = Dirs # map Lit x" "ns \<noteq> []" "last ns = x"
  shows "glob_match g (join [SLASH] ns)"
  using join_last_place[OF assms(2)] assms tail_lang[of x x] unfolding glob_match_def glob_go_lang
  by (metis dirs_lang)

lemma suffixed_file_matches:
  assumes "glob_tokens g = Dirs # Star # map Lit x" "ns \<noteq> []" "last ns = y @ x" "SLASH \<notin> set y"
  shows "glob_match g (join [SLASH] ns)"
proof -
  obtain a where "a = [] \<or> last a = SLASH" "join [SLASH] ns = a @ y @ x"
    using join_last_place[OF assms(2)] assms(3) by auto
  moreover have "y @ x \<in> glob_lang (Star # map Lit x)" using assms(4) by (auto simp: tail_lang)
  ultimately show ?thesis unfolding glob_match_def glob_go_lang assms(1) dirs_lang by blast
qed

lemma prefixed_file_matches:
  assumes "glob_tokens g = Dirs # map Lit x @ [Star]" "ns \<noteq> []" "last ns = x @ y" "SLASH \<notin> set y"
  shows "glob_match g (join [SLASH] ns)"
proof -
  obtain a where "a = [] \<or> last a = SLASH" "join [SLASH] ns = a @ x @ y"
    using join_last_place[OF assms(2)] assms(3) by auto
  moreover have "x @ y \<in> glob_lang (map Lit x @ [Star])" using assms(4) by (auto simp: lits_lang)
  ultimately show ?thesis unfolding glob_match_def glob_go_lang assms(1) dirs_lang by blast
qed

lemma directory_matches:
  assumes "glob_tokens g = Dirs # map Lit x" "glob_tokens h = Dirs # map Lit (x @ [SLASH]) @ [Deep]" "x \<in> set ns"
  shows "glob_match g (join [SLASH] ns) \<or> glob_match h (join [SLASH] ns)"
proof -
  obtain a b where p: "a = [] \<or> last a = SLASH" "b = [] \<or> hd b = SLASH" "join [SLASH] ns = a @ x @ b"
    using join_place[OF assms(3)] by auto
  show ?thesis
  proof (cases b)
    case Nil
    then show ?thesis using p assms(1) tail_lang[of x x] unfolding glob_match_def glob_go_lang
      by (metis append_Nil2 dirs_lang)
  next
    case (Cons c cs)
    then have "x @ b = (x @ [SLASH]) @ cs" using p(2) by simp
    moreover have "(x @ [SLASH]) @ cs \<in> glob_lang (map Lit (x @ [SLASH]) @ [Deep])" unfolding lits_lang by auto
    ultimately show ?thesis using p unfolding glob_match_def glob_go_lang assms(2) dirs_lang by metis
  qed
qed

definition ENV_TEMPLATES :: "string list" where
  "ENV_TEMPLATES = [''.env.example'', ''.env.sample'', ''.env.template'']"

lemma stock_members:
  "''**/.ssh'' \<in> set default_denied_globs" "\<not> prefix ''**/.env'' ''**/.ssh''"
  "''**/.ssh/**'' \<in> set default_denied_globs" "\<not> prefix ''**/.env'' ''**/.ssh/**''"
  "''**/.aws'' \<in> set default_denied_globs" "\<not> prefix ''**/.env'' ''**/.aws''"
  "''**/.aws/**'' \<in> set default_denied_globs" "\<not> prefix ''**/.env'' ''**/.aws/**''"
  "''**/.npmrc'' \<in> set default_denied_globs" "\<not> prefix ''**/.env'' ''**/.npmrc''"
  "''**/.netrc'' \<in> set default_denied_globs" "\<not> prefix ''**/.env'' ''**/.netrc''"
  "''**/*.pem'' \<in> set default_denied_globs" "\<not> prefix ''**/.env'' ''**/*.pem''"
  "''**/*.key'' \<in> set default_denied_globs" "\<not> prefix ''**/.env'' ''**/*.key''"
  "''**/id_rsa*'' \<in> set default_denied_globs" "\<not> prefix ''**/.env'' ''**/id_rsa*''"
  "''**/.env'' \<in> set default_denied_globs" "''**/.env.*'' \<in> set default_denied_globs"
  "''.env'' \<notin> set ENV_TEMPLATES"
  by code_simp+

text \<open>
  with the stock globs, a path the check lets through goes through no \<open>.ssh\<close> or
  \<open>.aws\<close> directory and ends in no environment file but the shareable templates, in no key or certificate
  and in no credentials file of npm or netrc. The names are those of a file system without backslashes.\<close>

theorem secrets_are_denied:
  assumes ok: "resolve_under f r arg wr default_denied_globs w = Inr p"
    and names: "drop (length (normalize r)) (normalize p) = map Normal ns" "plain_names ns" "ns \<noteq> []"
  shows "''.ssh'' \<notin> set ns \<and> ''.aws'' \<notin> set ns \<and>
    last ns \<notin> {''.env'', ''.npmrc'', ''.netrc''} \<and>
    (prefix ''.env.'' (last ns) \<longrightarrow> last ns \<in> set ENV_TEMPLATES) \<and>
    \<not> suffix ''.pem'' (last ns) \<and> \<not> suffix ''.key'' (last ns) \<and> \<not> prefix ''id_rsa'' (last ns)"
proof -
  let ?rel = "join [SLASH] ns"
  have u: "under r p" and rel: "\<not> list_ex (denied_by (relative_text r p)) default_denied_globs"
    using ok by (auto simp: resolve_under_def Let_def try_then_Inr split: if_splits)
  have relt: "relative_text r p = ?rel" using relative_text_names[OF _ names(1,2)] u by (simp add: under_def)
  have ls: "SLASH \<notin> set (last ns)" using names(2,3) by (simp add: plain_names_def)
  have allowed: "\<not> glob_match g ?rel" if "g \<in> set default_denied_globs" "\<not> prefix ''**/.env'' g" for g
    using rel that unfolding relt list_ex_iff denied_by_def by blast
  have template: "is_env_template ?rel \<longleftrightarrow> last ns \<in> set ENV_TEMPLATES"
  proof -
    obtain a where "a = [] \<or> last a = SLASH" "?rel = a @ last ns" using join_last_place[OF names(3)] by blast
    then have "last (split_on SLASH ?rel) = last ns" using split_on_place[OF ls] by simp
    then show ?thesis by (simp add: is_env_template_def ENV_TEMPLATES_def)
  qed
  have env: "\<not> glob_match g ?rel" if "g \<in> set default_denied_globs" "last ns \<notin> set ENV_TEMPLATES" for g
    using rel that template unfolding relt list_ex_iff denied_by_def by blast
  have split_tail: "\<exists>y. last ns = y @ x \<and> SLASH \<notin> set y" if "suffix x (last ns)" for x
    using that ls by (auto simp: suffix_def)
  have split_head: "\<exists>y. last ns = x @ y \<and> SLASH \<notin> set y" if "prefix x (last ns)" for x
    using that ls by (auto simp: prefix_def)
  have "''.ssh'' \<notin> set ns"
    using directory_matches[OF stock_tokens(5), of "''**/.ssh/**''" ns] stock_tokens(7)
      allowed[OF stock_members(1,2)] allowed[OF stock_members(3,4)] unfolding SLASH_def by auto
  moreover have "''.aws'' \<notin> set ns"
    using directory_matches[OF stock_tokens(4), of "''**/.aws/**''" ns] stock_tokens(6)
      allowed[OF stock_members(5,6)] allowed[OF stock_members(7,8)] unfolding SLASH_def by auto
  moreover have "last ns \<noteq> ''.npmrc''" "last ns \<noteq> ''.netrc''"
    using named_file_matches[OF stock_tokens(2) names(3)] named_file_matches[OF stock_tokens(3) names(3)]
      allowed[OF stock_members(9,10)] allowed[OF stock_members(11,12)] by blast+
  moreover have "last ns \<noteq> ''.env''"
    using named_file_matches[OF stock_tokens(1) names(3)] env[OF stock_members(19)] stock_members(21) by metis
  moreover have "\<not> suffix ''.pem'' (last ns)"
    using suffixed_file_matches[OF stock_tokens(10) names(3)] split_tail allowed[OF stock_members(13,14)] by blast
  moreover have "\<not> suffix ''.key'' (last ns)"
    using suffixed_file_matches[OF stock_tokens(11) names(3)] split_tail allowed[OF stock_members(15,16)] by blast
  moreover have "\<not> prefix ''id_rsa'' (last ns)"
    using prefixed_file_matches[OF stock_tokens(8) names(3)] split_head allowed[OF stock_members(17,18)] by blast
  moreover have "prefix ''.env.'' (last ns) \<longrightarrow> last ns \<in> set ENV_TEMPLATES"
    using prefixed_file_matches[OF stock_tokens(9) names(3)] split_head env[OF stock_members(20)] by blast
  ultimately show ?thesis by simp
qed


section \<open>The jail holds\<close>


section \<open>A small file system\<close>

text \<open>The root \<open>/r\<close> with a file, a link to it, a link to a directory outside, and a dangling link whose
  target goes through that directory link.\<close>

definition demo_root :: path where "demo_root = [RootDir, Normal ''r'']"

definition demo_canon :: "(path \<times> path) list" where
  "demo_canon =
     [([RootDir], [RootDir]),
      (demo_root, demo_root),
      (demo_root @ [Normal ''src''], demo_root @ [Normal ''src'']),
      (demo_root @ [Normal ''src'', Normal ''a.rs''], demo_root @ [Normal ''src'', Normal ''a.rs'']),
      (demo_root @ [Normal ''alias''], demo_root @ [Normal ''src'', Normal ''a.rs'']),
      (demo_root @ [Normal ''out''], [RootDir, Normal ''etc'']),
      (demo_root @ [Normal ''out'', ParentDir], [RootDir])]"

definition demo_links :: "(path \<times> path) list" where
  "demo_links =
     [(demo_root @ [Normal ''alias''], [Normal ''src'', Normal ''a.rs'']),
      (demo_root @ [Normal ''out''], [RootDir, Normal ''etc'']),
      (demo_root @ [Normal ''fresh''], [Normal ''out'', Normal ''cron''])]"

definition demo_fs :: "unit fs" where
  "demo_fs = \<lparr>fs_canonicalize = (\<lambda>p _. case map_of demo_canon p of Some c \<Rightarrow> Inr c | None \<Rightarrow> Inl NotFound),
     fs_is_symlink = (\<lambda>p _. map_of demo_links p \<noteq> None),
     fs_read_link = (\<lambda>p _. case map_of demo_links p of Some l \<Rightarrow> Inr l | None \<Rightarrow> Inl ''not a link'')\<rparr>"

theorem secrets_are_denied_witness:
  "resolve_under demo_fs demo_root ''src/a.rs'' False default_denied_globs () =
      Inr (demo_root @ [Normal ''src'', Normal ''a.rs'']) \<and>
    ''.ssh'' \<notin> set [''src'', ''a.rs''] \<and> \<not> suffix ''.pem'' (last [''src'', ''a.rs''])"
proof -
  have ok: "resolve_under demo_fs demo_root ''src/a.rs'' False default_denied_globs () =
      Inr (demo_root @ [Normal ''src'', Normal ''a.rs''])" by code_simp
  have "drop (length (normalize demo_root)) (normalize (demo_root @ [Normal ''src'', Normal ''a.rs''])) =
      map Normal [''src'', ''a.rs'']" by code_simp
  moreover have "plain_names [''src'', ''a.rs'']" by code_simp
  ultimately show ?thesis using secrets_are_denied[OF ok] ok by blast
qed


text \<open>Two ways around the check. A path that ends in dots after a link is equal to the root as a text, so no
  link is looked at; and the target of a dangling link is compared as a text, links on its way included.\<close>

lemma dots_after_link_escape:
  "resolve_under demo_fs demo_root ''out/..'' False default_denied_globs () =
      Inr (demo_root @ [Normal ''out'', ParentDir]) \<and>
    fs_canonicalize demo_fs (demo_root @ [Normal ''out'', ParentDir]) () = Inr [RootDir]"
  by code_simp

lemma dangling_link_escapes:
  "resolve_under demo_fs demo_root ''fresh'' True default_denied_globs () = Inr (demo_root @ [Normal ''fresh'']) \<and>
    fs_read_link demo_fs (demo_root @ [Normal ''fresh'']) () = Inr [Normal ''out'', Normal ''cron''] \<and>
    fs_canonicalize demo_fs (demo_root @ [Normal ''out'']) () = Inr [RootDir, Normal ''etc'']"
  by code_simp

end
