(* ===== verification/Patching.thy ===== *)
theory Patching
  imports Jail
begin

text \<open>
  The shared text operations of the built-in tools, \<open>crates/tools-std/src/common.rs\<close>: \<open>apply_hunk\<close>, the
  search-and-replace step of the edit tool, with its whitespace-insensitive fallback, the command prefix
  check and the output cap. Offsets are byte offsets.
\<close>

definition VIEW_CAP :: usize where "VIEW_CAP = 16384"
definition OUT_CAP :: usize where "OUT_CAP = 8000"
definition EDIT_FILE_CAP :: usize where "EDIT_FILE_CAP = 512 * 1024"
definition EDIT_REPLACE_CAP :: usize where "EDIT_REPLACE_CAP = 256 * 1024"
definition READ_FILE_CAP :: u64 where "READ_FILE_CAP = 64 * 1024 * 1024"
definition EXEC_TIMEOUT :: nat where "EXEC_TIMEOUT = 300 * 1000000000"

section \<open>Matches\<close>

text \<open>\<open>match_indices\<close>: the non-overlapping matches from the left; an empty pattern matches at every
  boundary of a scalar.\<close>

function match_from :: "string \<Rightarrow> nat \<Rightarrow> string \<Rightarrow> nat list" where
  "match_from p i [] = []"
| "match_from p i (c # cs) =
     (if p \<noteq> [] \<and> prefix p (c # cs) then i # match_from p (i + length p) (drop (length p) (c # cs))
      else match_from p (i + 1) cs)"
  by pat_completeness auto
termination by (relation "measure (\<lambda>(_, _, s). length s)") auto

definition match_indices :: "string \<Rightarrow> string \<Rightarrow> nat list" where
  "match_indices p s =
     (if p = [] then map (\<lambda>k. length (take_chars k s)) [0..<char_count s + 1] else match_from p 0 s)"

section \<open>Collapsed white space\<close>

definition is_ws4 :: "char \<Rightarrow> bool" where
  "is_ws4 c \<longleftrightarrow> c = CHR '' '' \<or> c = CHR 0x09 \<or> c = CHR 0x0A \<or> c = CHR 0x0D"

text \<open>Each byte of the collapsed text with the offset it comes from: the two vectors of the code.\<close>

function collapse_from :: "nat \<Rightarrow> string \<Rightarrow> (char \<times> nat) list" where
  "collapse_from i [] = []"
| "collapse_from i (c # cs) =
     (if is_ws4 c
      then (CHR '' '', i) # collapse_from (i + 1 + length (takeWhile is_ws4 cs)) (dropWhile is_ws4 cs)
      else (c, i) # collapse_from (i + 1) cs)"
  by pat_completeness auto
termination by (relation "measure (\<lambda>(_, s). length s)") (auto simp: le_imp_less_Suc length_dropWhile_le)

definition collapse_ws :: "string \<Rightarrow> string \<times> nat list" where
  "collapse_ws s = (map fst (collapse_from 0 s), map snd (collapse_from 0 s))"

section \<open>One hunk\<close>

definition ambiguous_error :: "nat \<Rightarrow> string" where
  "ambiguous_error n = ''search matches '' @ dec n @ '' spans, refusing ambiguous patch''"

definition fuzzy_span :: "string \<Rightarrow> string \<Rightarrow> string + (nat \<times> nat)" where
  "fuzzy_span text_in search =
     (let (ntext, tmap) = collapse_ws text_in;
          nsearch = fst (collapse_ws search)
      in if nsearch = [] then Inl ''search is only whitespace''
         else
           let hits = match_indices nsearch ntext in
           if hits = [] then Inl ''search string not found''
           else if 1 < length hits then Inl (ambiguous_error (length hits))
           else
             let ns = hits ! 0;
                 ne = ns + length nsearch;
                 e = tmap ! (ne - 1) + 1;
                 run_end = (if ne < length tmap then tmap ! ne else length text_in)
             in Inr (tmap ! ns, e + length (takeWhile is_ws4 (take (run_end - e) (drop e text_in)))))"

definition hunk_span :: "string \<Rightarrow> string \<Rightarrow> string + (nat \<times> nat)" where
  "hunk_span text_in search =
     (let exact = match_indices search text_in in
      if length exact = 1 then Inr (exact ! 0, exact ! 0 + length search)
      else if 1 < length exact then Inl (ambiguous_error (length exact))
      else if search = [] then Inl ''missing search''
      else fuzzy_span text_in search)"

definition apply_hunk :: "string \<Rightarrow> string \<Rightarrow> string \<Rightarrow> string + string" where
  "apply_hunk text_in search replace =
     map_sum id (\<lambda>(s, e). take s text_in @ replace @ drop e text_in) (hunk_span text_in search)"

section \<open>Small helpers\<close>

definition prefix_allowed :: "string list \<Rightarrow> string \<Rightarrow> bool" where
  "prefix_allowed allowed cmd \<longleftrightarrow>
     list_ex (\<lambda>p. trim p \<noteq> [] \<and> (cmd = trim p \<or> prefix (trim p @ '' '') cmd)) allowed"

definition cap_chars :: "string \<Rightarrow> nat \<Rightarrow> string \<times> bool" where
  "cap_chars s n = (if char_count s \<le> n then (s, False) else (take_chars n s, True))"

fun path_err :: "path_error \<Rightarrow> tool_error" where
  "path_err (PathDenied m) = DeniedError m"
| "path_err (MissingParent m) = FailedError m"

definition dispatch_call :: "tool_call \<Rightarrow> call_status" where
  "dispatch_call c = Dispatch \<lparr>inv_call_id = call_id c, inv_name = call_name c, inv_args = call_args c\<rparr>"

section \<open>Matches are occurrences\<close>

lemma match_from_occurs:
  "k \<in> set (match_from p i s) \<Longrightarrow> \<exists>a b. k = i + length a \<and> s = a @ p @ b"
proof (induction p i s rule: match_from.induct)
  case (2 p i c cs)
  show ?case
  proof (cases "p \<noteq> [] \<and> prefix p (c # cs)")
    case True
    then obtain r where r: "c # cs = p @ r" by (auto simp: prefix_def)
    consider "k = i" | "k \<in> set (match_from p (i + length p) (drop (length p) (c # cs)))"
      using "2.prems" True by auto
    then show ?thesis
    proof cases
      case 1
      then show ?thesis using r by (intro exI[of _ "[]"] exI[of _ r]) simp
    next
      case 2
      then obtain a b where "k = i + length p + length a" "drop (length p) (c # cs) = a @ p @ b"
        using "2.IH"(1) True by blast
      then show ?thesis using r by (intro exI[of _ "p @ a"] exI[of _ b]) auto
    qed
  next
    case False
    then obtain a b where "k = i + 1 + length a" "cs = a @ p @ b" using 2 by auto
    then show ?thesis by (intro exI[of _ "c # a"] exI[of _ b]) simp
  qed
qed simp

text \<open>Every occurrence overlaps a match, or is one.\<close>

lemma match_from_covers:
  "p \<noteq> [] \<Longrightarrow> s = a @ p @ b \<Longrightarrow>
    \<exists>k\<in>set (match_from p i s). k < i + length a + length p \<and> i + length a < k + length p"
proof (induction p i s arbitrary: a rule: match_from.induct)
  case (2 p i c cs)
  show ?case
  proof (cases "prefix p (c # cs)")
    case True
    show ?thesis
    proof (cases "length a < length p")
      case True
      then show ?thesis using 2(3) \<open>prefix p (c # cs)\<close> by (intro bexI[of _ i]) auto
    next
      case False
      then have "drop (length p) (c # cs) = drop (length p) a @ p @ b" using "2.prems" by simp
      then show ?thesis using "2.IH"(1)[OF _ "2.prems"(1)] True False "2.prems"(1) by fastforce
    qed
  next
    case False
    then obtain a' where a: "a = c # a'" "cs = a' @ p @ b"
      using "2.prems" by (cases a) (auto simp: prefix_def)
    then show ?thesis using "2.IH"(2)[OF _ "2.prems"(1) a(2)] False by fastforce
  qed
qed simp


section \<open>A hunk replaces one span\<close>

text \<open>A text is the concatenation of its runs: the maximal white-space runs and the other bytes.\<close>

function ws_runs :: "string \<Rightarrow> string list" where
  "ws_runs [] = []"
| "ws_runs (c # cs) =
     (if is_ws4 c then (c # takeWhile is_ws4 cs) # ws_runs (dropWhile is_ws4 cs) else [c] # ws_runs cs)"
  by pat_completeness auto
termination by (relation "measure length") (auto simp: le_imp_less_Suc length_dropWhile_le)

definition run_byte :: "string \<Rightarrow> char" where
  "run_byte r = (if is_ws4 (hd r) then CHR '' '' else hd r)"

text \<open>What the fuzzy match compares.\<close>

definition squeezed :: "string \<Rightarrow> string" where "squeezed s = map run_byte (ws_runs s)"

primrec offsets :: "nat \<Rightarrow> string list \<Rightarrow> nat list" where
  "offsets i [] = []"
| "offsets i (r # rs) = i # offsets (i + length r) rs"

lemma length_offsets [simp]: "length (offsets i rs) = length rs"
  by (induction rs arbitrary: i) auto

lemma nth_offsets: "k < length rs \<Longrightarrow> offsets i rs ! k = i + length (concat (take k rs))"
  by (induction rs arbitrary: i k) (auto simp: nth_Cons split: nat.split)

lemma concat_ws_runs [simp]: "concat (ws_runs s) = s"
  by (induction s rule: ws_runs.induct) auto

lemma collapse_from_runs: "collapse_from i s = zip (map run_byte (ws_runs s)) (offsets i (ws_runs s))"
  by (induction i s rule: collapse_from.induct) (auto simp: run_byte_def)

lemma collapse_ws_runs: "collapse_ws s = (squeezed s, offsets 0 (ws_runs s))"
  by (simp add: collapse_ws_def collapse_from_runs squeezed_def)

text \<open>Well-formed runs: none empty, white space is maximal, anything else is one byte.\<close>

fun runs_ok :: "string list \<Rightarrow> bool" where
  "runs_ok [] = True"
| "runs_ok (r # rs) \<longleftrightarrow> r \<noteq> [] \<and> runs_ok rs \<and>
     (if is_ws4 (hd r) then list_all is_ws4 r \<and> (rs \<noteq> [] \<longrightarrow> \<not> is_ws4 (hd (hd rs))) else length r = 1)"

lemma ws_runs_hd: "ws_runs s \<noteq> [] \<Longrightarrow> hd (hd (ws_runs s)) = hd s"
  by (cases s) auto

lemma ws_runs_Nil [simp]: "ws_runs s = [] \<longleftrightarrow> s = []"
  by (cases s) auto

lemma runs_ok_ws_runs: "runs_ok (ws_runs s)"
proof (induction s rule: ws_runs.induct)
  case (2 c cs)
  have "list_all is_ws4 (takeWhile is_ws4 cs)" by (auto simp: list_all_iff dest: set_takeWhileD)
  moreover have "dropWhile is_ws4 cs \<noteq> [] \<longrightarrow> \<not> is_ws4 (hd (dropWhile is_ws4 cs))"
    using hd_dropWhile[of is_ws4 cs] by blast
  ultimately show ?case using 2 ws_runs_hd[of "dropWhile is_ws4 cs"] by auto
qed simp

lemma ws_runs_concat: "runs_ok rs \<Longrightarrow> ws_runs (concat rs) = rs"
proof (induction rs)
  case (Cons r rs)
  obtain c cs where r: "r = c # cs" using Cons.prems by (cases r) auto
  show ?case
  proof (cases "is_ws4 c")
    case True
    then have ws: "\<forall>x\<in>set cs. is_ws4 x" and nxt: "rs \<noteq> [] \<longrightarrow> \<not> is_ws4 (hd (hd rs))"
      using Cons.prems r by (auto simp: list_all_iff)
    have "concat rs = [] \<or> \<not> is_ws4 (hd (concat rs))"
      using nxt Cons.prems by (cases rs) (auto simp: hd_append)
    then have "takeWhile is_ws4 (cs @ concat rs) = cs" "dropWhile is_ws4 (cs @ concat rs) = concat rs"
      using ws by (auto simp: takeWhile_append2 dropWhile_append2 takeWhile_eq_Nil_iff dropWhile_eq_self_iff)
    then show ?thesis using True r Cons by simp
  next
    case False
    then show ?thesis using r Cons by (cases cs) auto
  qed
qed simp

lemma runs_ok_append: "runs_ok (xs @ ys) \<Longrightarrow> runs_ok xs \<and> runs_ok ys"
  by (induction xs) (auto split: if_splits)

lemma squeezed_middle:
  assumes "ws_runs s = xs @ ys @ zs"
  shows "squeezed (concat ys) = map run_byte ys"
proof -
  have "runs_ok ys" using runs_ok_ws_runs[of s] assms runs_ok_append[of xs] runs_ok_append[of ys zs] by metis
  then show ?thesis by (simp add: squeezed_def ws_runs_concat)
qed

text \<open>The last byte of a run: what the closing loop adds.\<close>

lemma run_end_extension:
  assumes "runs_ok (xs @ [r] @ zs)"
  defines "t \<equiv> concat (xs @ [r] @ zs)"
  defines "e \<equiv> length (concat xs) + 1"
  defines "stop \<equiv> length (concat xs) + length r"
  shows "e + length (takeWhile is_ws4 (take (stop - e) (drop e t))) = stop"
proof -
  have r: "runs_ok [r]" using assms(1) runs_ok_append[of xs "[r] @ zs"] runs_ok_append[of "[r]" zs] by simp
  obtain c cs where rc: "r = c # cs" using r by (cases r) auto
  have "drop e t = cs @ concat zs" unfolding e_def t_def rc by simp
  moreover have "stop - e = length cs" unfolding stop_def e_def rc by simp
  ultimately have "take (stop - e) (drop e t) = cs" by simp
  moreover have "list_all is_ws4 cs" using r rc by (auto split: if_splits)
  ultimately show ?thesis unfolding stop_def e_def rc by (simp add: list_all_iff takeWhile_eq_all_conv[THEN iffD2])
qed

lemma fuzzy_span_sound:
  assumes "fuzzy_span t search = Inr (s, e)"
  shows "\<exists>a m b. t = a @ m @ b \<and> s = length a \<and> e = length (a @ m) \<and> squeezed m = squeezed search"
proof -
  let ?rs = "ws_runs t"
  let ?q = "squeezed search"
  let ?hits = "match_indices ?q (squeezed t)"
  have q: "?q \<noteq> []" and some: "?hits \<noteq> []" "\<not> 1 < length ?hits"
    using assms by (auto simp: fuzzy_span_def collapse_ws_runs Let_def split: if_splits)
  obtain ns where hit: "?hits = [ns]" using some by (cases ?hits) auto
  have s: "s = offsets 0 ?rs ! ns"
    and e: "e = (let ne = ns + length ?q; e0 = offsets 0 ?rs ! (ne - 1) + 1;
        stop = (if ne < length ?rs then offsets 0 ?rs ! ne else length t)
      in e0 + length (takeWhile is_ws4 (take (stop - e0) (drop e0 t))))"
    using assms q hit by (simp_all add: fuzzy_span_def collapse_ws_runs Let_def)
  have "ns \<in> set (match_from ?q 0 (squeezed t))" using q hit by (simp add: match_indices_def)
  from match_from_occurs[OF this] obtain u v where uv: "ns = length u" "squeezed t = u @ ?q @ v" by auto
  define xs where "xs = take ns ?rs"
  define ys where "ys = take (length ?q) (drop ns ?rs)"
  define zs where "zs = drop (length ?q) (drop ns ?rs)"
  have split: "?rs = xs @ ys @ zs" unfolding xs_def ys_def zs_def by (metis append_take_drop_id)
  have len: "length ?rs = length u + length ?q + length v"
    using arg_cong[OF uv(2), of length] by (simp add: squeezed_def)
  have lx: "length xs = ns" and ly: "length ys = length ?q" unfolding xs_def ys_def using len uv(1) by simp_all
  have my: "map run_byte ys = ?q"
    using uv(2) lx ly uv(1) unfolding squeezed_def[of t] split by (simp add: append_eq_append_conv)
  obtain ys' r where ys: "ys = ys' @ [r]" using q ly by (metis length_0_conv rev_exhaust)
  have t: "t = concat xs @ concat ys @ concat zs" using concat_ws_runs[of t] unfolding split by simp
  have s': "s = length (concat xs)" using s len uv(1) q unfolding xs_def by (simp add: nth_offsets)
  let ?ne = "ns + length ?q"
  have last: "offsets 0 ?rs ! (?ne - 1) = length (concat (xs @ ys'))"
  proof -
    have "take (?ne - 1) ?rs = xs @ ys'" unfolding split using lx ly ys by (simp add: take_Cons')
    moreover have "0 < length ?q" using q by simp
    moreover from this have "?ne - 1 < length ?rs" using len uv(1) by linarith
    ultimately show ?thesis by (simp add: nth_offsets)
  qed
  have stop: "(if ?ne < length ?rs then offsets 0 ?rs ! ?ne else length t) = length (concat (xs @ ys))"
  proof (cases "?ne < length ?rs")
    case True
    then have "take ?ne ?rs = xs @ ys" unfolding split using lx ly by simp
    then show ?thesis using True by (simp add: nth_offsets)
  next
    case False
    then have "zs = []" unfolding split using lx ly by simp
    then show ?thesis using False t by simp
  qed
  have ok: "runs_ok ((xs @ ys') @ [r] @ zs)" using runs_ok_ws_runs[of t] unfolding split ys by simp
  have "concat ((xs @ ys') @ [r] @ zs) = t" using t ys by simp
  then have "e = length (concat (xs @ ys))"
    using run_end_extension[OF ok] unfolding e Let_def last stop ys by simp
  moreover have "squeezed (concat ys) = ?q" using squeezed_middle[OF split] my by simp
  ultimately show ?thesis
    using t s' by - (rule exI[of _ "concat xs"], rule exI[of _ "concat ys"], rule exI[of _ "concat zs"], simp)
qed


lemma match_from_first:
  "p \<noteq> [] \<Longrightarrow> s = a @ p @ b \<Longrightarrow>
    \<exists>k. k \<le> length a \<and> match_from p i s = (i + k) # match_from p (i + k + length p) (drop (k + length p) s)"
proof (induction p i s arbitrary: a rule: match_from.induct)
  case (2 p i c cs)
  show ?case
  proof (cases "prefix p (c # cs)")
    case True
    then have "match_from p i (c # cs) = i # match_from p (i + length p) (drop (length p) (c # cs))"
      using "2.prems"(1) by simp
    then show ?thesis by (intro exI[of _ 0]) simp
  next
    case False
    then obtain a' where a: "a = c # a'" "cs = a' @ p @ b"
      using "2.prems" by (cases a) (auto simp: prefix_def)
    then obtain k where "k \<le> length a'"
      "match_from p (i + 1) cs = (i + 1 + k) # match_from p (i + 1 + k + length p) (drop (k + length p) cs)"
      using "2.IH"(2)[OF _ "2.prems"(1) a(2)] False by fastforce
    then show ?thesis using False a(1) by (intro exI[of _ "k + 1"]) simp
  qed
qed simp

lemma two_matches:
  assumes "p \<noteq> []" "s = a @ p @ b @ p @ c"
  shows "2 \<le> length (match_from p i s)"
proof -
  obtain k where k: "k \<le> length a"
    "match_from p i s = (i + k) # match_from p (i + k + length p) (drop (k + length p) s)"
    using match_from_first[OF assms(1), of s a "b @ p @ c" i] assms(2) by auto
  have "drop (k + length p) s = drop (k + length p) (a @ p @ b) @ p @ c" using k(1) assms(2) by simp
  then have "match_from p (i + k + length p) (drop (k + length p) s) \<noteq> []"
    using match_from_first[OF assms(1)] by (metis list.distinct(1))
  then show ?thesis using k(2) by (cases "match_from p (i + k + length p) (drop (k + length p) s)") auto
qed

text \<open>
  a hunk that applies replaces one span of the text and leaves the rest as it is;
  the span is the search text itself when the text holds it, and otherwise equals it up to the lengths of
  white-space runs. A search text with two disjoint occurrences never applies.\<close>

theorem hunk_edits_one_span:
  assumes "apply_hunk t search repl = Inr out"
  shows "(\<exists>a m b. t = a @ m @ b \<and> out = a @ repl @ b \<and> squeezed m = squeezed search \<and>
      (str_contains t search \<longrightarrow> m = search)) \<and>
    (search \<noteq> [] \<longrightarrow> \<not> (\<exists>x y z. t = x @ search @ y @ search @ z))"
proof -
  obtain s e where span: "hunk_span t search = Inr (s, e)" and out: "out = take s t @ repl @ drop e t"
    using assms by (cases "hunk_span t search") (auto simp: apply_hunk_def)
  show ?thesis
  proof (cases "length (match_indices search t) = 1")
    case True
    then obtain k where k: "match_indices search t = [k]" by (auto simp: length_Suc_conv)
    then have se: "s = k" "e = k + length search" using span by (simp_all add: hunk_span_def Let_def)
    have "\<exists>a b. k = length a \<and> t = a @ search @ b"
    proof (cases "search = []")
      case True
      then have "k = length (take_chars 0 t)"
        using k by (simp add: match_indices_def upt_conv_Cons del: upt_Suc)
      then show ?thesis using True by (intro exI[of _ "[]"] exI[of _ t]) (simp add: take_chars_def)
    next
      case False
      then show ?thesis using match_from_occurs[of k search 0 t] k by (simp add: match_indices_def)
    qed
    then obtain a b where ab: "k = length a" "t = a @ search @ b" by blast
    moreover have "\<not> (\<exists>x y z. t = x @ search @ y @ search @ z)" if "search \<noteq> []"
      using two_matches[OF that, of t _ _ _ 0] k that by (fastforce simp: match_indices_def)
    ultimately show ?thesis using se out
      by - (rule conjI, rule exI[of _ a], rule exI[of _ search], rule exI[of _ b], simp_all)
  next
    case False
    then have none: "search \<noteq> []" "match_from search 0 t = []" and fuzzy: "fuzzy_span t search = Inr (s, e)"
    proof -
      have few: "\<not> 1 < length (match_indices search t)" "search \<noteq> []" "fuzzy_span t search = Inr (s, e)"
        using span False by (auto simp: hunk_span_def Let_def split: if_splits)
      then show "search \<noteq> []" "fuzzy_span t search = Inr (s, e)" by blast+
      show "match_from search 0 t = []"
        using few False by (cases "match_from search 0 t") (auto simp: match_indices_def)
    qed
    have nowhere: "t \<noteq> a @ search @ b" for a b
      using match_from_covers[OF none(1), of t a b 0] none(2) by auto
    then have absent: "\<not> str_contains t search" unfolding str_contains_iff by simp
    have single: "\<not> (\<exists>x y z. t = x @ search @ y @ search @ z)" using nowhere by simp
    obtain a m b where ab: "t = a @ m @ b" "s = length a" "e = length (a @ m)" "squeezed m = squeezed search"
      using fuzzy_span_sound[OF fuzzy] by blast
    have "out = a @ repl @ b" unfolding out ab(2,3) unfolding ab(1) by simp
    then have "\<exists>a m b. t = a @ m @ b \<and> out = a @ repl @ b \<and> squeezed m = squeezed search \<and>
        (str_contains t search \<longrightarrow> m = search)"
      using ab(1,4) absent by metis
    then show ?thesis using single by blast
  qed
qed

theorem hunk_edits_one_span_witness:
  "apply_hunk ''fn f() {  x }'' ''{ x }'' ''{ y }'' = Inr ''fn f() { y }'' \<and>
    (\<exists>a m b. ''fn f() {  x }'' = a @ m @ b \<and> squeezed m = squeezed ''{ x }'')"
proof -
  have ok: "apply_hunk ''fn f() {  x }'' ''{ x }'' ''{ y }'' = Inr ''fn f() { y }''" by code_simp
  show ?thesis using hunk_edits_one_span[OF ok] ok by blast
qed

text \<open>Overlapping occurrences are counted once, so this search has two places to apply and is not refused;
  and an empty search, which the code means to refuse, applies to an empty file.\<close>

lemma overlap_is_not_ambiguous: "apply_hunk ''aaa'' ''aa'' ''b'' = Inr ''ba''"
  by code_simp

lemma empty_search_applies: "apply_hunk [] [] ''new'' = Inr ''new''"
  by code_simp

end
