(* ===== verification/Shell.thy ===== *)
theory Shell
  imports Patching
begin

text \<open>
  The command tools, \<open>crates/tools-std/src/{condense,runner,exec,test_tool}.rs\<close>: the argv splitter, the
  shell-operator guard and the allowlist, the child's environment, the bounded read of its output and the
  condenser. Starting a child, waiting for it and killing its group are operations of the record \<open>proc_env\<close>
  on an abstract world.
\<close>

section \<open>Policy\<close>

record policy =
  po_root :: path
  po_allowed_commands :: "string list"
  po_allowed_prefixes :: "string list"
  po_syntax_cmd :: "string list option"
  po_denied_globs :: "string list"
  po_pass_env :: "string list"
  po_allow_any_cmd :: bool
  po_exec_wrap :: "string list option"

section \<open>Splitting a command\<close>

definition SQ :: string where "SQ = [CHR 0x27]"
definition DQ :: string where "DQ = [CHR 0x22]"
definition BS :: string where "BS = [CHR 0x5C]"

text \<open>The loop over the scalars: the open quote, the word being read and whether a scalar was pushed.\<close>

fun split_go :: "string list \<Rightarrow> string option \<Rightarrow> string \<Rightarrow> bool \<Rightarrow> string list" where
  "split_go [] q cur pushed = (if cur \<noteq> [] \<or> pushed then [cur] else [])"
| "split_go (c # cs) q cur pushed =
     (if q = None \<and> c = SQ then split_go cs (Some SQ) cur pushed
      else if q = None \<and> c = DQ then split_go cs (Some DQ) cur pushed
      else if q = Some c then split_go cs None cur pushed
      else if c = BS
      then (case cs of
              [] \<Rightarrow> split_go [] q cur pushed
            | n # ns \<Rightarrow> split_go ns q (cur @ n) pushed)
      else if q = None \<and> is_ws c
      then (if cur \<noteq> [] \<or> pushed then cur # split_go cs q [] False else split_go cs q cur pushed)
      else split_go cs q (cur @ c) True)"

definition split_cmd :: "string \<Rightarrow> string list" where
  "split_cmd cmd = split_go (uchars cmd) None [] False"

section \<open>The gate\<close>

definition SHELL_OPS :: "string list" where
  "SHELL_OPS = [''<'', ''>'', ''>>'', ''<<'', ''<<<'', ''|'', ''||'', ''&&'', ''&'', '';'', ''2>'', ''1>'',
     ''2>&1'', ''1>&2'', ''&>'']"

definition is_shell_op :: "string \<Rightarrow> bool" where
  "is_shell_op tok \<longleftrightarrow>
     prefix ''<<'' tok \<or> tok \<in> set SHELL_OPS \<or> prefix ''>'' tok \<or> prefix ''2>'' tok \<or> prefix ''1>'' tok
     \<or> prefix ''&>'' tok \<or> prefix ''<'' tok"

definition spawn_argv :: "policy \<Rightarrow> string list \<Rightarrow> string list" where
  "spawn_argv p argv = (case po_exec_wrap p of None \<Rightarrow> argv | Some wrap \<Rightarrow> wrap @ argv)"

definition PASS_ENV :: "string list" where
  "PASS_ENV = [''PATH'', ''HOME'', ''USER'', ''LANG'', ''LC_ALL'', ''TERM'', ''TMPDIR'', ''CARGO_HOME'', ''RUSTUP_HOME'']"

definition env_name_blocked :: "string \<Rightarrow> bool" where
  "env_name_blocked n \<longleftrightarrow> CHR ''='' \<in> set n \<or> CHR 0x00 \<in> set n \<or> suffix ''API_KEY'' n"

definition child_env :: "policy \<Rightarrow> (string \<Rightarrow> string option) \<Rightarrow> (string \<times> string) list" where
  "child_env p lookup =
     foldl (\<lambda>m n. if env_name_blocked n then m
                  else (case lookup n of Some v \<Rightarrow> AList.update n v m | None \<Rightarrow> m))
       [] (PASS_ENV @ po_pass_env p)"

section \<open>Bounded output\<close>

definition PIPE_HEAD_CAP :: nat where "PIPE_HEAD_CAP = 64 * 1024"
definition PIPE_TAIL_CAP :: nat where "PIPE_TAIL_CAP = 64 * 1024"

record bounded_out =
  bo_head :: string
  bo_tail :: string
  bo_total :: nat

definition empty_out :: bounded_out where
  "empty_out = \<lparr>bo_head = [], bo_tail = [], bo_total = 0\<rparr>"

definition bo_push :: "bounded_out \<Rightarrow> string \<Rightarrow> bounded_out" where
  "bo_push b chunk =
     (let room = (if length (bo_head b) < PIPE_HEAD_CAP
                  then min (PIPE_HEAD_CAP - length (bo_head b)) (length chunk) else 0);
          rest = drop room chunk;
          grown = bo_tail b @ rest
      in \<lparr>bo_head = bo_head b @ take room chunk,
          bo_tail = (if rest = [] then bo_tail b else drop (length grown - PIPE_TAIL_CAP) grown),
          bo_total = bo_total b + length chunk\<rparr>)"

definition bo_dropped :: "bounded_out \<Rightarrow> nat" where
  "bo_dropped b = bo_total b - (length (bo_head b) + length (bo_tail b))"

definition dropped_note :: "nat \<Rightarrow> string" where
  "dropped_note n = newline @ ''[...'' @ dec n @ '' bytes of child output omitted: bounded read keeps head+tail]'' @ newline"

definition bo_bytes :: "bounded_out \<Rightarrow> string" where
  "bo_bytes b = bo_head b @ (if 0 < bo_dropped b then dropped_note (bo_dropped b) else []) @ bo_tail b"

definition drain_pipe :: "string list \<Rightarrow> bounded_out" where
  "drain_pipe chunks = foldl bo_push empty_out chunks"

section \<open>The condenser\<close>

definition is_noise :: "string \<Rightarrow> bool" where
  "is_noise t \<longleftrightarrow> t = [] \<or> prefix ''Compiling'' t \<or> prefix ''Finished'' t \<or> prefix ''Running'' t
     \<or> prefix ''Doc-tests'' t \<or> prefix ''Blocking'' t \<or> (prefix ''test '' t \<and> suffix ''... ok'' t)"

definition TAIL_LINES :: nat where "TAIL_LINES = 12"
definition TAIL_BYTES :: nat where "TAIL_BYTES = 2000"

definition no_lines :: "nat \<Rightarrow> string" where
  "no_lines n = ''(no actionable lines in '' @ dec n @ '' lines of output)''"

text \<open>How many lines from the end fit: the lines are given last first.\<close>

fun tail_count :: "string list \<Rightarrow> nat \<Rightarrow> nat \<Rightarrow> nat" where
  "tail_count [] taken bytes = taken"
| "tail_count (l # ls) taken bytes =
     (if taken < TAIL_LINES \<and> bytes + (length l + 1) \<le> TAIL_BYTES
      then tail_count ls (taken + 1) (bytes + (length l + 1)) else taken)"

text \<open>The first boundary of a scalar at or after an offset.\<close>

function next_boundary :: "string \<Rightarrow> nat \<Rightarrow> nat" where
  "next_boundary s i = (if i < length s \<and> is_cont (s ! i) then next_boundary s (i + 1) else i)"
  by pat_completeness auto
termination by (relation "measure (\<lambda>(s, i). length s - i)") auto

declare next_boundary.simps [simp del]

definition condense_tail :: "string \<Rightarrow> string" where
  "condense_tail s =
     (let all = str_lines s in
      if all = [] then no_lines 0
      else
        let fit = tail_count (rev all) 0 0;
            whole = (fit \<noteq> 0);
            first = length all - (if whole then fit else 1);
            body = (if whole then join newline (drop first all)
                    else let l = all ! first in drop (next_boundary l (length l - TAIL_BYTES)) l)
        in if \<not> list_ex (\<lambda>l. \<not> is_noise (trim l)) (drop first all) then no_lines (length all)
           else if 0 < first then body @ newline @ ''[...'' @ dec first @ '' earlier lines omitted]''
           else body)"

definition KEEP :: "string list" where
  "KEEP = [''FAILED'', ''error'', ''panicked'', ''assertion'', ''warning'', ''test result'', ''failures:'',
     ''left:'', ''right:'']"

definition is_specific :: "string \<Rightarrow> bool" where
  "is_specific t = contains_any
     [''FAILED'', ''panicked'', ''assertion'', ''test result'', ''failures:'', ''left:'', ''right:''] t"

definition head_tail :: "nat list \<Rightarrow> nat \<Rightarrow> nat list" where
  "head_tail idx budget =
     (if length idx \<le> budget then idx
      else let head = (budget + 1) div 2
           in take head idx @ drop (length idx - (budget - head)) idx)"

definition KEPT_BUDGET :: nat where "KEPT_BUDGET = 80"

definition pick_kept :: "string list \<Rightarrow> string list" where
  "pick_kept lines =
     (let lst = length lines - 1;
          specific = filter (\<lambda>i. is_specific (trim (lines ! i))) [0..<lst];
          generic = filter (\<lambda>i. \<not> is_specific (trim (lines ! i))) [0..<lst];
          picked = lst #
            (if KEPT_BUDGET - 1 \<le> length specific then head_tail specific (KEPT_BUDGET - 1)
             else specific @ head_tail generic (KEPT_BUDGET - 1 - length specific))
      in map (\<lambda>i. lines ! i) (sort picked))"

definition signal_line :: "string \<Rightarrow> bool" where
  "signal_line l \<longleftrightarrow> \<not> is_noise (trim l) \<and> contains_any KEEP (trim l)"

definition in_baseline :: "string option \<Rightarrow> string \<Rightarrow> bool" where
  "in_baseline baseline l = (case baseline of None \<Rightarrow> False | Some b \<Rightarrow> l \<in> set (str_lines b))"

definition condense_output :: "string \<Rightarrow> string option \<Rightarrow> string" where
  "condense_output s baseline =
     (let all = str_lines s;
          matched = filter signal_line all;
          kept = filter (\<lambda>l. \<not> in_baseline baseline l) matched;
          dropped = length all - length kept;
          omitted = length kept - KEPT_BUDGET
      in if kept = [] \<and> matched = [] then condense_tail s
         else if kept = [] then no_lines (length all)
         else
           let body = join newline (if 0 < omitted then pick_kept kept else kept)
           in if 0 < omitted \<or> 0 < dropped
              then body @ newline @ ''[...'' @ dec dropped @ '' noise lines and '' @ dec omitted
                @ '' kept-lines over cap omitted]''
              else body)"


section \<open>Lossy decoding\<close>

text \<open>\<open>String::from_utf8_lossy\<close>: every maximal ill-formed part is one U+FFFD. \<open>utf8_need\<close> is the number
  of continuation bytes a leading byte asks for with the range of the first of them.\<close>

definition utf8_need :: "nat \<Rightarrow> (nat \<times> nat \<times> nat) option" where
  "utf8_need b =
     (if b < 128 then Some (0, 128, 191)
      else if 194 \<le> b \<and> b \<le> 223 then Some (1, 128, 191)
      else if b = 224 then Some (2, 160, 191)
      else if b = 237 then Some (2, 128, 159)
      else if 225 \<le> b \<and> b \<le> 239 then Some (2, 128, 191)
      else if b = 240 then Some (3, 144, 191)
      else if 241 \<le> b \<and> b \<le> 243 then Some (3, 128, 191)
      else if b = 244 then Some (3, 128, 143)
      else None)"

text \<open>How many continuation bytes are there, up to the number asked for.\<close>

definition cont_run :: "nat \<Rightarrow> nat \<Rightarrow> nat \<Rightarrow> string \<Rightarrow> nat" where
  "cont_run n lo hi s =
     (case s of
        [] \<Rightarrow> 0
      | c # cs \<Rightarrow> if n = 0 \<or> byte c < lo \<or> hi < byte c then 0
                  else Suc (length (takeWhile is_cont (take (n - 1) cs))))"

lemma cont_run_le: "cont_run n lo hi s \<le> length s"
  by (cases s) (auto simp: cont_run_def intro: le_trans[OF length_takeWhile_le])

definition REPLACEMENT :: string where "REPLACEMENT = [CHR 0xEF, CHR 0xBF, CHR 0xBD]"

function utf8_lossy :: "string \<Rightarrow> string" where
  "utf8_lossy [] = []"
| "utf8_lossy (c # cs) =
     (case utf8_need (byte c) of
        None \<Rightarrow> REPLACEMENT @ utf8_lossy cs
      | Some (n, lo, hi) \<Rightarrow>
          (let k = cont_run n lo hi cs
           in (if k = n then c # take k cs else REPLACEMENT) @ utf8_lossy (drop k cs)))"
  by pat_completeness auto
termination by (relation "measure length") auto

section \<open>Running a command\<close>

datatype child_end =
    ChildExited bool "string list" "string list" \<comment> \<open>success, chunks of stdout, chunks of stderr\<close>
  | ChildTimeout
  | ChildCancelled
  | WaitError string
  | ReaderError string

record 'w proc_env =
  pe_var :: "string \<Rightarrow> 'w \<Rightarrow> string option"
  pe_spawn :: "string list \<Rightarrow> path \<Rightarrow> (string \<times> string) list \<Rightarrow> 'w \<Rightarrow> (string + unit) \<times> 'w"
  pe_wait :: "nat \<Rightarrow> 'w \<Rightarrow> child_end \<times> 'w"
  pe_kill :: "'w \<Rightarrow> 'w"
  pe_duration_debug :: "nat \<Rightarrow> string"

definition EM_DASH :: string where "EM_DASH = [CHR 0xE2, CHR 0x80, CHR 0x94]"

definition shell_op_error :: "string \<Rightarrow> string" where
  "shell_op_error op = ''exec has no shell and stdin is closed: '' @ SQ @ op @ SQ @
     '' is a literal argument here '' @ EM_DASH @ '' write the script to a file and run it''"

definition allowed_command :: "policy \<Rightarrow> string list \<Rightarrow> bool" where
  "allowed_command p argv \<longleftrightarrow>
     po_allow_any_cmd p \<or> join '' '' argv \<in> set (po_allowed_commands p)
     \<or> prefix_allowed (po_allowed_prefixes p) (join '' '' argv)"

definition child_text :: "bounded_out \<Rightarrow> bounded_out \<Rightarrow> string" where
  "child_text out err =
     (let e = utf8_lossy (bo_bytes err)
      in utf8_lossy (bo_bytes out) @ (if e \<noteq> [] then newline @ ''[stderr]'' @ newline @ e else []))"

definition child_result :: "bool \<Rightarrow> bounded_out \<Rightarrow> bounded_out \<Rightarrow> bool \<times> string \<times> bool" where
  "child_result ok out err =
     (case cap_chars (condense_output (child_text out err) None) OUT_CAP of
        (txt', was_cut) \<Rightarrow> (ok, txt', was_cut \<or> 0 < bo_dropped out + bo_dropped err))"

definition spawn_allowed :: "'w proc_env \<Rightarrow> policy \<Rightarrow> string list \<Rightarrow> 'w \<Rightarrow> (tool_error + unit) \<times> 'w" where
  "spawn_allowed pe p argv w =
     (let full = spawn_argv p argv in
      if full = [] then (Inl (FailedError ''empty cmd''), w)
      else case pe_spawn pe full (po_root p) (child_env p (\<lambda>n. pe_var pe n w)) w of
             (Inl e, w') \<Rightarrow> (Inl (FailedError e), w')
           | (Inr _, w') \<Rightarrow> (Inr (), w'))"

definition run_allowed_argv :: "'w proc_env \<Rightarrow> policy \<Rightarrow> string list \<Rightarrow> nat \<Rightarrow> 'w \<Rightarrow>
    (tool_error + (bool \<times> string \<times> bool)) \<times> 'w" where
  "run_allowed_argv pe p argv timeout w =
     (case List.find is_shell_op argv of
        Some op \<Rightarrow> (Inl (FailedError (shell_op_error op)), w)
      | None \<Rightarrow>
          if \<not> allowed_command p argv
          then (Inl (DeniedError (''command not allowlisted: '' @ join '' '' argv)), w)
          else (case spawn_allowed pe p argv w of
                  (Inl e, w1) \<Rightarrow> (Inl e, w1)
                | (Inr _, w1) \<Rightarrow>
                    (case pe_wait pe timeout w1 of
                       (WaitError e, w2) \<Rightarrow> (Inl (FailedError e), pe_kill pe w2)
                     | (ChildTimeout, w2) \<Rightarrow>
                         (Inl (FailedError (''timeout after '' @ pe_duration_debug pe timeout)), pe_kill pe w2)
                     | (ChildCancelled, w2) \<Rightarrow> (Inl (FailedError ''cancelled''), pe_kill pe w2)
                     | (ReaderError e, w2) \<Rightarrow> (Inl (FailedError (''output reader failed: '' @ e)), w2)
                     | (ChildExited ok out err, w2) \<Rightarrow> (Inr (child_result ok (drain_pipe out) (drain_pipe err)), w2))))"

definition run_allowed :: "'w proc_env \<Rightarrow> policy \<Rightarrow> string \<Rightarrow> nat \<Rightarrow> 'w \<Rightarrow>
    (tool_error + (bool \<times> string \<times> bool)) \<times> 'w" where
  "run_allowed pe p cmd timeout w = run_allowed_argv pe p (split_cmd cmd) timeout w"

section \<open>The two command tools\<close>

definition cmd_schema :: json where
  "cmd_schema = JObj
     [(''type'', JStr ''object''), (''required'', JArr [JStr ''cmd'']), (''additionalProperties'', JBool False),
      (''properties'', JObj [(''cmd'', JObj [(''type'', JStr ''string''), (''maxLength'', JInt 8192)])])]"

text \<open>The derived parsers of the argument structs are arguments, here \<open>parse\<close>.\<close>

definition parse_args :: "(json \<Rightarrow> string + 'a) \<Rightarrow> json \<Rightarrow> tool_error + 'a" where
  "parse_args parse args = map_sum (\<lambda>e. FailedError (''bad args: '' @ e)) id (parse args)"

definition exec_tool :: tool where
  "exec_tool = \<lparr>tool_def = \<lparr>td_name = TOOL_EXEC, td_description = ''run an allowlisted command without a shell'',
     td_schema = cmd_schema\<rparr>, tool_prepare = dispatch_call\<rparr>"

definition test_tool :: tool where
  "test_tool = \<lparr>tool_def = \<lparr>td_name = TOOL_TEST, td_description = ''run an allowlisted check, report PASS/FAIL verdict'',
     td_schema = cmd_schema\<rparr>, tool_prepare = dispatch_call\<rparr>"

definition execute_exec :: "'w proc_env \<Rightarrow> policy \<Rightarrow> (json \<Rightarrow> string + string) \<Rightarrow> invocation \<Rightarrow> 'w \<Rightarrow>
    (tool_error + tool_outcome) \<times> 'w" where
  "execute_exec pe p parse iv w =
     (case parse_args parse (inv_args iv) of
        Inl e \<Rightarrow> (Inl e, w)
      | Inr cmd \<Rightarrow>
          (case run_allowed pe p cmd EXEC_TIMEOUT w of
             (Inl e, w') \<Rightarrow> (Inl e, w')
           | (Inr (ok, out, was_cut), w') \<Rightarrow> (Inr \<lparr>oc_content = out, truncated = was_cut, success = ok\<rparr>, w')))"

definition execute_test :: "'w proc_env \<Rightarrow> policy \<Rightarrow> (json \<Rightarrow> string + string) \<Rightarrow> invocation \<Rightarrow> 'w \<Rightarrow>
    (tool_error + tool_outcome) \<times> 'w" where
  "execute_test pe p parse iv w =
     (case parse_args parse (inv_args iv) of
        Inl e \<Rightarrow> (Inl e, w)
      | Inr cmd \<Rightarrow>
          (case run_allowed pe p cmd EXEC_TIMEOUT w of
             (Inl e, w') \<Rightarrow> (Inl e, w')
           | (Inr (ok, out, was_cut), w') \<Rightarrow>
               (Inr \<lparr>oc_content = (if ok then ''PASS: '' else ''FAIL: '') @ cmd @ newline @ out,
                     truncated = was_cut, success = ok\<rparr>, w')))"


section \<open>Quoted words come back\<close>

definition scalar :: "string \<Rightarrow> bool" where
  "scalar g \<longleftrightarrow> g \<noteq> [] \<and> \<not> is_cont (hd g) \<and> list_all is_cont (tl g)"

lemma uchars_concat: "list_all scalar gs \<Longrightarrow> uchars (concat gs) = gs"
proof (induction gs)
  case (Cons g gs)
  obtain c cs where g: "g = c # cs" "\<forall>x\<in>set cs. is_cont x"
    using Cons.prems by (cases g) (auto simp: scalar_def list_all_iff)
  have "concat gs = [] \<or> \<not> is_cont (hd (concat gs))"
    using Cons.prems by (cases gs) (auto simp: scalar_def)
  then have "takeWhile is_cont (cs @ concat gs) = cs" "dropWhile is_cont (cs @ concat gs) = concat gs"
    using g(2) by (auto simp: takeWhile_append2 dropWhile_append2 takeWhile_eq_Nil_iff dropWhile_eq_self_iff)
  then show ?case using g Cons by simp
qed simp

lemma scalars_of: "starts_scalar a \<Longrightarrow> list_all scalar (uchars a)"
proof (induction a rule: uchars.induct)
  case (2 c cs)
  have "starts_scalar (dropWhile is_cont cs)" unfolding starts_scalar_def by (metis hd_dropWhile)
  then show ?case using 2 by (auto simp: scalar_def starts_scalar_def list_all_iff dest: set_takeWhileD)
qed simp

definition quoted_scalars :: "string \<Rightarrow> string list" where
  "quoted_scalars a = concat (map (\<lambda>g. [BS, g]) (uchars a))"

definition shell_quote :: "string \<Rightarrow> string" where
  "shell_quote a = concat (quoted_scalars a)"

lemma split_go_quoted:
  "split_go (concat (map (\<lambda>g. [BS, g]) gs) @ rest) None cur pushed = split_go rest None (cur @ concat gs) pushed"
  by (induction gs arbitrary: cur) (auto simp: BS_def SQ_def DQ_def)

fun word_scalars :: "string list \<Rightarrow> string list" where
  "word_scalars [] = []"
| "word_scalars [a] = quoted_scalars a"
| "word_scalars (a # b # as) = quoted_scalars a @ ['' ''] @ word_scalars (b # as)"


lemma concat_word_scalars: "concat (word_scalars args) = join '' '' (map shell_quote args)"
  by (induction args rule: word_scalars.induct) (auto simp: shell_quote_def)

lemma scalar_word: "starts_scalar a \<Longrightarrow> list_all scalar (quoted_scalars a)"
proof -
  assume "starts_scalar a"
  then have "list_all scalar (uchars a)" by (rule scalars_of)
  moreover have "scalar BS" by (simp add: scalar_def BS_def is_cont_def byte_def)
  ultimately show ?thesis by (auto simp: quoted_scalars_def list_all_iff)
qed

lemma scalar_words: "\<forall>a\<in>set args. starts_scalar a \<Longrightarrow> list_all scalar (word_scalars args)"
proof (induction args rule: word_scalars.induct)
  case (3 a b as)
  moreover have "scalar '' ''" by (simp add: scalar_def is_cont_def byte_def)
  ultimately show ?case using scalar_word by simp
qed (auto simp: scalar_word)

lemma split_go_words:
  "\<forall>a\<in>set args. a \<noteq> [] \<Longrightarrow> split_go (word_scalars args) None [] False = args"
proof (induction args rule: word_scalars.induct)
  case (2 a)
  then show ?case using split_go_quoted[of "uchars a" "[]" "[]" False] by (simp add: quoted_scalars_def)
next
  case (3 a b as)
  have blank: "is_ws '' ''" "'' '' \<noteq> SQ" "'' '' \<noteq> DQ" "'' '' \<noteq> BS"
    by (simp_all add: is_ws_def is_ascii_ws_def byte_def SQ_def DQ_def BS_def)
  have "split_go (word_scalars (a # b # as)) None [] False = split_go ('' '' # word_scalars (b # as)) None a False"
    using split_go_quoted[of "uchars a" "'' '' # word_scalars (b # as)" "[]" False] by (simp add: quoted_scalars_def)
  also have "\<dots> = a # split_go (word_scalars (b # as)) None [] False"
    using 3(2) blank by simp
  finally show ?case using 3 by simp
qed simp

text \<open>
  words written with a backslash before every character and joined by blanks
  are split back into exactly these words, whatever quotes, blanks and operators they hold.\<close>

theorem split_cmd_round_trip:
  assumes "\<forall>a\<in>set args. a \<noteq> [] \<and> starts_scalar a"
  shows "split_cmd (join '' '' (map shell_quote args)) = args"
proof -
  have "uchars (join '' '' (map shell_quote args)) = word_scalars args"
    using uchars_concat[OF scalar_words] assms by (simp add: concat_word_scalars[symmetric])
  then show ?thesis using split_go_words assms by (simp add: split_cmd_def)
qed

theorem split_cmd_round_trip_witness:
  "split_cmd (join '' '' (map shell_quote [''python3'', ''-c'', ''a; b'', ''it'' @ SQ @ ''s''])) =
    [''python3'', ''-c'', ''a; b'', ''it'' @ SQ @ ''s'']"
  by (rule split_cmd_round_trip) code_simp

text \<open>An empty quoted word is lost.\<close>

lemma empty_word_is_lost: "split_cmd (''touch '' @ SQ @ SQ @ '' x'') = [''touch'', ''x'']"
  by code_simp

section \<open>What a bounded read keeps\<close>

definition kept_output :: "string \<Rightarrow> bounded_out" where
  "kept_output all =
     (let beyond = drop PIPE_HEAD_CAP all
      in \<lparr>bo_head = take PIPE_HEAD_CAP all, bo_tail = drop (length beyond - PIPE_TAIL_CAP) beyond,
          bo_total = length all\<rparr>)"

lemma drop_last_append:
  "drop (length (drop (length xs - n) xs @ ys) - n) (drop (length xs - n) xs @ ys) = drop (length (xs @ ys) - n) (xs @ ys)"
  by (cases "length xs \<le> n") (auto simp: min_def add.commute)

lemma bo_push_kept: "bo_push (kept_output all) chunk = kept_output (all @ chunk)"
proof (cases "length all < PIPE_HEAD_CAP")
  case True
  then show ?thesis
    by (auto simp: bo_push_def kept_output_def Let_def min_def)
next
  case False
  have "drop (length (drop (length (drop PIPE_HEAD_CAP all) - PIPE_TAIL_CAP) (drop PIPE_HEAD_CAP all) @ chunk) - PIPE_TAIL_CAP)
      (drop (length (drop PIPE_HEAD_CAP all) - PIPE_TAIL_CAP) (drop PIPE_HEAD_CAP all) @ chunk) =
      drop (length (drop PIPE_HEAD_CAP all @ chunk) - PIPE_TAIL_CAP) (drop PIPE_HEAD_CAP all @ chunk)"
    by (rule drop_last_append)
  then show ?thesis using False by (auto simp: bo_push_def kept_output_def Let_def min_def)
qed

lemma drain_pipe_kept: "drain_pipe chunks = kept_output (concat chunks)"
proof -
  have "foldl bo_push (kept_output all) chunks = kept_output (all @ concat chunks)" for all
    by (induction chunks arbitrary: all) (simp_all add: bo_push_kept)
  from this[of "[]"] show ?thesis by (simp add: drain_pipe_def kept_output_def empty_out_def)
qed

text \<open>
  C24 (bounded_read_is_head_and_tail): however the child's output arrives in chunks, what is kept is the output
  itself when it fits, and otherwise its first and last 64 KiB around a note with the exact number of bytes
  left out.\<close>

theorem bounded_read_is_head_and_tail:
  "bo_bytes (drain_pipe chunks) =
    (let all = concat chunks; cap = PIPE_HEAD_CAP + PIPE_TAIL_CAP in
     if length all \<le> cap then all
     else take PIPE_HEAD_CAP all @ dropped_note (length all - cap) @ drop (length all - PIPE_TAIL_CAP) all)"
proof (cases "length (concat chunks) \<le> PIPE_HEAD_CAP + PIPE_TAIL_CAP")
  case True
  then show ?thesis
    by (auto simp: drain_pipe_kept bo_bytes_def kept_output_def bo_dropped_def Let_def min_def)
next
  case False
  then have "bo_dropped (kept_output (concat chunks)) = length (concat chunks) - (PIPE_HEAD_CAP + PIPE_TAIL_CAP)"
    by (auto simp: kept_output_def bo_dropped_def Let_def min_def)
  then show ?thesis using False
    by (auto simp: drain_pipe_kept bo_bytes_def Let_def) (simp add: kept_output_def Let_def)
qed


section \<open>What the condenser keeps\<close>

lemma head_tail_length: "length (head_tail idx b) = min b (length idx)"
  by (auto simp: head_tail_def Let_def min_def)

lemma set_head_tail: "set (head_tail idx b) \<subseteq> set idx"
  by (auto simp: head_tail_def Let_def dest: in_set_takeD in_set_dropD)

lemma distinct_head_tail: "distinct idx \<Longrightarrow> distinct (head_tail idx b)"
proof (cases "length idx \<le> b")
  case False
  assume d: "distinct idx"
  have "(b + 1) div 2 \<le> length idx - (b - (b + 1) div 2)" using False by linarith
  then have "set (take ((b + 1) div 2) idx) \<inter> set (drop (length idx - (b - (b + 1) div 2)) idx) = {}"
    by (rule set_take_disj_set_drop_if_distinct[OF d])
  then show ?thesis using d False by (simp add: head_tail_def Let_def)
qed (simp add: head_tail_def)

lemma subseq_of_indices:
  assumes "distinct idx" "\<forall>i\<in>set idx. i < length xs"
  shows "subseq (map ((!) xs) (sort idx)) xs"
proof -
  have "sort idx = filter (\<lambda>i. i \<in> set idx) [0..<length xs]"
    using assms by (intro sorted_distinct_set_unique) (auto simp: sorted_wrt_filter)
  then have "subseq (sort idx) [0..<length xs]" by simp
  then have "subseq (map ((!) xs) (sort idx)) (map ((!) xs) [0..<length xs])" by (rule subseq_map)
  then show ?thesis by (simp add: map_nth)
qed



section \<open>Every command passes the gate\<close>

lemma child_env_clean: "(n, v) \<in> set (child_env p lookup) \<Longrightarrow> \<not> env_name_blocked n"
proof -
  have keys: "fst ` set (foldl (\<lambda>m n. if env_name_blocked n then m
      else (case lookup n of Some v \<Rightarrow> AList.update n v m | None \<Rightarrow> m)) m ns) \<subseteq>
      fst ` set m \<union> {n. \<not> env_name_blocked n}" for m ns
  proof (induction ns arbitrary: m)
    case (Cons n ns)
    let ?m = "if env_name_blocked n then m
      else (case lookup n of Some v \<Rightarrow> AList.update n v m | None \<Rightarrow> m)"
    have "fst ` set ?m \<subseteq> fst ` set m \<union> {n. \<not> env_name_blocked n}"
      by (auto simp: dom_update split: option.split)
    then show ?case using Cons[of ?m] unfolding foldl.simps by blast
  qed simp
  assume "(n, v) \<in> set (child_env p lookup)"
  then show ?thesis using keys[of "[]" "PASS_ENV @ po_pass_env p"] unfolding child_env_def by force
qed

text \<open>
  C21 (spawns_are_gated): a command tool starts at most one process, and only one whose words, as split from
  the command, hold no shell operator and are allowed by the policy: all commands are, or the words joined
  by blanks are a listed command or extend a listed prefix after a blank. The process runs the words behind
  the wrapper of the policy, and no variable of its environment ends in \<open>API_KEY\<close>. \<open>started\<close> is any record
  the world keeps of the processes it was asked to start.\<close>

theorem spawns_are_gated:
  assumes spawned: "\<And>full cwd e w. started (snd (pe_spawn pe full cwd e w)) = started w @ [(full, e)]"
    and waits: "\<And>t w. started (snd (pe_wait pe t w)) = started w" "\<And>w. started (pe_kill pe w) = started w"
  shows "started (snd (run_allowed pe p cmd timeout w)) = started w \<or>
    (\<exists>e. started (snd (run_allowed pe p cmd timeout w)) = started w @ [(spawn_argv p (split_cmd cmd), e)] \<and>
      (\<forall>tok\<in>set (split_cmd cmd). \<not> is_shell_op tok) \<and>
      (po_allow_any_cmd p \<or> join '' '' (split_cmd cmd) \<in> set (po_allowed_commands p) \<or>
        (\<exists>q\<in>set (po_allowed_prefixes p). trim q \<noteq> [] \<and>
          (join '' '' (split_cmd cmd) = trim q \<or> prefix (trim q @ '' '') (join '' '' (split_cmd cmd))))) \<and>
      (\<forall>(n, v)\<in>set e. \<not> suffix ''API_KEY'' n))"
proof -
  let ?argv = "split_cmd cmd"
  let ?e = "child_env p (\<lambda>n. pe_var pe n w)"
  consider op where "List.find is_shell_op ?argv = Some op"
    | "List.find is_shell_op ?argv = None" "\<not> allowed_command p ?argv"
    | "List.find is_shell_op ?argv = None" "allowed_command p ?argv" by fastforce
  then show ?thesis
  proof cases
    case 3
    obtain x w1 where sp: "spawn_allowed pe p ?argv w = (x, w1)" by fastforce
    have w1: "started w1 = started w \<or> started w1 = started w @ [(spawn_argv p ?argv, ?e)]"
    proof (cases "spawn_argv p ?argv = []")
      case False
      obtain y w' where "pe_spawn pe (spawn_argv p ?argv) (po_root p) ?e w = (y, w')" by fastforce
      then show ?thesis using sp False spawned[of "spawn_argv p ?argv" "po_root p" ?e w]
        by (auto simp: spawn_allowed_def Let_def split: sum.splits)
    qed (use sp in \<open>simp add: spawn_allowed_def\<close>)
    obtain z w2 where wt: "pe_wait pe timeout w1 = (z, w2)" by fastforce
    then have w2: "started w2 = started w1" using waits(1)[of timeout w1] by simp
    have end_state: "started (snd (run_allowed pe p cmd timeout w)) = started w1"
      using 3 sp wt w2 waits(2)
      by (cases x; cases z) (simp_all add: run_allowed_def run_allowed_argv_def)
    have ops: "\<forall>tok\<in>set ?argv. \<not> is_shell_op tok" using 3(1) by (auto simp: find_None_iff)
    have clean: "\<forall>(n, v)\<in>set ?e. \<not> suffix ''API_KEY'' n"
      using child_env_clean env_name_blocked_def by blast
    have gate: "po_allow_any_cmd p \<or> join '' '' ?argv \<in> set (po_allowed_commands p) \<or>
        (\<exists>q\<in>set (po_allowed_prefixes p). trim q \<noteq> [] \<and>
          (join '' '' ?argv = trim q \<or> prefix (trim q @ '' '') (join '' '' ?argv)))"
      using 3(2) unfolding allowed_command_def prefix_allowed_def list_ex_iff .
    show ?thesis
    proof (cases "started w1 = started w")
      case True
      then show ?thesis unfolding end_state by (rule disjI1)
    next
      case False
      then have "started w1 = started w @ [(spawn_argv p ?argv, ?e)]" using w1 by blast
      then show ?thesis unfolding end_state
        by (intro disjI2 exI[of _ ?e] conjI ops gate clean)
    qed
  qed (simp_all add: run_allowed_def run_allowed_argv_def)
qed

text \<open>A world that lists what it was asked to start.\<close>

definition listing_env :: "(string list \<times> (string \<times> string) list) list proc_env" where
  "listing_env = \<lparr>pe_var = (\<lambda>_ _. Some ''v''),
     pe_spawn = (\<lambda>full _ e w. (Inr (), w @ [(full, e)])),
     pe_wait = (\<lambda>_ w. (ChildExited True [''ok''] [], w)), pe_kill = (\<lambda>w. w), pe_duration_debug = (\<lambda>_. ''300s'')\<rparr>"

definition cargo_policy :: policy where
  "cargo_policy = \<lparr>po_root = demo_root, po_allowed_commands = [], po_allowed_prefixes = [''cargo test''],
     po_syntax_cmd = None, po_denied_globs = default_denied_globs, po_pass_env = [''OPENAI_API_KEY''],
     po_allow_any_cmd = False, po_exec_wrap = None\<rparr>"

theorem spawns_are_gated_witness:
  "length (snd (run_allowed listing_env cargo_policy ''cargo test foo'' 1 [])) = 1 \<and>
    (\<exists>e. snd (run_allowed listing_env cargo_policy ''cargo test foo'' 1 []) = [([''cargo'', ''test'', ''foo''], e)] \<and>
      (\<forall>(n, v)\<in>set e. \<not> suffix ''API_KEY'' n))"
proof -
  let ?argv = "[''cargo'', ''test'', ''foo'']"
  have words: "split_cmd ''cargo test foo'' = ?argv" by code_simp
  have gate: "List.find is_shell_op ?argv = None" "allowed_command cargo_policy ?argv"
    "spawn_argv cargo_policy ?argv = ?argv" by code_simp+
  have one: "length (snd (run_allowed listing_env cargo_policy ''cargo test foo'' 1 [])) = 1"
    unfolding run_allowed_def run_allowed_argv_def words gate(1) option.case spawn_allowed_def gate(3)
    by (simp add: gate(2) listing_env_def)
  have "\<exists>e. snd (run_allowed listing_env cargo_policy ''cargo test foo'' 1 []) = [([''cargo'', ''test'', ''foo''], e)] \<and>
      (\<forall>(n, v)\<in>set e. \<not> suffix ''API_KEY'' n)"
    using spawns_are_gated[of "\<lambda>w. w" listing_env cargo_policy "''cargo test foo''" 1 "[]"] one
    unfolding words gate(3) by (auto simp: listing_env_def)
  then show ?thesis using one by blast
qed

end
