(* ===== verification/FileTools.thy ===== *)
theory FileTools
  imports Shell
begin

text \<open>
  The file tools, \<open>crates/tools-std/src/{view,search,edit,write}.rs\<close>, with the syntax gate of \<open>runner.rs\<close>
  the two writers share. The file system is the record \<open>tool_fs\<close> of its answers and effects on a world;
  the argument structs come from derived parsers, which are arguments. A directory below the root is read
  as the tree \<open>node\<close> it is at that moment.
\<close>

datatype open_error = AlreadyExists | OpenError string

record 'w tool_fs = "'w fs" +
  tf_is_dir :: "path \<Rightarrow> 'w \<Rightarrow> bool"
  tf_size :: "path \<Rightarrow> 'w \<Rightarrow> string + nat"
  tf_read :: "path \<Rightarrow> 'w \<Rightarrow> string + string"
  tf_read_text :: "path \<Rightarrow> 'w \<Rightarrow> string + string"
  tf_exists :: "path \<Rightarrow> 'w \<Rightarrow> bool"
  tf_create_dir :: "path \<Rightarrow> 'w \<Rightarrow> (string + unit) \<times> 'w"
  tf_create_new :: "path \<Rightarrow> 'w \<Rightarrow> (open_error + unit) \<times> 'w"
  tf_fill :: "path \<Rightarrow> string \<Rightarrow> 'w \<Rightarrow> (string + unit) \<times> 'w"
  tf_write :: "path \<Rightarrow> string \<Rightarrow> 'w \<Rightarrow> (string + unit) \<times> 'w"

section \<open>View\<close>

record view_args =
  va_path :: string
  va_max_bytes :: "u64 option"
  va_offset :: "usize option"

definition view_schema :: json where
  "view_schema = JObj
     [(''type'', JStr ''object''), (''required'', JArr [JStr ''path'']), (''additionalProperties'', JBool False),
      (''properties'', JObj
        [(''path'', JObj [(''type'', JStr ''string''), (''maxLength'', JInt 4096)]),
         (''max_bytes'', JObj [(''type'', JStr ''integer'')]), (''offset'', JObj [(''type'', JStr ''integer'')])])]"

definition view_read_cap :: "u64 option \<Rightarrow> usize" where
  "view_read_cap m = min (case m of Some n \<Rightarrow> n | None \<Rightarrow> VIEW_CAP) VIEW_CAP"

text \<open>The whole lines that fit; \<open>some\<close> says whether a line was taken already.\<close>

fun page_lines :: "nat \<Rightarrow> bool \<Rightarrow> nat \<Rightarrow> nat \<Rightarrow> string list \<Rightarrow> string list" where
  "page_lines cap some bytes chars [] = []"
| "page_lines cap some bytes chars (l # ls) =
     (let sep = (if some then 1 else 0)
      in if cap < bytes + length l + sep \<or> OUT_CAP < chars + char_count l + sep then []
         else l # page_lines cap True (bytes + (length l + sep)) (chars + (char_count l + sep)) ls)"

definition cut_line_note :: "nat \<Rightarrow> nat \<Rightarrow> string" where
  "cut_line_note start n_lines = newline @ ''[Line '' @ dec (start + 1) @ '' of '' @ dec n_lines @
     '' exceeds the read cap and was truncated. Use offset='' @ dec (start + 2) @ '' to continue.]''"

definition more_lines_note :: "nat \<Rightarrow> nat \<Rightarrow> nat \<Rightarrow> string" where
  "more_lines_note start n n_lines = newline @ ''[Showing lines '' @ dec (start + 1) @ ''-'' @ dec (start + n) @
     '' of '' @ dec n_lines @ ''. Use offset='' @ dec (start + n + 1) @ '' to continue.]''"

definition view_page :: "string list \<Rightarrow> usize \<Rightarrow> usize \<Rightarrow> tool_error + (string \<times> bool)" where
  "view_page all offset cap =
     (let start = max offset 1 - 1;
          n_lines = length all
      in if n_lines \<le> start
         then Inl (FailedError (''offset '' @ dec offset @ '' beyond end of file ('' @ dec n_lines @ '' lines total)''))
         else
           let shown = page_lines cap False 0 0 (drop start all)
           in if shown = []
              then Inr (fst (cap_chars (all ! start) (min cap OUT_CAP)) @ cut_line_note start n_lines, True)
              else if start + length shown < n_lines
              then Inr (join newline shown @ more_lines_note start (length shown) n_lines, True)
              else Inr (join newline shown, False))"

definition view_tool :: tool where
  "view_tool = \<lparr>tool_def = \<lparr>td_name = ''view'',
     td_description = ''read a file under the tool root, byte-capped; optional 1-indexed offset pages by line'',
     td_schema = view_schema\<rparr>, tool_prepare = dispatch_call\<rparr>"

definition too_big :: "nat \<Rightarrow> string" where
  "too_big n = ''file is '' @ dec (n div (1024 * 1024)) @ '' MB, over the '' @
     dec (READ_FILE_CAP div (1024 * 1024)) @ ''MB read cap; trim or split the file first''"

definition failed :: "string + 'a \<Rightarrow> tool_error + 'a" where
  "failed r = map_sum FailedError id r"

definition resolved :: "('w, 'm) fs_scheme \<Rightarrow> policy \<Rightarrow> string \<Rightarrow> bool \<Rightarrow> 'w \<Rightarrow> tool_error + path" where
  "resolved f p arg wr w = map_sum path_err id (resolve_under f (po_root p) arg wr (po_denied_globs p) w)"

definition execute_view :: "('w, 'm) tool_fs_scheme \<Rightarrow> policy \<Rightarrow> (json \<Rightarrow> string + view_args) \<Rightarrow> invocation \<Rightarrow> 'w \<Rightarrow>
    tool_error + tool_outcome" where
  "execute_view f p parse iv w =
     try_then (parse_args parse (inv_args iv)) (\<lambda>args.
     try_then (resolved f p (va_path args) False w) (\<lambda>q.
     try_then (failed (tf_size f q w)) (\<lambda>n_bytes.
       if READ_FILE_CAP < n_bytes then Inl (FailedError (too_big n_bytes))
       else try_then (failed (tf_read f q w)) (\<lambda>data.
         let cap = view_read_cap (va_max_bytes args) in
         (case va_offset args of
            None \<Rightarrow>
              (let n = min (length data) cap in
               case cap_chars (utf8_lossy (take n data)) OUT_CAP of
                 (body, was_cut) \<Rightarrow>
                   Inr \<lparr>oc_content = body, truncated = was_cut \<or> n < length data, success = True\<rparr>)
          | Some offset \<Rightarrow>
              try_then (view_page (str_lines (utf8_lossy data)) offset cap) (\<lambda>(body, was_cut).
                Inr \<lparr>oc_content = body, truncated = was_cut, success = True\<rparr>))))))"

section \<open>Search\<close>

record search_args =
  sa_pattern :: string
  sa_path :: "string option"
  sa_max_results :: "u64 option"

definition search_schema :: json where
  "search_schema = JObj
     [(''type'', JStr ''object''), (''required'', JArr [JStr ''pattern'']), (''additionalProperties'', JBool False),
      (''properties'', JObj
        [(''pattern'', JObj [(''type'', JStr ''string''), (''maxLength'', JInt 4096)]),
         (''path'', JObj [(''type'', JStr ''string''), (''maxLength'', JInt 4096)]),
         (''max_results'', JObj [(''type'', JStr ''integer'')])])]"

text \<open>A file with its size and what a read answers; a directory, unless it cannot be listed; anything else.\<close>

datatype node = FileNode "nat option" "string option" | DirNode "(string \<times> node) list option" | OtherNode

record search_state =
  se_hits :: "string list"
  se_skipped :: nat

text \<open>The files in the order the recursive descent visits them, links and \<open>.git\<close> left out.\<close>

primrec visit :: "node \<Rightarrow> path \<Rightarrow> (path \<times> nat option \<times> string option) list" where
  "visit (FileNode n_bytes data) p = [(p, n_bytes, data)]"
| "visit (DirNode entries) p =
     (case map_option (map (map_prod id visit)) entries of
        None \<Rightarrow> []
      | Some es \<Rightarrow>
          concat (map (\<lambda>(n, f). if n = ''.git'' then [] else f (p @ [Normal n])) (sort_key fst es)))"
| "visit OtherNode p = []"

definition relative_name :: "path \<Rightarrow> path \<Rightarrow> string" where
  "relative_name r p = (if prefix r p then path_text (drop (length r) p) else path_text p)"

definition hit_line :: "string \<Rightarrow> nat \<Rightarrow> string \<Rightarrow> string" where
  "hit_line rel i l = rel @ '':'' @ dec (i + 1) @ '': '' @ l"

fun push_hits :: "string \<Rightarrow> string \<Rightarrow> nat \<Rightarrow> nat \<Rightarrow> string list \<Rightarrow> string list \<Rightarrow> string list" where
  "push_hits rel pat limit i [] hits = hits"
| "push_hits rel pat limit i (l # ls) hits =
     (if str_contains l pat
      then let hits' = hits @ [hit_line rel i l]
           in if limit \<le> length hits' then hits' else push_hits rel pat limit (i + 1) ls hits'
      else push_hits rel pat limit (i + 1) ls hits)"

definition search_file :: "path \<Rightarrow> string \<Rightarrow> nat \<Rightarrow> path \<times> nat option \<times> string option \<Rightarrow> search_state \<Rightarrow> search_state" where
  "search_file r pat limit file st =
     (case file of
        (p, None, _) \<Rightarrow> st
      | (p, Some n_bytes, data) \<Rightarrow>
          if READ_FILE_CAP < n_bytes then st\<lparr>se_skipped := se_skipped st + 1\<rparr>
          else (case data of
                  None \<Rightarrow> st
                | Some d \<Rightarrow>
                    st\<lparr>se_hits := push_hits (relative_name r p) pat limit 0 (str_lines (utf8_lossy d)) (se_hits st)\<rparr>))"

definition search_files :: "path \<Rightarrow> string \<Rightarrow> nat \<Rightarrow> (path \<times> nat option \<times> string option) list \<Rightarrow> search_state" where
  "search_files r pat limit files =
     foldl (\<lambda>st file. if limit \<le> length (se_hits st) then st else search_file r pat limit file st)
       \<lparr>se_hits = [], se_skipped = 0\<rparr> files"

definition search_tool :: tool where
  "search_tool = \<lparr>tool_def = \<lparr>td_name = ''search'', td_description = ''literal substring search over files under the tool root'',
     td_schema = search_schema\<rparr>, tool_prepare = dispatch_call\<rparr>"

definition execute_search :: "('w, 'm) fs_scheme \<Rightarrow> (path \<Rightarrow> 'w \<Rightarrow> node) \<Rightarrow> policy \<Rightarrow> (json \<Rightarrow> string + search_args) \<Rightarrow>
    invocation \<Rightarrow> 'w \<Rightarrow> tool_error + tool_outcome" where
  "execute_search f tree p parse iv w =
     try_then (parse_args parse (inv_args iv)) (\<lambda>args.
     try_then (resolved f p (case sa_path args of Some q \<Rightarrow> q | None \<Rightarrow> ''.'') False w) (\<lambda>base.
       let limit = min (max (case sa_max_results args of Some n \<Rightarrow> n | None \<Rightarrow> 50) 1) 200;
           st = search_files (po_root p) (sa_pattern args) limit (visit (tree base w) base);
           hits = se_hits st @ (if 0 < se_skipped st
             then [''['' @ dec (se_skipped st) @ '' file(s) over 64MB skipped]''] else [])
       in case cap_chars (join newline hits) OUT_CAP of
            (body, was_cut) \<Rightarrow> Inr \<lparr>oc_content = body, truncated = was_cut, success = True\<rparr>))"


section \<open>The syntax gate\<close>

record 'w stage_fs =
  sf_temp_dir :: "'w \<Rightarrow> path"
  sf_pid :: nat
  sf_next :: "'w \<Rightarrow> nat \<times> 'w"
  sf_mkdir :: "path \<Rightarrow> 'w \<Rightarrow> (open_error + unit) \<times> 'w"
  sf_lock :: "path \<Rightarrow> 'w \<Rightarrow> (string + unit) \<times> 'w"
  sf_create :: "path \<Rightarrow> 'w \<Rightarrow> (string + unit) \<times> 'w"
  sf_put :: "path \<Rightarrow> string \<Rightarrow> 'w \<Rightarrow> (string + unit) \<times> 'w"
  sf_remove :: "path \<Rightarrow> 'w \<Rightarrow> 'w"

definition lock_error :: "path \<Rightarrow> string \<Rightarrow> tool_error" where
  "lock_error q e = FailedError (''cannot lock down '' @ debug_str (path_text q) @ '': '' @ e)"

definition stage_error :: "string \<Rightarrow> tool_error" where
  "stage_error e = FailedError (''cannot stage syntax candidate: '' @ e)"

definition fill_stage :: "'w stage_fs \<Rightarrow> path \<Rightarrow> string \<Rightarrow> 'w \<Rightarrow> (tool_error + (path \<times> path)) \<times> 'w" where
  "fill_stage sf dir candidate w =
     (let file = dir @ [Normal ''candidate''] in
      case sf_lock sf dir w of
        (Inl e, w1) \<Rightarrow> (Inl (lock_error dir e), sf_remove sf dir w1)
      | (Inr _, w1) \<Rightarrow>
          (case sf_create sf file w1 of
             (Inl e, w2) \<Rightarrow> (Inl (stage_error e), sf_remove sf dir w2)
           | (Inr _, w2) \<Rightarrow>
               (case sf_put sf file candidate w2 of
                  (Inl e, w3) \<Rightarrow> (Inl (stage_error e), sf_remove sf dir w3)
                | (Inr _, w3) \<Rightarrow>
                    (case sf_lock sf file w3 of
                       (Inl e, w4) \<Rightarrow> (Inl (lock_error file e), sf_remove sf dir w4)
                     | (Inr _, w4) \<Rightarrow> (Inr (dir, file), w4)))))"

text \<open>The number of tries is the loop's range, 8.\<close>

primrec stage_candidate :: "nat \<Rightarrow> 'w stage_fs \<Rightarrow> path \<Rightarrow> string \<Rightarrow> 'w \<Rightarrow> (tool_error + (path \<times> path)) \<times> 'w" where
  "stage_candidate 0 sf par candidate w = (Inl (FailedError ''could not claim a syntax staging dir''), w)"
| "stage_candidate (Suc n) sf par candidate w =
     (case sf_next sf w of
        (k, w1) \<Rightarrow>
          (let dir = par @ [Normal (''tools-std-syntax-'' @ dec (sf_pid sf) @ ''-'' @ dec k)] in
           case sf_mkdir sf dir w1 of
             (Inl AlreadyExists, w2) \<Rightarrow> stage_candidate n sf par candidate w2
           | (Inl (OpenError e), w2) \<Rightarrow> (Inl (FailedError (''cannot create syntax staging dir: '' @ e)), w2)
           | (Inr _, w2) \<Rightarrow> fill_stage sf dir candidate w2))"

definition stage_and_check :: "'w proc_env \<Rightarrow> 'w stage_fs \<Rightarrow> policy \<Rightarrow> string list \<Rightarrow> string \<Rightarrow> path \<Rightarrow> 'w \<Rightarrow>
    (tool_error + unit) \<times> 'w" where
  "stage_and_check pe sf p argv candidate par w =
     (case stage_candidate 8 sf par candidate w of
        (Inl e, w1) \<Rightarrow> (Inl e, w1)
      | (Inr (dir, file), w1) \<Rightarrow>
          (case run_allowed_argv pe p (argv @ [path_text file]) EXEC_TIMEOUT w1 of
             (Inl e, w2) \<Rightarrow> (Inl e, sf_remove sf dir w2)
           | (Inr (ok, out, _), w2) \<Rightarrow>
               (if ok then Inr () else Inl (FailedError (''syntax check failed: '' @ out)), sf_remove sf dir w2)))"

definition check_syntax :: "'w proc_env \<Rightarrow> 'w stage_fs \<Rightarrow> policy \<Rightarrow> string \<Rightarrow> 'w \<Rightarrow> (tool_error + unit) \<times> 'w" where
  "check_syntax pe sf p candidate w =
     (let argv = (case po_syntax_cmd p of Some a \<Rightarrow> a | None \<Rightarrow> [])
      in if argv = [] then (Inr (), w) else stage_and_check pe sf p argv candidate (sf_temp_dir sf w) w)"

section \<open>Edit\<close>

record edit_args =
  ea_path :: string
  ea_search :: string
  ea_replace :: string

definition edit_schema :: json where
  "edit_schema = JObj
     [(''type'', JStr ''object''), (''required'', JArr [JStr ''path'', JStr ''search'', JStr ''replace'']),
      (''additionalProperties'', JBool False),
      (''properties'', JObj
        [(''path'', JObj [(''type'', JStr ''string''), (''maxLength'', JInt 4096)]),
         (''search'', JObj [(''type'', JStr ''string''), (''maxLength'', JInt 65536)]),
         (''replace'', JObj [(''type'', JStr ''string''), (''maxLength'', JInt 262144)])])]"

definition edit_tool :: tool where
  "edit_tool = \<lparr>tool_def = \<lparr>td_name = TOOL_EDIT, td_description = ''replace one hunk in a file; match must be unique'',
     td_schema = edit_schema\<rparr>, tool_prepare = dispatch_call\<rparr>"

text \<open>Everything before the syntax check: the file to write and its new text.\<close>

definition planned_edit :: "('w, 'm) tool_fs_scheme \<Rightarrow> policy \<Rightarrow> edit_args \<Rightarrow> 'w \<Rightarrow> tool_error + (path \<times> string)" where
  "planned_edit f p args w =
     (if EDIT_REPLACE_CAP < length (ea_replace args) then Inl (FailedError ''replace over 256KB cap'')
      else try_then (resolved f p (ea_path args) True w) (\<lambda>q.
        if tf_is_dir f q w then Inl (FailedError ''refusing to patch a directory'')
        else try_then (failed (tf_size f q w)) (\<lambda>n_bytes.
          if EDIT_FILE_CAP < n_bytes then Inl (FailedError ''file over 512KB cap'')
          else try_then (failed (tf_read_text f q w)) (\<lambda>original.
               try_then (failed (apply_hunk original (ea_search args) (ea_replace args))) (\<lambda>updated.
                 Inr (q, updated))))))"

definition execute_edit :: "'w proc_env \<Rightarrow> 'w stage_fs \<Rightarrow> ('w, 'm) tool_fs_scheme \<Rightarrow> policy \<Rightarrow>
    (json \<Rightarrow> string + edit_args) \<Rightarrow> invocation \<Rightarrow> 'w \<Rightarrow> (tool_error + tool_outcome) \<times> 'w" where
  "execute_edit pe sf f p parse iv w =
     (case try_then (parse_args parse (inv_args iv)) (\<lambda>args.
             try_then (planned_edit f p args w) (\<lambda>plan. Inr (args, plan))) of
        Inl e \<Rightarrow> (Inl e, w)
      | Inr (args, q, updated) \<Rightarrow>
          (case check_syntax pe sf p updated w of
             (Inl e, w1) \<Rightarrow> (Inl e, w1)
           | (Inr _, w1) \<Rightarrow>
               (case tf_write f q updated w1 of
                  (Inl e, w2) \<Rightarrow> (Inl (FailedError e), w2)
                | (Inr _, w2) \<Rightarrow>
                    (Inr \<lparr>oc_content = ''patched '' @ ea_path args, truncated = False, success = True\<rparr>, w2))))"

section \<open>Write\<close>

record write_args =
  wa_path :: string
  wa_content :: string

definition write_schema :: json where
  "write_schema = JObj
     [(''type'', JStr ''object''), (''required'', JArr [JStr ''path'', JStr ''content'']),
      (''additionalProperties'', JBool False),
      (''properties'', JObj
        [(''path'', JObj [(''type'', JStr ''string''), (''maxLength'', JInt 4096)]),
         (''content'', JObj [(''type'', JStr ''string''), (''maxLength'', JInt 262144)])])]"

definition write_tool :: tool where
  "write_tool = \<lparr>tool_def = \<lparr>td_name = TOOL_WRITE, td_description = ''create or overwrite a whole file'',
     td_schema = write_schema\<rparr>, tool_prepare = dispatch_call\<rparr>"

text \<open>The loop over the components of the parent, \<open>cur\<close> being the path pushed so far.\<close>

fun create_dirs :: "('w, 'm) tool_fs_scheme \<Rightarrow> path \<Rightarrow> path \<Rightarrow> component list \<Rightarrow> 'w \<Rightarrow> (tool_error + unit) \<times> 'w" where
  "create_dirs f r cur [] w = (Inr (), w)"
| "create_dirs f r cur (c # cs) w =
     (let cur' = join_path cur [c];
          (made, w1) = (if tf_exists f cur' w then (Inr (), w) else tf_create_dir f cur' w)
      in case made of
           Inl e \<Rightarrow> (Inl (FailedError (''cannot create '' @ path_text cur' @ '': '' @ e)), w1)
         | Inr _ \<Rightarrow>
             (case symlink_safe f r cur' True w1 of
                Inl e \<Rightarrow> (Inl (path_err e), w1)
              | Inr _ \<Rightarrow> create_dirs f r cur' cs w1))"

definition create_parent_dirs :: "('w, 'm) tool_fs_scheme \<Rightarrow> path \<Rightarrow> string \<Rightarrow> 'w \<Rightarrow> (tool_error + unit) \<times> 'w" where
  "create_parent_dirs f r arg w =
     create_dirs f r r (case parent (components arg) of Some q \<Rightarrow> q | None \<Rightarrow> []) w"

definition resolve_for_write :: "('w, 'm) tool_fs_scheme \<Rightarrow> policy \<Rightarrow> string \<Rightarrow> 'w \<Rightarrow> (tool_error + path) \<times> 'w" where
  "resolve_for_write f p arg w =
     (case resolve_under f (po_root p) arg True (po_denied_globs p) w of
        Inl (MissingParent _) \<Rightarrow>
          (case create_parent_dirs f (po_root p) arg w of
             (Inl e, w1) \<Rightarrow> (Inl e, w1)
           | (Inr _, w1) \<Rightarrow> (resolved f p arg True w1, w1))
      | Inl e \<Rightarrow> (Inl (path_err e), w)
      | Inr q \<Rightarrow> (Inr q, w))"

definition put_file :: "('w, 'm) tool_fs_scheme \<Rightarrow> path \<Rightarrow> string \<Rightarrow> 'w \<Rightarrow> (tool_error + unit) \<times> 'w" where
  "put_file f q body w =
     (case tf_create_new f q w of
        (Inr _, w1) \<Rightarrow> map_prod failed id (tf_fill f q body w1)
      | (Inl AlreadyExists, w1) \<Rightarrow> map_prod failed id (tf_write f q body w1)
      | (Inl (OpenError e), w1) \<Rightarrow> (Inl (FailedError e), w1))"

definition execute_write :: "'w proc_env \<Rightarrow> 'w stage_fs \<Rightarrow> ('w, 'm) tool_fs_scheme \<Rightarrow> policy \<Rightarrow>
    (json \<Rightarrow> string + write_args) \<Rightarrow> invocation \<Rightarrow> 'w \<Rightarrow> (tool_error + tool_outcome) \<times> 'w" where
  "execute_write pe sf f p parse iv w =
     (case parse_args parse (inv_args iv) of
        Inl e \<Rightarrow> (Inl e, w)
      | Inr args \<Rightarrow>
          if EDIT_REPLACE_CAP < length (wa_content args) then (Inl (FailedError ''content over 256KB cap''), w)
          else (case resolve_for_write f p (wa_path args) w of
             (Inl e, w1) \<Rightarrow> (Inl e, w1)
           | (Inr q, w1) \<Rightarrow>
               if tf_is_dir f q w1 then (Inl (FailedError ''refusing to write a directory''), w1)
               else if (case tf_size f q w1 of Inr n \<Rightarrow> EDIT_FILE_CAP < n | Inl _ \<Rightarrow> False)
               then (Inl (FailedError ''file over 512KB cap''), w1)
               else (case check_syntax pe sf p (wa_content args) w1 of
                  (Inl e, w2) \<Rightarrow> (Inl e, w2)
                | (Inr _, w2) \<Rightarrow>
                    (case put_file f q (wa_content args) w2 of
                       (Inl e, w3) \<Rightarrow> (Inl e, w3)
                     | (Inr _, w3) \<Rightarrow>
                         (Inr \<lparr>oc_content = ''wrote '' @ wa_path args, truncated = False, success = True\<rparr>, w3)))))"


section \<open>A page fits and is as long as it can be\<close>

definition separators :: "bool \<Rightarrow> string list \<Rightarrow> nat" where
  "separators some ls = length ls - (if some then 0 else 1)"

definition line_chars :: "string list \<Rightarrow> nat" where
  "line_chars ls = sum_list (map char_count ls) + separators False ls"

lemma page_lines_spec:
  "page_lines cap some b c ls = take (length (page_lines cap some b c ls)) ls \<and>
   (page_lines cap some b c ls \<noteq> [] \<longrightarrow>
     b + sum_list (map length (page_lines cap some b c ls)) + separators some (page_lines cap some b c ls) \<le> cap \<and>
     c + sum_list (map char_count (page_lines cap some b c ls)) + separators some (page_lines cap some b c ls) \<le> OUT_CAP) \<and>
   (length (page_lines cap some b c ls) < length ls \<longrightarrow>
     (let nxt = take (length (page_lines cap some b c ls) + 1) ls in
      cap < b + sum_list (map length nxt) + separators some nxt \<or>
      OUT_CAP < c + sum_list (map char_count nxt) + separators some nxt))"
proof (induction cap some b c ls rule: page_lines.induct)
  case (2 cap some b c l ls)
  define sep :: nat where "sep = (if some then 1 else 0)"
  show ?case
  proof (cases "cap < b + length l + sep \<or> OUT_CAP < c + char_count l + sep")
    case True
    then have "page_lines cap some b c (l # ls) = []" by (simp add: sep_def)
    then show ?thesis using True by (auto simp: separators_def sep_def Let_def)
  next
    case False
    let ?r = "page_lines cap True (b + (length l + sep)) (c + (char_count l + sep)) ls"
    have r: "page_lines cap some b c (l # ls) = l # ?r" using False by (auto simp: sep_def)
    have IH: "?r = take (length ?r) ls"
      "?r \<noteq> [] \<longrightarrow> b + (length l + sep) + sum_list (map length ?r) + separators True ?r \<le> cap \<and>
        c + (char_count l + sep) + sum_list (map char_count ?r) + separators True ?r \<le> OUT_CAP"
      "length ?r < length ls \<longrightarrow> (let nxt = take (length ?r + 1) ls in
        cap < b + (length l + sep) + sum_list (map length nxt) + separators True nxt \<or>
        OUT_CAP < c + (char_count l + sep) + sum_list (map char_count nxt) + separators True nxt)"
      using 2[OF sep_def False] by blast+
    have seps: "separators some (l # xs) = sep + separators True xs" for xs
      by (cases xs) (auto simp: separators_def sep_def)
    show ?thesis
    proof (intro conjI impI)
      show "page_lines cap some b c (l # ls) = take (length (page_lines cap some b c (l # ls))) (l # ls)"
        unfolding r using IH(1) by simp
    next
      assume "length (page_lines cap some b c (l # ls)) < length (l # ls)"
      then show "let nxt = take (length (page_lines cap some b c (l # ls)) + 1) (l # ls) in
          cap < b + sum_list (map length nxt) + separators some nxt \<or>
          OUT_CAP < c + sum_list (map char_count nxt) + separators some nxt"
        using IH(3) unfolding r by (simp add: Let_def seps add.assoc add.left_commute)
    next
      show "b + sum_list (map length (page_lines cap some b c (l # ls))) +
          separators some (page_lines cap some b c (l # ls)) \<le> cap"
        using IH(2) False unfolding r seps by (cases "?r = []") (simp_all add: separators_def)
    next
      show "c + sum_list (map char_count (page_lines cap some b c (l # ls))) +
          separators some (page_lines cap some b c (l # ls)) \<le> OUT_CAP"
        using IH(2) False unfolding r seps by (cases "?r = []") (simp_all add: separators_def)
    qed
  qed
qed simp

lemma length_join_newline: "length (join newline ls) = sum_list (map length ls) + separators False ls"
  by (induction newline ls rule: join.induct) (auto simp: separators_def newline_def)

lemma char_count_join_newline: "char_count (join newline ls) \<le> line_chars ls"
proof (induction newline ls rule: join.induct)
  case (3 x y ys)
  have "char_count newline = 1" by (simp add: char_count_def newline_def)
  then have "char_count (x @ newline @ join newline (y # ys)) \<le> char_count x + (1 + char_count (join newline (y # ys)))"
    using char_count_append_le[of x "newline @ join newline (y # ys)"] char_count_append_le[of newline "join newline (y # ys)"]
    by linarith
  then show ?case using 3 by (simp add: line_chars_def separators_def)
qed (simp_all add: line_chars_def separators_def)

text \<open>
  a page is the longest run of whole lines from the offset whose text stays within the
  read cap in bytes and the output cap in characters; it is marked cut exactly when lines are left, and then
  names the next offset. Only a first line that alone is too long is shown in part.\<close>

theorem view_page_fits:
  assumes "view_page all offset cap = Inr (body, was_cut)"
  shows "let start = max offset 1 - 1; ls = drop start all in start < length all \<and> (\<exists>n\<le>length ls.
    if n = 0
    then was_cut \<and> body = fst (cap_chars (all ! start) (min cap OUT_CAP)) @ cut_line_note start (length all) \<and>
      (cap < length (all ! start) \<or> OUT_CAP < char_count (all ! start))
    else length (join newline (take n ls)) \<le> cap \<and> char_count (join newline (take n ls)) \<le> OUT_CAP \<and>
      (was_cut \<longleftrightarrow> n < length ls) \<and>
      body = join newline (take n ls) @ (if was_cut then more_lines_note start n (length all) else []) \<and>
      (was_cut \<longrightarrow> cap < length (join newline (take (n + 1) ls)) \<or> OUT_CAP < line_chars (take (n + 1) ls)))"
proof -
  define start where "start = max offset 1 - 1"
  define ls where "ls = drop start all"
  define shown where "shown = page_lines cap False 0 0 ls"
  define n where "n = length shown"
  have start: "start < length all"
    using assms by (auto simp: view_page_def Let_def start_def split: if_splits)
  then obtain l rest where ls': "ls = l # rest" "all ! start = l"
    unfolding ls_def by (metis Cons_nth_drop_Suc)
  note spec = page_lines_spec[of cap False 0 0 ls, folded shown_def, folded n_def]
  have shown: "shown = take n ls" and nle: "n \<le> length ls" using spec by (auto simp: n_def) (metis length_take min.bounded_iff nle_le)
  have fits: "shown \<noteq> [] \<longrightarrow> length (join newline shown) \<le> cap \<and> line_chars shown \<le> OUT_CAP"
    using conjunct1[OF conjunct2[OF spec]] by (simp add: length_join_newline line_chars_def)
  have longest: "n < length ls \<longrightarrow> cap < length (join newline (take (n + 1) ls)) \<or> OUT_CAP < line_chars (take (n + 1) ls)"
    using conjunct2[OF conjunct2[OF spec]] by (simp add: length_join_newline line_chars_def Let_def)
  have val: "(if shown = []
      then Inr (fst (cap_chars (all ! start) (min cap OUT_CAP)) @ cut_line_note start (length all), True)
      else if start + n < length all
      then Inr (join newline shown @ more_lines_note start n (length all), True)
      else Inr (join newline shown, False)) = (Inr (body, was_cut) :: tool_error + (string \<times> bool))"
  proof -
    have "view_page all offset cap = (if length all \<le> start
        then Inl (FailedError (''offset '' @ dec offset @ '' beyond end of file ('' @ dec (length all) @ '' lines total)''))
        else if shown = []
        then Inr (fst (cap_chars (all ! start) (min cap OUT_CAP)) @ cut_line_note start (length all), True)
        else if start + n < length all
        then Inr (join newline shown @ more_lines_note start n (length all), True)
        else Inr (join newline shown, False))"
      unfolding view_page_def Let_def start_def ls_def shown_def n_def by (rule refl)
    then show ?thesis using assms start by simp
  qed
  have left: "start + n < length all \<longleftrightarrow> n < length ls" unfolding ls_def using start by auto
  have "if n = 0 then was_cut \<and> body = fst (cap_chars (all ! start) (min cap OUT_CAP)) @ cut_line_note start (length all) \<and>
      (cap < length (all ! start) \<or> OUT_CAP < char_count (all ! start))
    else length (join newline (take n ls)) \<le> cap \<and> char_count (join newline (take n ls)) \<le> OUT_CAP \<and>
      (was_cut \<longleftrightarrow> n < length ls) \<and>
      body = join newline (take n ls) @ (if was_cut then more_lines_note start n (length all) else []) \<and>
      (was_cut \<longrightarrow> cap < length (join newline (take (n + 1) ls)) \<or> OUT_CAP < line_chars (take (n + 1) ls))"
  proof (cases "n = 0")
    case True
    then have "shown = []" by (simp add: n_def)
    then show ?thesis using val True longest ls' by (auto simp: line_chars_def separators_def)
  next
    case False
    then have "shown \<noteq> []" by (auto simp: n_def)
    then show ?thesis using val False fits longest left char_count_join_newline[of shown]
      unfolding shown[symmetric] by (auto split: if_splits)
  qed
  then show ?thesis using start nle unfolding start_def[symmetric] ls_def[symmetric] Let_def by blast
qed


definition three_lines :: "string list" where "three_lines = [''ab'', ''cd'', ''ef'']"

theorem view_page_fits_witness:
  "let start = max 1 1 - 1; ls = drop start three_lines in start < length three_lines \<and> (\<exists>n\<le>length ls.
    if n = 0
    then True \<and> ''ab'' @ newline @ ''cd'' @ more_lines_note 0 2 3 =
        fst (cap_chars (three_lines ! start) (min 5 OUT_CAP)) @ cut_line_note start (length three_lines) \<and>
      (5 < length (three_lines ! start) \<or> OUT_CAP < char_count (three_lines ! start))
    else length (join newline (take n ls)) \<le> 5 \<and> char_count (join newline (take n ls)) \<le> OUT_CAP \<and>
      (True \<longleftrightarrow> n < length ls) \<and>
      ''ab'' @ newline @ ''cd'' @ more_lines_note 0 2 3 =
        join newline (take n ls) @ (if True then more_lines_note start n (length three_lines) else []) \<and>
      (True \<longrightarrow> 5 < length (join newline (take (n + 1) ls)) \<or> OUT_CAP < line_chars (take (n + 1) ls)))"
proof (rule view_page_fits)
  show "view_page three_lines 1 5 = Inr (''ab'' @ newline @ ''cd'' @ more_lines_note 0 2 3, True)"
    by (simp add: three_lines_def view_page_def char_count_def is_cont_def byte_def OUT_CAP_def eval_nat_numeral)
qed

section \<open>What an edit writes\<close>

text \<open>An observation of the world that neither the syntax gate nor the child processes change.\<close>

definition gate_keeps :: "'w proc_env \<Rightarrow> 'w stage_fs \<Rightarrow> ('w \<Rightarrow> 'o) \<Rightarrow> bool" where
  "gate_keeps pe sf m \<longleftrightarrow>
     (\<forall>full cwd e w. m (snd (pe_spawn pe full cwd e w)) = m w) \<and> (\<forall>t w. m (snd (pe_wait pe t w)) = m w) \<and>
     (\<forall>w. m (pe_kill pe w) = m w) \<and> (\<forall>w. m (snd (sf_next sf w)) = m w) \<and>
     (\<forall>q w. m (snd (sf_mkdir sf q w)) = m w) \<and> (\<forall>q w. m (snd (sf_lock sf q w)) = m w) \<and>
     (\<forall>q w. m (snd (sf_create sf q w)) = m w) \<and> (\<forall>q s w. m (snd (sf_put sf q s w)) = m w) \<and>
     (\<forall>q w. m (sf_remove sf q w) = m w)"

lemma gate_keepsD:
  assumes "gate_keeps pe sf m"
  shows "pe_spawn pe full cwd e w = (x, w') \<Longrightarrow> m w' = m w" "pe_wait pe t w = (ce, w') \<Longrightarrow> m w' = m w"
    "m (pe_kill pe w) = m w" "sf_next sf w = (n, w') \<Longrightarrow> m w' = m w" "sf_mkdir sf q w = (oe, w') \<Longrightarrow> m w' = m w"
    "sf_lock sf q w = (y, w') \<Longrightarrow> m w' = m w" "sf_create sf q w = (y, w') \<Longrightarrow> m w' = m w"
    "sf_put sf q s w = (y, w') \<Longrightarrow> m w' = m w" "m (sf_remove sf q w) = m w"
  using assms unfolding gate_keeps_def by (metis snd_conv)+

lemma map_sum_Inr: "map_sum f id x = Inr y \<longleftrightarrow> x = Inr y"
  by (cases x) auto

lemma run_keeps:
  assumes k: "gate_keeps pe sf m" and r: "run_allowed_argv pe p argv t w = (x, w')"
  shows "m w' = m w"
proof -
  note D = gate_keepsD[OF k]
  have sp: "m w1 = m w" if "spawn_allowed pe p argv w = (y, w1)" for y w1
    using that D(1) by (auto simp: spawn_allowed_def Let_def split: if_splits prod.splits sum.splits)
  have sw: "m w2 = m w" if "spawn_allowed pe p argv w = (y, w1)" "pe_wait pe t w1 = (ce, w2)" for y w1 ce w2
    using sp[OF that(1)] D(2)[OF that(2)] by simp
  show ?thesis using r
    by (auto simp: run_allowed_argv_def D(3) dest: sp sw
        split: option.splits if_splits prod.splits sum.splits child_end.splits)
qed

lemma fill_keeps:
  assumes "gate_keeps pe sf m" and "fill_stage sf dir candidate w = (x, w')"
  shows "m w' = m w"
proof -
  note D = gate_keepsD[OF assms(1)]
  let ?fl = "dir @ [Normal ''candidate'']"
  have c1: "m w2 = m w" if "sf_lock sf dir w = (y1, w1)" "sf_create sf ?fl w1 = (y2, w2)" for y1 w1 y2 w2
    using D(6)[OF that(1)] D(7)[OF that(2)] by simp
  have c2: "m w3 = m w" if "sf_lock sf dir w = (y1, w1)" "sf_create sf ?fl w1 = (y2, w2)"
    "sf_put sf ?fl candidate w2 = (y3, w3)" for y1 w1 y2 w2 y3 w3
    using c1[OF that(1,2)] D(8)[OF that(3)] by simp
  have c3: "m w4 = m w" if "sf_lock sf dir w = (y1, w1)" "sf_create sf ?fl w1 = (y2, w2)"
    "sf_put sf ?fl candidate w2 = (y3, w3)" "sf_lock sf ?fl w3 = (y4, w4)" for y1 w1 y2 w2 y3 w3 y4 w4
    using c2[OF that(1,2,3)] D(6)[OF that(4)] by simp
  show ?thesis using assms(2)
    by (auto simp: fill_stage_def Let_def D(9) dest: D(6) c1 c2 c3 split: prod.splits sum.splits)
qed

lemma stage_keeps:
  assumes "gate_keeps pe sf m"
  shows "stage_candidate n sf par candidate w = (x, w') \<Longrightarrow> m w' = m w"
proof (induction n arbitrary: w)
  case (Suc n)
  note D = gate_keepsD[OF assms]
  obtain k w1 where k: "sf_next sf w = (k, w1)" by fastforce
  let ?dir = "par @ [Normal (''tools-std-syntax-'' @ dec (sf_pid sf) @ ''-'' @ dec k)]"
  obtain r w2 where r: "sf_mkdir sf ?dir w1 = (r, w2)" by fastforce
  have "m w2 = m w" using D(4)[OF k] D(5)[OF r] by simp
  then show ?case using k r Suc fill_keeps[OF assms]
    by (auto simp: Let_def split: sum.splits open_error.splits)
qed simp

lemma check_keeps:
  assumes k: "gate_keeps pe sf m" and c: "check_syntax pe sf p candidate w = (x, w')"
  shows "m w' = m w"
proof -
  let ?argv = "case po_syntax_cmd p of Some a \<Rightarrow> a | None \<Rightarrow> []"
  obtain r w1 where st: "stage_candidate 8 sf (sf_temp_dir sf w) candidate w = (r, w1)" by fastforce
  have w1: "m w1 = m w" by (rule stage_keeps[OF k st])
  have "m w' = m w1" if "r = Inr (dir, fl)" "?argv \<noteq> []" for dir fl
  proof -
    obtain y w2 where rn: "run_allowed_argv pe p (?argv @ [path_text fl]) EXEC_TIMEOUT w1 = (y, w2)" by fastforce
    then show ?thesis using c st that run_keeps[OF k rn] gate_keepsD(9)[OF k]
      by (auto simp: check_syntax_def stage_and_check_def Let_def simp del: stage_candidate.simps
          split: sum.splits prod.splits if_splits)
  qed
  then show ?thesis using c st w1
    by (cases "?argv = []"; cases r)
      (auto simp: check_syntax_def stage_and_check_def Let_def simp del: stage_candidate.simps)
qed

text \<open>
  C22 (edit_writes_only_the_hunk): an edit call writes nothing, or writes once: the file its path resolves to
  under the write policy gets the text it held with the one hunk applied, and only after the syntax check
  accepted that text. \<open>written\<close> is any record of the writes that the syntax gate leaves alone.\<close>

theorem edit_writes_only_the_hunk:
  assumes gate: "gate_keeps pe sf written"
    and writes: "\<And>q s w. written (snd (tf_write f q s w)) = written w @ [(q, s)]"
  shows "written (snd (execute_edit pe sf f p parse iv w)) = written w \<or>
    (\<exists>args q old new. parse (inv_args iv) = Inr args \<and>
      resolve_under f (po_root p) (ea_path args) True (po_denied_globs p) w = Inr q \<and>
      tf_read_text f q w = Inr old \<and> apply_hunk old (ea_search args) (ea_replace args) = Inr new \<and>
      fst (check_syntax pe sf p new w) = Inr () \<and>
      written (snd (execute_edit pe sf f p parse iv w)) = written w @ [(q, new)])"
proof -
  define plan where "plan = try_then (parse_args parse (inv_args iv)) (\<lambda>args.
      try_then (planned_edit f p args w) (\<lambda>pl. Inr (args, pl)))"
  show ?thesis
  proof (cases plan)
    case (Inl e)
    then show ?thesis by (simp add: execute_edit_def plan_def)
  next
    case (Inr r)
    obtain args q new where r: "r = (args, q, new)" by (cases r)
    obtain c w1 where c: "check_syntax pe sf p new w = (c, w1)" by fastforce
    have w1: "written w1 = written w" by (rule check_keeps[OF gate c])
    have pa: "parse (inv_args iv) = Inr args" and pe: "planned_edit f p args w = Inr (q, new)"
      using Inr r unfolding plan_def parse_args_def by (auto simp: try_then_Inr) (cases "parse (inv_args iv)"; auto)+
    obtain old where old: "resolve_under f (po_root p) (ea_path args) True (po_denied_globs p) w = Inr q"
      "tf_read_text f q w = Inr old" "apply_hunk old (ea_search args) (ea_replace args) = Inr new"
      using pe unfolding planned_edit_def resolved_def failed_def
      by (auto simp: try_then_Inr map_sum_Inr split: if_splits)
    show ?thesis
    proof (cases c)
      case (Inl e)
      then show ?thesis using w1 c \<open>plan = Inr r\<close> r by (simp add: execute_edit_def plan_def)
    next
      case (Inr u)
      obtain y w2 where y: "tf_write f q new w1 = (y, w2)" by fastforce
      have "snd (execute_edit pe sf f p parse iv w) = w2"
        using Inr c y \<open>plan = Inr r\<close> r by (auto simp: execute_edit_def plan_def split: sum.split)
      then have "written (snd (execute_edit pe sf f p parse iv w)) = written w @ [(q, new)]"
        using writes[of q new w1] y w1 by simp
      then show ?thesis using pa old c Inr by auto
    qed
  qed
qed


text \<open>A world that lists the writes, over the small file system of the jail; reads answer one text.\<close>

definition note_fs :: "(path \<times> string) list tool_fs" where
  "note_fs = \<lparr>fs_canonicalize = (\<lambda>p _. fs_canonicalize demo_fs p ()),
     fs_is_symlink = (\<lambda>p _. fs_is_symlink demo_fs p ()), fs_read_link = (\<lambda>p _. fs_read_link demo_fs p ()),
     tf_is_dir = (\<lambda>_ _. False), tf_size = (\<lambda>_ _. Inr 3), tf_read = (\<lambda>_ _. Inr ''old''), tf_read_text = (\<lambda>_ _. Inr ''old''),
     tf_exists = (\<lambda>p _. map_of demo_canon p \<noteq> None), tf_create_dir = (\<lambda>q w. (Inr (), w @ [(q, ''dir'')])),
     tf_create_new = (\<lambda>_ w. (Inr (), w)), tf_fill = (\<lambda>q s w. (Inr (), w @ [(q, s)])),
     tf_write = (\<lambda>q s w. (Inr (), w @ [(q, s)]))\<rparr>"

definition idle_env :: "'w proc_env" where
  "idle_env = \<lparr>pe_var = (\<lambda>_ _. None), pe_spawn = (\<lambda>_ _ _ w. (Inr (), w)),
     pe_wait = (\<lambda>_ w. (ChildExited True [] [], w)), pe_kill = (\<lambda>w. w), pe_duration_debug = (\<lambda>_. ''300s'')\<rparr>"

definition idle_stage :: "'w stage_fs" where
  "idle_stage = \<lparr>sf_temp_dir = (\<lambda>_. [RootDir, Normal ''tmp'']), sf_pid = 1, sf_next = (\<lambda>w. (0, w)),
     sf_mkdir = (\<lambda>_ w. (Inr (), w)), sf_lock = (\<lambda>_ w. (Inr (), w)), sf_create = (\<lambda>_ w. (Inr (), w)),
     sf_put = (\<lambda>_ _ w. (Inr (), w)), sf_remove = (\<lambda>_ w. w)\<rparr>"

definition edit_call :: invocation where
  "edit_call = \<lparr>inv_call_id = ''c1'', inv_name = TOOL_EDIT, inv_args = JNull\<rparr>"

definition edit_parse :: "json \<Rightarrow> string + edit_args" where
  "edit_parse _ = Inr \<lparr>ea_path = ''src/a.rs'', ea_search = ''old'', ea_replace = ''new''\<rparr>"

theorem edit_writes_only_the_hunk_witness:
  "gate_keeps idle_env idle_stage (\<lambda>w :: (path \<times> string) list. w) \<and>
    (snd (execute_edit idle_env idle_stage note_fs cargo_policy edit_parse edit_call []) = [] \<or>
     (\<exists>args q old new. edit_parse JNull = Inr args \<and>
       resolve_under note_fs (po_root cargo_policy) (ea_path args) True (po_denied_globs cargo_policy) [] = Inr q \<and>
       tf_read_text note_fs q [] = Inr old \<and> apply_hunk old (ea_search args) (ea_replace args) = Inr new \<and>
       fst (check_syntax idle_env idle_stage cargo_policy new ([] :: (path \<times> string) list)) = Inr () \<and>
       snd (execute_edit idle_env idle_stage note_fs cargo_policy edit_parse edit_call []) = [(q, new)]))"
proof -
  have gate: "gate_keeps idle_env idle_stage (\<lambda>w :: (path \<times> string) list. w)"
    by (simp add: gate_keeps_def idle_env_def idle_stage_def)
  have "snd (tf_write note_fs q s w) = w @ [(q, s)]" for q s w by (simp add: note_fs_def)
  from edit_writes_only_the_hunk[where written = "\<lambda>w. w", OF gate this, of cargo_policy edit_parse edit_call "[]"]
  show ?thesis using gate by (simp add: edit_call_def)
qed

text \<open>A write to \<open>/app/...\<close> means the root, but its missing parents are made from the path as it was spelled,
  outside the root.\<close>

lemma app_parents_escape:
  "create_parent_dirs note_fs demo_root ''/app/new/x.rs'' [] =
    (Inl (DeniedError LINK_ESCAPES), [([RootDir, Normal ''app''], ''dir'')])"
  by code_simp

end
