(* ===== verification/Snapshot.thy ===== *)
theory Snapshot
  imports FileTools BatchProof Effects
begin

text \<open>
  The git overlay, \<open>crates/snapshot/src/{types,patch,git}.rs\<close>: the bounded patch text, the reading of
  git's porcelain and the operations of \<open>TreeService\<close>. Git itself is not in the repository: running a
  command is an operation of the record \<open>tree_env\<close> on an abstract world, which may answer anything. An
  operation of the service is a program over \<open>git_ctx\<close>, the service with its recorded start, the world and
  the commands issued so far; \<open>gx_cmds\<close> is a history variable that nothing reads.
\<close>

section \<open>Bounded patch text\<close>

definition PATCH_MAX_BYTES :: nat where "PATCH_MAX_BYTES = 8 * 1024"
definition PATCH_MAX_LINES :: nat where "PATCH_MAX_LINES = 200"

definition PATCH_TRUNCATED_MARKER :: string where
  "PATCH_TRUNCATED_MARKER =
     [CHR 0xE2, CHR 0x80, CHR 0xA6] @ '' [diff truncated: harness evidence bound reached]''"

text \<open>\<open>split_inclusive\<close>: the pieces keep their line feed, and the empty text has no piece.\<close>

fun split_inclusive :: "string \<Rightarrow> string list" where
  "split_inclusive [] = []"
| "split_inclusive (c # cs) =
     (if c = CHR 0x0A then [c] # split_inclusive cs
      else (case split_inclusive cs of [] \<Rightarrow> [[c]] | l # ls \<Rightarrow> (c # l) # ls))"

fun bound_lines :: "nat \<Rightarrow> string \<Rightarrow> string list \<Rightarrow> string \<times> bool" where
  "bound_lines n out [] = (out, False)"
| "bound_lines n out (line # ls) =
     (if PATCH_MAX_LINES \<le> n \<or> PATCH_MAX_BYTES < length out + length line then (out, True)
      else bound_lines (n + 1) (out @ line) ls)"

definition bound_patch :: "string \<Rightarrow> patch_text" where
  "bound_patch text =
     (case bound_lines 0 [] (split_inclusive text) of
        (out, was_cut) \<Rightarrow> \<lparr>pt_text = (if was_cut then out @ PATCH_TRUNCATED_MARKER @ newline else out), pt_truncated = was_cut\<rparr>)"

section \<open>Reading the porcelain\<close>

text \<open>The escapes of a quoted path: the letters, up to three digits read in base eight, and anything
  else kept with its backslash.\<close>

function unescape :: "string \<Rightarrow> string" where
  "unescape [] = []"
| "unescape (b # bs) =
     (if [b] = BS \<and> bs \<noteq> []
      then
        let c = hd bs; rest = tl bs in
        if c = CHR ''n'' then CHR 0x0A # unescape rest
        else if c = CHR ''t'' then CHR 0x09 # unescape rest
        else if c = CHR ''r'' then CHR 0x0D # unescape rest
        else if [c] = DQ \<or> [c] = BS then c # unescape rest
        else if is_digit c
        then
          let more = takeWhile is_digit (take 2 rest);
              v = foldl (\<lambda>v d. v * 8 + (byte d - 48)) (byte c - 48) more
          in char_of v # unescape (drop (length more) rest)
        else b # c # unescape rest
      else b # unescape bs)"
  by pat_completeness auto
termination by (relation "measure length") auto

declare unescape.simps(2) [simp del]

definition unquote :: "string \<Rightarrow> string" where
  "unquote path =
     (if length path < 2 \<or> [hd path] \<noteq> DQ \<or> [last path] \<noteq> DQ then path
      else utf8_lossy (unescape (butlast (tl path))))"

text \<open>\<open>split(" -> ").last()\<close>: what follows the last arrow, arrows being found from the left.\<close>

definition ARROW :: string where "ARROW = '' -> ''"

function last_part :: "string \<Rightarrow> string" where
  "last_part s = (case find_str ARROW s of None \<Rightarrow> s | Some i \<Rightarrow> last_part (drop (i + length ARROW) s))"
  by pat_completeness auto
termination
proof (relation "measure length", goal_cases)
  case (2 s i)
  then show ?case using find_str_Some[of ARROW s i] by (auto simp: ARROW_def)
qed simp

declare last_part.simps [simp del]

definition porcelain_pair :: "string \<Rightarrow> (string \<times> string) option" where
  "porcelain_pair line =
     (if length line < 3 \<or> line ! 2 \<noteq> CHR '' '' then None
      else Some (take 2 line, unquote (last_part (drop 3 line))))"

section \<open>Git commands\<close>

record git_command =
  gc_args :: "string list"
  gc_removed :: "string list"
  gc_set :: "(string \<times> string) list"

definition null_config :: string where "null_config = ''/dev/null''"

definition hermetic_git :: "path \<Rightarrow> string list \<Rightarrow> git_command" where
  "hermetic_git r args =
     \<lparr>gc_args = [''-C'', path_text r, ''-c'', ''core.hooksPath=/dev/null'', ''-c'', ''commit.gpgsign=false'',
        ''-c'', ''core.fsmonitor=false''] @ args,
      gc_removed = [''GIT_DIR'', ''GIT_WORK_TREE'', ''GIT_INDEX_FILE'', ''GIT_OBJECT_DIRECTORY'', ''GIT_COMMON_DIR'',
        ''GIT_NAMESPACE''],
      gc_set = [(''GIT_CONFIG_NOSYSTEM'', ''1''), (''GIT_CONFIG_GLOBAL'', null_config), (''GIT_AUTHOR_NAME'', ''rof''),
        (''GIT_AUTHOR_EMAIL'', ''rof@local''), (''GIT_COMMITTER_NAME'', ''rof''), (''GIT_COMMITTER_EMAIL'', ''rof@local''),
        (''LC_ALL'', ''C''), (''LANG'', ''C'')]\<rparr>"

record git_out =
  go_success :: bool
  go_stdout :: string
  go_stderr :: string

datatype git_stage = SpawnStage | StdinStage | WaitStage

datatype git_end = GitFailed git_stage string | GitExit git_out

record 'w tree_env = "'w tool_fs" +
  te_is_file :: "path \<Rightarrow> 'w \<Rightarrow> bool"
  te_create_dirs :: "path \<Rightarrow> 'w \<Rightarrow> (string + unit) \<times> 'w"
  te_git :: "git_command \<Rightarrow> string option \<Rightarrow> 'w \<Rightarrow> git_end \<times> 'w"

datatype workdir_status = NotARepo | Clean | Dirty

definition git_dir :: "path \<Rightarrow> path" where
  "git_dir r = join_path r [Normal ''.git'']"

definition workdir_state :: "('w, 'm) tree_env_scheme \<Rightarrow> path \<Rightarrow> 'w \<Rightarrow> workdir_status \<times> 'w" where
  "workdir_state te r w =
     (if \<not> tf_exists te (git_dir r) w then (NotARepo, w)
      else (case te_git te (hermetic_git r [''status'', ''--porcelain'', ''--no-renames'']) None w of
              (GitExit oc, w') \<Rightarrow>
                (if go_success oc \<and> trim (utf8_lossy (go_stdout oc)) = [] then Clean else Dirty, w')
            | (GitFailed _ _, w') \<Rightarrow> (Dirty, w')))"

section \<open>The tree service\<close>

record tree_service =
  ts_root :: path
  ts_start :: "string option"
  ts_excludes :: "string list"

definition DEFAULT_EXCLUDES :: "string list" where
  "DEFAULT_EXCLUDES = [''__pycache__/'', ''*.pyc'', ''target/'', ''node_modules/'']"

definition new_tree :: "path \<Rightarrow> tree_service" where
  "new_tree r = \<lparr>ts_root = r, ts_start = None, ts_excludes = DEFAULT_EXCLUDES\<rparr>"

definition with_excludes :: "tree_service \<Rightarrow> string list \<Rightarrow> tree_service" where
  "with_excludes t ex = t\<lparr>ts_excludes := ex\<rparr>"

record 'w git_ctx =
  gx_tree :: tree_service
  gx_world :: 'w
  gx_cmds :: "git_command list"

type_synonym ('w, 'a) git_prog = "('w git_ctx, string, 'a) prog"

definition tree_get :: "(tree_service \<Rightarrow> 'a) \<Rightarrow> ('w, 'a) git_prog" where
  "tree_get f = gets (\<lambda>c. f (gx_tree c))"

definition disk_get :: "(path \<Rightarrow> 'w \<Rightarrow> 'a) \<Rightarrow> string \<Rightarrow> ('w, 'a) git_prog" where
  "disk_get f rel = gets (\<lambda>c. f (join_path (ts_root (gx_tree c)) (components rel)) (gx_world c))"

definition disk_try :: "('w \<Rightarrow> (string + 'a) \<times> 'w) \<Rightarrow> ('w, 'a) git_prog" where
  "disk_try f = (\<lambda>c. case f (gx_world c) of (r, w) \<Rightarrow> (r, c\<lparr>gx_world := w\<rparr>))"

definition run_git :: "('w, 'm) tree_env_scheme \<Rightarrow> string list \<Rightarrow> string option \<Rightarrow> ('w, git_end) git_prog" where
  "run_git te args stdin = act (\<lambda>c.
     let cmd = hermetic_git (ts_root (gx_tree c)) args in
     case te_git te cmd stdin (gx_world c) of
       (r, w) \<Rightarrow> (r, c\<lparr>gx_world := w, gx_cmds := gx_cmds c @ [cmd]\<rparr>))"

definition git_status :: "('w, 'm) tree_env_scheme \<Rightarrow> string list \<Rightarrow> ('w, git_out) git_prog" where
  "git_status te args = andthen (run_git te args None) (\<lambda>r.
     case r of GitExit oc \<Rightarrow> ret oc | GitFailed _ e \<Rightarrow> throw (''spawn git: '' @ e))"

definition both_streams :: "git_out \<Rightarrow> string" where
  "both_streams oc = trim_end (utf8_lossy (go_stdout oc)) @ '' | '' @ trim_end (utf8_lossy (go_stderr oc))"

definition git :: "('w, 'm) tree_env_scheme \<Rightarrow> string list \<Rightarrow> ('w, git_out) git_prog" where
  "git te args = andthen (git_status te args) (\<lambda>oc.
     if go_success oc then ret oc else throw (''git: '' @ both_streams oc))"

definition git_ok :: "('w, 'm) tree_env_scheme \<Rightarrow> string list \<Rightarrow> ('w, bool) git_prog" where
  "git_ok te args = (\<lambda>c. case git_status te args c of
     (Inl _, c') \<Rightarrow> (Inr False, c') | (Inr oc, c') \<Rightarrow> (Inr (go_success oc), c'))"

definition is_repo :: "('w, 'm) tree_env_scheme \<Rightarrow> ('w, bool) git_prog" where
  "is_repo te = disk_get (tf_exists te) ''.git''"

definition head_unborn :: "('w, 'm) tree_env_scheme \<Rightarrow> ('w, bool) git_prog" where
  "head_unborn te = andthen (git_ok te [''rev-parse'', ''--quiet'', ''--verify'', ''HEAD'']) (\<lambda>b. ret (\<not> b))"

definition commit_all :: "('w, 'm) tree_env_scheme \<Rightarrow> string \<Rightarrow> ('w, unit) git_prog" where
  "commit_all te message =
     andthen (git te [''add'', ''-A'']) (\<lambda>_.
     andthen (git_ok te [''diff'', ''--cached'', ''--quiet'']) (\<lambda>same.
       if same then ret ()
       else andthen (git te [''commit'', ''--quiet'', ''-m'', message]) (\<lambda>_. ret ())))"

text \<open>The merge of the configured patterns into the exclude file.\<close>

definition merge_excludes :: "string \<Rightarrow> string list \<Rightarrow> string" where
  "merge_excludes text excludes =
     (let old = filter (\<lambda>l. (l \<noteq> ''build/'' \<and> l \<noteq> ''dist/'') \<or> l \<in> set excludes) (str_lines text);
          lines = foldl (\<lambda>ls pat. if pat \<in> set ls then ls else ls @ [pat]) old excludes;
          out = join newline lines
      in if out = [] then [] else out @ newline)"

definition info_dir :: "path \<Rightarrow> path" where
  "info_dir r = join_path r (components ''.git/info'')"

definition exclude_file :: "path \<Rightarrow> path" where
  "exclude_file r = join_path (info_dir r) [Normal ''exclude'']"

definition exclude_bytecode :: "('w, 'm) tree_env_scheme \<Rightarrow> ('w, unit) git_prog" where
  "exclude_bytecode te =
     andthen (disk_get (tf_is_dir te) ''.git'') (\<lambda>repo.
       if \<not> repo then ret ()
       else
         andthen (tree_get ts_root) (\<lambda>r.
         andthen (disk_try (te_create_dirs te (info_dir r))) (\<lambda>_.
         andthen (gets (\<lambda>c. case tf_read_text te (exclude_file r) (gx_world c) of Inr s \<Rightarrow> s | Inl _ \<Rightarrow> [])) (\<lambda>text.
         andthen (tree_get ts_excludes) (\<lambda>excludes.
           disk_try (tf_write te (exclude_file r) (merge_excludes text excludes)))))))"

definition ensure :: "('w, 'm) tree_env_scheme \<Rightarrow> ('w, unit) git_prog" where
  "ensure te =
     andthen (is_repo te) (\<lambda>repo.
     andthen (if repo then ret () else andthen (git te [''init'', ''--quiet'']) (\<lambda>_. ret ())) (\<lambda>_.
     andthen (exclude_bytecode te) (\<lambda>_.
     andthen (head_unborn te) (\<lambda>unborn.
     andthen (if unborn then commit_all te ''rof: initial tree state'' else ret ()) (\<lambda>_.
     andthen (git_status te [''rev-parse'', ''HEAD'']) (\<lambda>hd.
       if go_success hd
       then modify (\<lambda>c. c\<lparr>gx_tree := (gx_tree c)\<lparr>ts_start :=
         (case ts_start (gx_tree c) of Some s \<Rightarrow> Some s | None \<Rightarrow> Some (trim (utf8_lossy (go_stdout hd))))\<rparr>\<rparr>)
       else ret ()))))))"

definition baseline :: "('w, 'm) tree_env_scheme \<Rightarrow> ('w, unit) git_prog" where
  "baseline te = commit_all te ''rof: attempt baseline''"

definition rollback :: "('w, 'm) tree_env_scheme \<Rightarrow> ('w, unit) git_prog" where
  "rollback te =
     andthen (tree_get ts_start) (\<lambda>s.
       if s = None then throw ''rollback: ensure() has not recorded a start HEAD''
       else
         andthen (git te [''checkout'', ''--'', ''.'']) (\<lambda>_.
         andthen (git te [''clean'', ''-fdq'']) (\<lambda>_. ret ())))"

section \<open>Evidence\<close>

record diff_summary =
  df_changed :: "string list"
  df_stat :: string
  df_untracked :: "string list"

definition diff_is_empty :: "diff_summary \<Rightarrow> bool" where
  "diff_is_empty d \<longleftrightarrow> df_changed d = []"

text \<open>One porcelain line against the names seen so far: changed paths and untracked ones.\<close>

definition note_line :: "bool \<Rightarrow> string list \<times> string list \<Rightarrow> string \<Rightarrow> string list \<times> string list" where
  "note_line against_start acc line =
     (case porcelain_pair line of
        None \<Rightarrow> acc
      | Some (code, p) \<Rightarrow>
          if against_start \<and> \<not> prefix ''?'' code then acc
          else (if p \<in> set (fst acc) then fst acc else fst acc @ [p],
                if prefix ''?'' code \<and> p \<notin> set (snd acc) then snd acc @ [p] else snd acc))"

definition rev_args :: "string option \<Rightarrow> string list" where
  "rev_args start = (case start of None \<Rightarrow> [] | Some s \<Rightarrow> [s])"

definition diff_at :: "('w, 'm) tree_env_scheme \<Rightarrow> string option \<Rightarrow> ('w, diff_summary) git_prog" where
  "diff_at te start =
     andthen (if start = None then ret []
              else andthen (git te ([''diff'', ''--name-only''] @ rev_args start)) (\<lambda>oc.
                ret (str_lines (utf8_lossy (go_stdout oc))))) (\<lambda>names.
     andthen (git te [''status'', ''--porcelain'', ''--no-renames'']) (\<lambda>porcelain.
       let (changed, untracked) = foldl (note_line (start \<noteq> None)) (names, [])
             (str_lines (utf8_lossy (go_stdout porcelain)))
       in andthen (git te ([''diff'', ''--stat''] @ rev_args start)) (\<lambda>stat.
            ret \<lparr>df_changed = sort changed,
                 df_stat = utf8_lossy (go_stdout stat)
                   @ concat (map (\<lambda>p. '' '' @ p @ '' | new file'' @ newline) untracked),
                 df_untracked = sort untracked\<rparr>)))"

definition diff :: "('w, 'm) tree_env_scheme \<Rightarrow> ('w, diff_summary) git_prog" where
  "diff te = diff_at te None"

definition untracked_stub :: "('w, 'm) tree_env_scheme \<Rightarrow> string \<Rightarrow> ('w, string) git_prog" where
  "untracked_stub te p =
     andthen (disk_get (tf_size te) p) (\<lambda>size.
       ret (''--- /dev/null'' @ newline @ ''+++ b/'' @ p
         @ (case size of Inr n \<Rightarrow> '' (untracked, new file, '' @ dec n @ '' bytes)''
                       | Inl _ \<Rightarrow> '' (untracked, new file)'') @ newline))"

definition diff_new_file :: "('w, 'm) tree_env_scheme \<Rightarrow> string \<Rightarrow> ('w, string) git_prog" where
  "diff_new_file te rel =
     andthen (git_status te [''diff'', ''--no-index'', ''--patch'', ''--'', ''/dev/null'', rel]) (\<lambda>oc.
       let text = utf8_lossy (go_stdout oc) in
       if text \<noteq> [] then ret text
       else andthen (disk_get (te_is_file te) rel) (\<lambda>there.
         if there then throw (''git diff --no-index '' @ rel @ '': '' @ both_streams oc)
         else untracked_stub te rel))"

fun dir_fragments :: "('w, 'm) tree_env_scheme \<Rightarrow> string list \<Rightarrow> ('w, string list) git_prog" where
  "dir_fragments te [] = ret []"
| "dir_fragments te (entry # es) =
     (if entry = [] then dir_fragments te es
      else
        andthen (disk_get (te_is_file te) entry) (\<lambda>is_file.
        andthen (if is_file then diff_new_file te entry else untracked_stub te entry) (\<lambda>f.
        andthen (dir_fragments te es) (\<lambda>fs. ret (f # fs)))))"

definition full_untracked_fragments :: "('w, 'm) tree_env_scheme \<Rightarrow> string \<Rightarrow> ('w, string list) git_prog" where
  "full_untracked_fragments te p =
     andthen (disk_get (tf_is_dir te) p) (\<lambda>is_dir.
       if is_dir
       then
         andthen (git te [''ls-files'', ''--others'', ''--exclude-standard'', ''--'', p]) (\<lambda>oc.
         andthen (dir_fragments te (str_lines (utf8_lossy (go_stdout oc)))) (\<lambda>fs.
           if fs = [] then andthen (untracked_stub te p) (\<lambda>f. ret [f]) else ret fs))
       else
         andthen (disk_get (te_is_file te) p) (\<lambda>is_file.
           if is_file then andthen (diff_new_file te p) (\<lambda>f. ret [f])
           else andthen (untracked_stub te p) (\<lambda>f. ret [f])))"

definition push_fragment :: "string \<Rightarrow> string \<Rightarrow> string" where
  "push_fragment text frag =
     (let t = (if text \<noteq> [] \<and> \<not> suffix newline text then text @ newline else text) @ frag
      in if suffix newline t then t else t @ newline)"

fun append_untracked :: "('w, 'm) tree_env_scheme \<Rightarrow> string \<Rightarrow> string list \<Rightarrow> ('w, string) git_prog" where
  "append_untracked te text [] = ret text"
| "append_untracked te text (p # ps) =
     andthen (full_untracked_fragments te p) (\<lambda>fs. append_untracked te (foldl push_fragment text fs) ps)"

definition patch_at :: "('w, 'm) tree_env_scheme \<Rightarrow> diff_summary \<Rightarrow> string option \<Rightarrow> ('w, patch_text) git_prog" where
  "patch_at te d start =
     andthen (git te ([''diff'', ''--patch''] @ rev_args start)) (\<lambda>raw.
     andthen (append_untracked te (utf8_lossy (go_stdout raw)) (df_untracked d)) (\<lambda>text.
       ret (bound_patch text)))"

definition patch :: "('w, 'm) tree_env_scheme \<Rightarrow> diff_summary \<Rightarrow> ('w, patch_text) git_prog" where
  "patch te d = patch_at te d None"

definition patch_since_start :: "('w, 'm) tree_env_scheme \<Rightarrow> ('w, diff_summary \<times> patch_text) git_prog" where
  "patch_since_start te =
     andthen (tree_get ts_start) (\<lambda>s.
       case s of
         None \<Rightarrow> throw ''patch_since_start: ensure() has not recorded a start HEAD''
       | Some start \<Rightarrow>
           andthen (diff_at te (Some start)) (\<lambda>d.
           andthen (patch_at te d (Some start)) (\<lambda>p. ret (d, p))))"

definition patch_since_start_full :: "('w, 'm) tree_env_scheme \<Rightarrow> ('w, string) git_prog" where
  "patch_since_start_full te =
     andthen (tree_get ts_start) (\<lambda>s.
       case s of
         None \<Rightarrow> throw ''patch_since_start_full: ensure() has not recorded a start HEAD''
       | Some start \<Rightarrow>
           andthen (diff_at te (Some start)) (\<lambda>d.
           andthen (git te [''diff'', ''--patch'', start]) (\<lambda>raw.
             append_untracked te (utf8_lossy (go_stdout raw)) (df_untracked d))))"

section \<open>Restoring hunks\<close>

definition apply_patch :: "('w, 'm) tree_env_scheme \<Rightarrow> string \<Rightarrow> ('w, unit) git_prog" where
  "apply_patch te hunk =
     andthen (run_git te [''apply'', ''-''] (Some (if suffix newline hunk then hunk else hunk @ newline))) (\<lambda>r.
       case r of
         GitFailed SpawnStage e \<Rightarrow> throw (''spawn git: '' @ e)
       | GitFailed StdinStage e \<Rightarrow> throw (''git apply stdin: '' @ e)
       | GitFailed WaitStage e \<Rightarrow> throw (''wait git: '' @ e)
       | GitExit oc \<Rightarrow> if go_success oc then ret () else throw (''git apply: '' @ both_streams oc))"

definition apply_or_roll_back :: "('w, 'm) tree_env_scheme \<Rightarrow> string \<Rightarrow> ('w, unit) git_prog" where
  "apply_or_roll_back te hunk = (\<lambda>c.
     case apply_patch te hunk c of
       (Inr _, c') \<Rightarrow> (Inr (), c')
     | (Inl e, c') \<Rightarrow> (Inl e, snd (rollback te c')))"

definition restore_hunks :: "('w, 'm) tree_env_scheme \<Rightarrow> string list \<Rightarrow> ('w, diff_summary) git_prog" where
  "restore_hunks te kept =
     andthen (rollback te) (\<lambda>_.
     andthen (for_each (apply_or_roll_back te) kept) (\<lambda>_. diff te))"


section \<open>The bounded text\<close>

lemma concat_split_inclusive: "concat (split_inclusive s) = s"
  by (induction s rule: split_inclusive.induct) (auto split: list.splits)

lemma bound_lines_spec:
  "length out \<le> PATCH_MAX_BYTES \<Longrightarrow> n \<le> PATCH_MAX_LINES \<Longrightarrow>
   \<exists>k \<le> length ls. bound_lines n out ls = (out @ concat (take k ls), k < length ls)
     \<and> n + k \<le> PATCH_MAX_LINES \<and> length (out @ concat (take k ls)) \<le> PATCH_MAX_BYTES
     \<and> (k < length ls \<longrightarrow> n + k = PATCH_MAX_LINES
          \<or> PATCH_MAX_BYTES < length (out @ concat (take k ls)) + length (ls ! k))"
proof (induction n out ls rule: bound_lines.induct)
  case (1 n out)
  then show ?case by simp
next
  case (2 n out line ls)
  show ?case
  proof (cases "PATCH_MAX_LINES \<le> n \<or> PATCH_MAX_BYTES < length out + length line")
    case True
    then show ?thesis using 2 by (intro exI[of _ 0]) auto
  next
    case False
    have "length (out @ line) \<le> PATCH_MAX_BYTES" "n + 1 \<le> PATCH_MAX_LINES" using False by simp_all
    from 2(1)[OF False this] obtain k where "k \<le> length ls"
      "bound_lines (n + 1) (out @ line) ls = ((out @ line) @ concat (take k ls), k < length ls)"
      "n + 1 + k \<le> PATCH_MAX_LINES" "length ((out @ line) @ concat (take k ls)) \<le> PATCH_MAX_BYTES"
      "k < length ls \<longrightarrow> n + 1 + k = PATCH_MAX_LINES
         \<or> PATCH_MAX_BYTES < length ((out @ line) @ concat (take k ls)) + length (ls ! k)"
      by blast
    then show ?thesis using False by (intro exI[of _ "Suc k"]) (simp add: add.assoc)
  qed
qed

text \<open>the bounded patch text is the longest run of whole lines within both caps; it is
  marked exactly when lines are left out, and then ends in the marker.\<close>

theorem bound_patch_fits:
  "\<exists>k \<le> length (split_inclusive text).
     let body = concat (take k (split_inclusive text)); left = k < length (split_inclusive text)
     in bound_patch text = \<lparr>pt_text = body @ (if left then PATCH_TRUNCATED_MARKER @ newline else []), pt_truncated = left\<rparr>
       \<and> k \<le> PATCH_MAX_LINES \<and> length body \<le> PATCH_MAX_BYTES
       \<and> (left \<longrightarrow> k = PATCH_MAX_LINES \<or> PATCH_MAX_BYTES < length body + length (split_inclusive text ! k))"
proof -
  obtain k where "k \<le> length (split_inclusive text)"
    "bound_lines 0 [] (split_inclusive text) = (concat (take k (split_inclusive text)), k < length (split_inclusive text))"
    "k \<le> PATCH_MAX_LINES" "length (concat (take k (split_inclusive text))) \<le> PATCH_MAX_BYTES"
    "k < length (split_inclusive text) \<longrightarrow> k = PATCH_MAX_LINES
       \<or> PATCH_MAX_BYTES < length (concat (take k (split_inclusive text))) + length (split_inclusive text ! k)"
    using bound_lines_spec[of "[]" 0 "split_inclusive text"] by auto
  then show ?thesis by (intro exI[of _ k]) (auto simp: bound_patch_def Let_def)
qed

section \<open>Quoted names\<close>

text \<open>The spellings of a byte inside a C-quoted name that the reader knows: itself, a letter escape, or three
  octal digits.\<close>

definition octal_digit :: "nat \<Rightarrow> char" where
  "octal_digit n = char_of (48 + n)"

definition spells :: "char \<Rightarrow> string \<Rightarrow> bool" where
  "spells c s \<longleftrightarrow>
     s = [c] \<and> [c] \<noteq> DQ \<and> [c] \<noteq> BS
     \<or> (c, s) \<in> {(CHR 0x0A, BS @ ''n''), (CHR 0x09, BS @ ''t''), (CHR 0x0D, BS @ ''r''), (hd DQ, BS @ DQ), (hd BS, BS @ BS)}
     \<or> s = BS @ [octal_digit (byte c div 64), octal_digit (byte c div 8 mod 8), octal_digit (byte c mod 8)]"

lemma byte_lt: "byte c < 256"
  by (simp add: byte_def)

lemma octal_digit_byte: "n < 8 \<Longrightarrow> byte (octal_digit n) = 48 + n"
  by (simp add: octal_digit_def byte_def)

lemma octal_digit_is_digit: "n < 8 \<Longrightarrow> is_digit (octal_digit n)"
  by (simp add: is_digit_def octal_digit_byte)

lemma unescape_octal:
  assumes "a < 8" "b < 8" "d < 8"
  shows "unescape (BS @ [octal_digit a, octal_digit b, octal_digit d] @ t) = char_of (64 * a + 8 * b + d) # unescape t"
proof -
  have digits: "is_digit (octal_digit a)" "is_digit (octal_digit b)" "is_digit (octal_digit d)"
    using assms by (auto intro: octal_digit_is_digit)
  have plain: "octal_digit a \<notin> {CHR ''n'', CHR ''t'', CHR ''r'', CHR 0x22, CHR 0x5C}"
    using octal_digit_byte[OF assms(1)] assms(1) by (auto simp: byte_def)
  show ?thesis
    using digits plain assms
    by (simp add: unescape.simps(2) BS_def DQ_def Let_def octal_digit_byte algebra_simps)
qed

lemma octal_digits: "8 * q + r = d \<Longrightarrow> 8 * d + m = n \<Longrightarrow> 64 * q + 8 * r + m = n" for n :: nat
  by linarith

lemma octal_value: "64 * (n div 64) + 8 * (n div 8 mod 8) + n mod 8 = n" for n :: nat
proof -
  have "n div 64 = n div 8 div 8" using div_mult2_eq[of n 8 8] by simp
  then show ?thesis by (simp only: octal_digits[OF mult_div_mod_eq mult_div_mod_eq])
qed

lemma unescape_spelled: "spells c s \<Longrightarrow> unescape (s @ t) = c # unescape t"
proof -
  assume "spells c s"
  then consider "s = [c]" "[c] \<noteq> DQ" "[c] \<noteq> BS"
    | "(c, s) \<in> {(CHR 0x0A, BS @ ''n''), (CHR 0x09, BS @ ''t''), (CHR 0x0D, BS @ ''r''), (hd DQ, BS @ DQ), (hd BS, BS @ BS)}"
    | "s = BS @ [octal_digit (byte c div 64), octal_digit (byte c div 8 mod 8), octal_digit (byte c mod 8)]"
    unfolding spells_def by blast
  then show ?thesis
  proof cases
    case 3
    have small: "byte c div 64 < 8" "byte c div 8 mod 8 < 8" "byte c mod 8 < 8"
      using byte_lt[of c] by (simp_all add: less_mult_imp_div_less)
    have "64 * (byte c div 64) + 8 * (byte c div 8 mod 8) + byte c mod 8 = byte c" by (rule octal_value)
    moreover have "char_of (byte c) = c" by (simp add: byte_def)
    ultimately show ?thesis unfolding 3 append_assoc using unescape_octal[OF small, of t] by (simp only:)
  qed (auto simp: unescape.simps(2) BS_def DQ_def)
qed

lemma unescape_spelled_all: "list_all2 spells p ss \<Longrightarrow> unescape (concat ss) = p"
  by (induction p ss rule: list_all2_induct) (simp_all add: unescape_spelled)

lemma last_part_plain: "\<not> str_contains s ARROW \<Longrightarrow> last_part s = s"
  by (subst last_part.simps) (simp add: str_contains_def)



text \<open>Two names the reader misreads: git also escapes the form feed with a letter, which is not in the list of
  the code; and an arrow inside a quoted name is taken for a rename, though renames are switched off.\<close>

lemma form_feed_is_misread: "unquote (DQ @ BS @ ''f'' @ DQ) = BS @ ''f''"
  by code_simp

lemma arrow_in_name_is_misread:
  "porcelain_pair (''?? '' @ DQ @ ''a -> b'' @ DQ) = Some (''??'', ''b'' @ DQ)"
  by code_simp

section \<open>The change set\<close>

definition row_paths :: "string list \<Rightarrow> string set" where
  "row_paths rows = {p. \<exists>row \<in> set rows. \<exists>code. porcelain_pair row = Some (code, p)}"

lemma note_lines_spec:
  "set (fst acc) \<subseteq> S \<Longrightarrow> set (snd acc) \<subseteq> set (fst acc) \<Longrightarrow> distinct (snd acc) \<Longrightarrow>
   let (changed, untracked) = foldl (note_line False) acc rows
   in set changed = set (fst acc) \<union> row_paths rows \<and> set untracked \<subseteq> set changed \<and> distinct untracked
      \<and> (distinct (fst acc) \<longrightarrow> distinct changed)"
proof (induction rows arbitrary: acc S)
  case Nil
  then show ?case by (auto simp: row_paths_def)
next
  case (Cons row rows)
  let ?acc = "note_line False acc row"
  have acc: "set (snd ?acc) \<subseteq> set (fst ?acc)" "distinct (snd ?acc)" "distinct (fst acc) \<longrightarrow> distinct (fst ?acc)"
    "set (fst ?acc) = set (fst acc) \<union> row_paths [row]"
    using Cons.prems by (auto simp: note_line_def row_paths_def split: option.splits)
  have "row_paths (row # rows) = row_paths [row] \<union> row_paths rows" by (auto simp: row_paths_def)
  then show ?case using Cons.IH[of ?acc UNIV] acc by (auto simp: Let_def split: prod.splits)
qed

lemma diff_lists_every_row:
  assumes "diff te c = (Inr d, c')"
  shows "\<exists>rows. set (df_changed d) = row_paths rows \<and> distinct (df_changed d) \<and> sorted (df_changed d)
    \<and> set (df_untracked d) \<subseteq> set (df_changed d) \<and> distinct (df_untracked d) \<and> sorted (df_untracked d)"
proof -
  obtain rows changed untracked where
    "foldl (note_line False) ([], []) rows = (changed, untracked)"
    "df_changed d = sort changed" "df_untracked d = sort untracked"
    using assms by (auto simp: diff_def diff_at_def prog_defs Let_def split: prod.splits sum.splits)
  then show ?thesis using note_lines_spec[of "([], [])" UNIV rows] by (intro exI[of _ rows]) auto
qed

section \<open>Restoring hunks\<close>

definition terminated :: "string \<Rightarrow> string" where
  "terminated h = (if suffix newline h then h else h @ newline)"

text \<open>The contract of a restore: each kept hunk in turn goes through one successful \<open>git apply\<close>.\<close>

fun applies :: "('w, 'm) tree_env_scheme \<Rightarrow> path \<Rightarrow> string list \<Rightarrow> 'w \<Rightarrow> 'w option" where
  "applies te r [] w = Some w"
| "applies te r (h # hs) w =
     (case te_git te (hermetic_git r [''apply'', ''-'']) (Some (terminated h)) w of
        (GitExit oc, w') \<Rightarrow> if go_success oc then applies te r hs w' else None
      | (GitFailed _ _, _) \<Rightarrow> None)"

lemma git_tree: "git te args c = (x, c') \<Longrightarrow> gx_tree c' = gx_tree c"
  by (auto simp: git_def git_status_def run_git_def prog_defs Let_def split: prod.splits sum.splits git_end.splits if_splits)

lemma apply_patch_tree: "apply_patch te h c = (x, c') \<Longrightarrow> gx_tree c' = gx_tree c"
  by (auto simp: apply_patch_def run_git_def prog_defs Let_def split: prod.splits git_end.splits git_stage.splits if_splits)

lemma apply_patch_applies:
  "apply_patch te h c = (Inr x, c') \<Longrightarrow>
   applies te (ts_root (gx_tree c)) (h # hs) (gx_world c) = applies te (ts_root (gx_tree c)) hs (gx_world c')"
  by (auto simp: apply_patch_def run_git_def prog_defs Let_def terminated_def
      split: prod.splits git_end.splits git_stage.splits if_splits)

lemma apply_or_roll_back_ok:
  "apply_patch te h c = (Inr x, c') \<Longrightarrow> apply_or_roll_back te h c = (Inr (), c')"
  by (simp add: apply_or_roll_back_def)

lemma git_runs: "te_git te (hermetic_git (ts_root (gx_tree c)) args) None (gx_world c) = (GitExit oc, w) \<Longrightarrow> go_success oc \<Longrightarrow>
   \<exists>c'. git te args c = (Inr oc, c') \<and> gx_world c' = w \<and> gx_tree c' = gx_tree c"
  by (simp add: git_def git_status_def run_git_def prog_defs Let_def)

lemma git_reaches:
  assumes "\<And>e w'. te_git te (hermetic_git (ts_root (gx_tree c)) args) None (gx_world c) = (e, w') \<Longrightarrow>
    Q w' \<and> (\<exists>oc. e = GitExit oc \<and> go_success oc)"
  shows "\<exists>oc c'. git te args c = (Inr oc, c') \<and> gx_tree c' = gx_tree c \<and> Q (gx_world c')"
proof -
  obtain e w where run: "te_git te (hermetic_git (ts_root (gx_tree c)) args) None (gx_world c) = (e, w)" by fastforce
  with assms[OF run] obtain oc where "te_git te (hermetic_git (ts_root (gx_tree c)) args) None (gx_world c) = (GitExit oc, w)"
    "go_success oc" "Q w" by blast
  from git_runs[OF this(1,2)] this(3) show ?thesis by blast
qed

lemma rollback_reaches:
  assumes started: "ts_start (gx_tree c) = Some s"
    and checkout: "\<And>w e w'. te_git te (hermetic_git (ts_root (gx_tree c)) [''checkout'', ''--'', ''.'']) None w = (e, w') \<Longrightarrow>
      tracked w' \<and> (\<exists>oc. e = GitExit oc \<and> go_success oc)"
    and clean: "\<And>w e w'. te_git te (hermetic_git (ts_root (gx_tree c)) [''clean'', ''-fdq'']) None w = (e, w') \<Longrightarrow>
      tracked w \<Longrightarrow> base w' \<and> (\<exists>oc. e = GitExit oc \<and> go_success oc)"
  shows "\<exists>c'. rollback te c = (Inr (), c') \<and> gx_tree c' = gx_tree c \<and> base (gx_world c')"
proof -
  obtain oc d where d: "git te [''checkout'', ''--'', ''.''] c = (Inr oc, d)" "gx_tree d = gx_tree c" "tracked (gx_world d)"
    using git_reaches[of te c "[''checkout'', ''--'', ''.'']" tracked] checkout by blast
  have "te_git te (hermetic_git (ts_root (gx_tree d)) [''clean'', ''-fdq'']) None (gx_world d) = (e, w') \<Longrightarrow>
      base w' \<and> (\<exists>oc. e = GitExit oc \<and> go_success oc)" for e w'
    using clean d by simp
  then obtain oc' c' where "git te [''clean'', ''-fdq''] d = (Inr oc', c')" "gx_tree c' = gx_tree d" "base (gx_world c')"
    using git_reaches[of te d "[''clean'', ''-fdq'']" base] by blast
  then show ?thesis using d started by (auto simp: rollback_def tree_get_def prog_defs)
qed


text \<open>A toy git over the list of the patches it has applied, which refuses the patch \<open>bad\<close>; with \<open>broken\<close>
  its status fails.\<close>

definition demo_git :: "bool \<Rightarrow> git_command \<Rightarrow> string option \<Rightarrow> string list \<Rightarrow> git_end \<times> string list" where
  "demo_git broken cmd stdin w =
     (let ok = \<lambda>w'. (GitExit \<lparr>go_success = True, go_stdout = [], go_stderr = []\<rparr>, w');
          fails = (GitExit \<lparr>go_success = False, go_stdout = [], go_stderr = ''no''\<rparr>, w);
          verb = gc_args cmd ! 8
      in if verb = ''clean'' then ok []
         else if verb = ''apply''
         then (case stdin of Some h \<Rightarrow> if prefix ''bad'' h then fails else ok (w @ [h]) | None \<Rightarrow> fails)
         else if verb = ''status'' \<and> broken then fails
         else ok w)"

definition demo_tree :: "bool \<Rightarrow> string list tree_env" where
  "demo_tree broken =
     \<lparr>fs_canonicalize = (\<lambda>p _. Inr p), fs_is_symlink = (\<lambda>_ _. False), fs_read_link = (\<lambda>_ _. Inl []),
      tf_is_dir = (\<lambda>_ _. True), tf_size = (\<lambda>_ _. Inr 0), tf_read = (\<lambda>_ _. Inr []), tf_read_text = (\<lambda>_ _. Inr []),
      tf_exists = (\<lambda>_ _. True), tf_create_dir = (\<lambda>_ w. (Inr (), w)), tf_create_new = (\<lambda>_ w. (Inr (), w)),
      tf_fill = (\<lambda>_ _ w. (Inr (), w)), tf_write = (\<lambda>_ _ w. (Inr (), w)), te_is_file = (\<lambda>_ _. False),
      te_create_dirs = (\<lambda>_ w. (Inr (), w)), te_git = demo_git broken\<rparr>"

definition demo_gctx :: "string list git_ctx" where
  "demo_gctx = \<lparr>gx_tree = (new_tree [RootDir, Normal ''w''])\<lparr>ts_start := Some ''abc''\<rparr>, gx_world = [''old''], gx_cmds = []\<rparr>"

lemma demo_git_undoes:
  "demo_git b (hermetic_git r [''checkout'', ''--'', ''.'']) None w = (e, w') \<Longrightarrow>
   True \<and> (\<exists>oc. e = GitExit oc \<and> go_success oc)"
  "demo_git b (hermetic_git r [''clean'', ''-fdq'']) None w = (e, w') \<Longrightarrow>
   w' = [] \<and> (\<exists>oc. e = GitExit oc \<and> go_success oc)"
  by (auto simp: demo_git_def hermetic_git_def Let_def)


text \<open>A failure of the last diff is an error too, and then the tree is not at its baseline.\<close>

lemma late_failure_keeps_hunks:
  "fst (restore_hunks (demo_tree True) [''good''] demo_gctx) = Inl ''git:  | no'' \<and>
   gx_world (snd (restore_hunks (demo_tree True) [''good''] demo_gctx)) = [''good'' @ newline]"
  by code_simp

section \<open>What the service may do to a tree\<close>

text \<open>An invariant of the service follows from a few facts: reading and adding commands keep it, so do the two
  that undo work once a start is recorded, the writing of the exclude file, and the recording of the start.\<close>

definition undoing :: "string list \<Rightarrow> bool" where
  "undoing args \<longleftrightarrow> args \<noteq> [] \<and> hd args \<in> {''checkout'', ''clean''}"

locale tree_invariant =
  fixes te :: "('w, 'm) tree_env_scheme" and I :: "'w git_ctx \<Rightarrow> bool"
  assumes step: "\<not> undoing args \<Longrightarrow> keeps I (run_git te args stdin)"
    and undo: "keeps (\<lambda>c. I c \<and> (\<exists>s. ts_start (gx_tree c) = Some s)) (run_git te args stdin)"
    and info: "I c \<Longrightarrow> I (snd (disk_try (te_create_dirs te (info_dir (ts_root (gx_tree c)))) c))"
    and exclude: "I c \<Longrightarrow> I (snd (disk_try (tf_write te (exclude_file (ts_root (gx_tree c))) t) c))"
    and start: "I c \<Longrightarrow> ts_start (gx_tree c) = None \<Longrightarrow> I (c\<lparr>gx_tree := (gx_tree c)\<lparr>ts_start := Some s\<rparr>\<rparr>)"
begin

lemma keeps_status: "\<not> undoing args \<Longrightarrow> keeps I (git_status te args)"
  by (auto simp: git_status_def intro!: keeps_andthen step keeps_ret keeps_throw split: git_end.splits)

lemma keeps_git: "\<not> undoing args \<Longrightarrow> keeps I (git te args)"
  by (auto simp: git_def intro!: keeps_rules keeps_status)

lemma git_ok_keeps: "\<not> undoing args \<Longrightarrow> keeps I (git_ok te args)"
  using keepsD[OF keeps_status[of args]] by (fastforce simp: keeps_def git_ok_def split: prod.splits sum.splits)

lemmas reading = keeps_rules keeps_status keeps_git git_ok_keeps

lemma commit_keeps: "keeps I (commit_all te m)"
  by (auto simp: commit_all_def undoing_def intro!: reading)

lemma keeps_exclude: "keeps I (exclude_bytecode te)"
proof (rule keepsI)
  fix c
  assume I: "I c"
  obtain r c1 where c1: "disk_try (te_create_dirs te (info_dir (ts_root (gx_tree c)))) c = (r, c1)" by fastforce
  then have "I c1" "gx_tree c1 = gx_tree c" using info[OF I] by (auto simp: disk_try_def split: prod.splits)
  then show "I (snd (exclude_bytecode te c))"
    using I c1 exclude[of c1]
    by (cases r) (simp_all add: exclude_bytecode_def disk_get_def tree_get_def andthen_def gets_def ret_def)
qed

lemma keeps_ensure: "keeps I (ensure te)"
proof -
  have record_start: "keeps I (modify (\<lambda>c. c\<lparr>gx_tree := (gx_tree c)\<lparr>ts_start :=
      (case ts_start (gx_tree c) of Some s \<Rightarrow> Some s | None \<Rightarrow> Some h)\<rparr>\<rparr>))" for h
  proof (rule keeps_modify)
    fix c
    assume "I c"
    then show "I (c\<lparr>gx_tree := (gx_tree c)\<lparr>ts_start := (case ts_start (gx_tree c) of Some s \<Rightarrow> Some s | None \<Rightarrow> Some h)\<rparr>\<rparr>)"
    proof (cases "ts_start (gx_tree c)")
      case None
      then show ?thesis using start[of c h] \<open>I c\<close> by simp
    next
      case (Some s)
      then have "c\<lparr>gx_tree := (gx_tree c)\<lparr>ts_start := Some s\<rparr>\<rparr> = c" by (cases c; cases "gx_tree c") simp
      with Some \<open>I c\<close> show ?thesis by (simp only: option.case)
    qed
  qed
  show ?thesis
    by (auto simp: ensure_def is_repo_def head_unborn_def disk_get_def undoing_def
        intro!: reading keeps_exclude commit_keeps record_start)
qed

lemma keeps_undo: "keeps (\<lambda>c. I c \<and> (\<exists>s. ts_start (gx_tree c) = Some s)) (git te args)"
  by (auto simp: git_def git_status_def intro!: keeps_rules undo split: git_end.splits)

lemma keeps_rollback: "keeps I (rollback te)"
proof (rule keepsI)
  fix c
  assume I: "I c"
  show "I (snd (rollback te c))"
  proof (cases "ts_start (gx_tree c)")
    case None
    then show ?thesis using I by (simp add: rollback_def tree_get_def prog_defs)
  next
    case (Some s)
    have "keeps (\<lambda>c. I c \<and> (\<exists>s. ts_start (gx_tree c) = Some s))
        (andthen (git te [''checkout'', ''--'', ''.'']) (\<lambda>_. andthen (git te [''clean'', ''-fdq'']) (\<lambda>_. ret ())))"
      by (intro keeps_rules keeps_undo)
    from keepsD[OF this, of c] show ?thesis using I Some by (simp add: rollback_def tree_get_def andthen_def gets_def)
  qed
qed

lemma keeps_stub: "keeps I (untracked_stub te p)"
  by (auto simp: untracked_stub_def disk_get_def intro!: reading)

lemma keeps_new_file: "keeps I (diff_new_file te p)"
  by (auto simp: diff_new_file_def disk_get_def undoing_def Let_def intro!: reading keeps_stub)

lemma keeps_dir: "keeps I (dir_fragments te es)"
  by (induction es) (auto simp: disk_get_def intro!: reading keeps_stub keeps_new_file)

lemma keeps_fragments: "keeps I (full_untracked_fragments te p)"
  by (auto simp: full_untracked_fragments_def disk_get_def undoing_def intro!: reading keeps_stub keeps_new_file keeps_dir)

lemma keeps_untracked: "keeps I (append_untracked te t ps)"
  by (induction ps arbitrary: t) (auto intro!: reading keeps_fragments)

lemma keeps_diff_at: "keeps I (diff_at te s)"
  by (auto simp: diff_at_def undoing_def Let_def intro!: reading split: prod.splits)

lemma keeps_patch_at: "keeps I (patch_at te d s)"
  by (auto simp: patch_at_def undoing_def intro!: reading keeps_untracked)

lemma keeps_since: "keeps I (patch_since_start te)"
  by (auto simp: patch_since_start_def tree_get_def intro!: reading keeps_diff_at keeps_patch_at)

lemma keeps_full: "keeps I (patch_since_start_full te)"
  by (auto simp: patch_since_start_full_def tree_get_def undoing_def intro!: reading keeps_diff_at keeps_untracked)

lemma keeps_apply: "keeps I (apply_patch te h)"
  by (auto simp: apply_patch_def undoing_def intro!: keeps_andthen step keeps_ret keeps_throw
      split: git_end.splits git_stage.splits)

lemma keeps_apply_or: "keeps I (apply_or_roll_back te h)"
proof (rule keepsI)
  fix c
  assume "I c"
  then have "I (snd (apply_patch te h c))" by (rule keepsD[OF keeps_apply])
  then show "I (snd (apply_or_roll_back te h c))"
    using keepsD[OF keeps_rollback] by (auto simp: apply_or_roll_back_def split: prod.splits sum.splits)
qed

lemma keeps_restore: "keeps I (restore_hunks te hs)"
  by (auto simp: restore_hunks_def diff_def intro!: reading keeps_rollback keeps_apply_or keeps_diff_at)

end

text \<open>The interpretation: the service keeps its root and a recorded start, every child it starts has the
  hermetic set-up, and before a start is recorded no command that undoes work has run.\<close>

definition overlay_ok :: "path \<Rightarrow> string option \<Rightarrow> 'w git_ctx \<Rightarrow> bool" where
  "overlay_ok r start c \<longleftrightarrow>
     ts_root (gx_tree c) = r \<and> (start \<noteq> None \<longrightarrow> ts_start (gx_tree c) = start)
     \<and> (\<forall>cmd \<in> set (gx_cmds c). \<exists>args. cmd = hermetic_git r args \<and> (undoing args \<longrightarrow> ts_start (gx_tree c) \<noteq> None))"

lemma overlay_run:
  "overlay_ok r start c \<Longrightarrow> \<not> undoing args \<or> ts_start (gx_tree c) \<noteq> None \<Longrightarrow>
   overlay_ok r start (snd (run_git te args stdin c)) \<and> ts_start (gx_tree (snd (run_git te args stdin c))) = ts_start (gx_tree c)"
  by (auto simp: overlay_ok_def run_git_def act_def Let_def split: prod.splits)

interpretation overlay: tree_invariant te "overlay_ok r start" for te r start
proof unfold_locales
  show "\<not> undoing args \<Longrightarrow> keeps (overlay_ok r start) (run_git te args stdin)" for args stdin
    using overlay_run by (fastforce simp: keeps_def)
  show "keeps (\<lambda>c. overlay_ok r start c \<and> (\<exists>s. ts_start (gx_tree c) = Some s)) (run_git te args stdin)" for args stdin
    unfolding keeps_def using overlay_run by (metis option.distinct(1))
  show "overlay_ok r start c \<Longrightarrow> overlay_ok r start (snd (disk_try (te_create_dirs te (info_dir (ts_root (gx_tree c)))) c))"
    "overlay_ok r start c \<Longrightarrow> overlay_ok r start (snd (disk_try (tf_write te (exclude_file (ts_root (gx_tree c))) t) c))"
    for c t by (simp_all add: disk_try_def overlay_ok_def split: prod.splits)
  show "overlay_ok r start c \<Longrightarrow> ts_start (gx_tree c) = None \<Longrightarrow>
      overlay_ok r start (c\<lparr>gx_tree := (gx_tree c)\<lparr>ts_start := Some s\<rparr>\<rparr>)" for c s
    by (auto simp: overlay_ok_def)
qed

datatype tree_op =
    OpEnsure | OpBaseline | OpRollback | OpRestore "string list" | OpDiff | OpPatch diff_summary
  | OpSinceStart | OpFull

fun do_op :: "('w, 'm) tree_env_scheme \<Rightarrow> tree_op \<Rightarrow> 'w git_ctx \<Rightarrow> 'w git_ctx" where
  "do_op te OpEnsure c = snd (ensure te c)"
| "do_op te OpBaseline c = snd (baseline te c)"
| "do_op te OpRollback c = snd (rollback te c)"
| "do_op te (OpRestore hs) c = snd (restore_hunks te hs c)"
| "do_op te OpDiff c = snd (diff te c)"
| "do_op te (OpPatch d) c = snd (patch te d c)"
| "do_op te OpSinceStart c = snd (patch_since_start te c)"
| "do_op te OpFull c = snd (patch_since_start_full te c)"

definition tree_ops :: "('w, 'm) tree_env_scheme \<Rightarrow> tree_op list \<Rightarrow> 'w git_ctx \<Rightarrow> 'w git_ctx" where
  "tree_ops te ops c = fold (do_op te) ops c"

lemma tree_ops_ok: "overlay_ok r start c \<Longrightarrow> overlay_ok r start (tree_ops te ops c)"
proof (induction ops arbitrary: c)
  case (Cons op ops)
  have "overlay_ok r start (do_op te op c)"
    using Cons.prems by (cases op) (auto simp: baseline_def diff_def patch_def
        intro: keepsD overlay.keeps_ensure overlay.commit_keeps overlay.keeps_rollback overlay.keeps_restore
          overlay.keeps_diff_at overlay.keeps_patch_at overlay.keeps_since overlay.keeps_full)
  then show ?case using Cons.IH by (simp add: tree_ops_def)
qed (simp add: tree_ops_def)

text \<open>whatever sequence of its operations a fresh service runs and whatever git answers,
  every child process has the hermetic set-up, no work is undone before a start is recorded, and the recorded
  start never changes again.\<close>

theorem overlay_is_guarded:
  assumes "gx_tree c = (new_tree r)\<lparr>ts_excludes := ex\<rparr>" "gx_cmds c = []"
  shows "(\<forall>cmd \<in> set (gx_cmds (tree_ops te ops c)). \<exists>args. cmd = hermetic_git r args
        \<and> (undoing args \<longrightarrow> ts_start (gx_tree (tree_ops te ops c)) \<noteq> None))
    \<and> (ts_start (gx_tree (tree_ops te ops c)) = Some s \<longrightarrow>
        ts_start (gx_tree (tree_ops te later (tree_ops te ops c))) = Some s)"
proof -
  have ok: "overlay_ok r None (tree_ops te ops c)"
    using assms by (intro tree_ops_ok) (simp add: overlay_ok_def new_tree_def)
  then have "ts_start (gx_tree (tree_ops te ops c)) = Some s \<Longrightarrow> overlay_ok r (Some s) (tree_ops te ops c)"
    by (simp add: overlay_ok_def)
  from tree_ops_ok[OF this, where ops = later] show ?thesis using ok by (auto simp: overlay_ok_def)
qed

theorem overlay_is_guarded_witness:
  "gx_cmds (tree_ops (demo_tree False) [OpRollback] (demo_gctx\<lparr>gx_tree := new_tree []\<rparr>)) = [] \<and>
   (\<exists>args. last (gx_cmds (tree_ops (demo_tree False) [OpEnsure, OpRollback] (demo_gctx\<lparr>gx_tree := new_tree []\<rparr>)))
      = hermetic_git [] args)"
proof -
  let ?c = "demo_gctx\<lparr>gx_tree := new_tree []\<rparr>"
  have "gx_cmds (tree_ops (demo_tree False) [OpEnsure, OpRollback] ?c) \<noteq> []" by code_simp
  then have "last (gx_cmds (tree_ops (demo_tree False) [OpEnsure, OpRollback] ?c))
      \<in> set (gx_cmds (tree_ops (demo_tree False) [OpEnsure, OpRollback] ?c))" by simp
  moreover have "gx_tree ?c = (new_tree [])\<lparr>ts_excludes := DEFAULT_EXCLUDES\<rparr>" "gx_cmds ?c = []"
    by (simp_all add: demo_gctx_def new_tree_def)
  note overlay_is_guarded[OF this, of "demo_tree False" "[OpEnsure, OpRollback]"]
  moreover have "gx_cmds (tree_ops (demo_tree False) [OpRollback] ?c) = []" by code_simp
  ultimately show ?thesis by blast
qed

end
