(* ===== verification/Stats.thy ===== *)
theory Stats
  imports Prelude
begin

text \<open>
  The statistics of a comparison, \<open>crates/eval/src/{gate,matrix}.rs\<close>: the paired bootstrap with its own
  generator, the Wilson interval, and the report of matched pairs. An \<open>f64\<close> is a real.
\<close>

section \<open>Statistics\<close>

text \<open>The generator of the bootstrap: a 64-bit linear congruence, of which the upper half picks an index.\<close>

definition lcg_next :: "nat \<Rightarrow> nat" where
  "lcg_next state = (state * 6364136223846793005 + 1442695040888963407) mod (U64_MAX + 1)"

definition pick_index :: "nat \<Rightarrow> nat \<Rightarrow> nat" where
  "pick_index n state = state div 2 ^ 33 mod n"

fun draw_sum :: "real list \<Rightarrow> nat \<Rightarrow> nat \<Rightarrow> real \<times> nat" where
  "draw_sum ds 0 state = (0, state)"
| "draw_sum ds (Suc k) state =
     (let state' = lcg_next state;
          x = ds ! pick_index (length ds) state';
          (rest, state'') = draw_sum ds k state'
      in (x + rest, state''))"

fun draw_means :: "real list \<Rightarrow> nat \<Rightarrow> nat \<Rightarrow> real list" where
  "draw_means ds 0 state = []"
| "draw_means ds (Suc iters) state =
     (case draw_sum ds (length ds) state of
        (s, state') \<Rightarrow> s / real (length ds) # draw_means ds iters state')"

definition percentile :: "real list \<Rightarrow> real \<Rightarrow> real" where
  "percentile means p = means ! nat \<lfloor>real (length means - 1) * p + 1 / 2\<rfloor>"

text \<open>With no resample there is no percentile and the code panics.\<close>

datatype bootstrap = NoPairs | BootPanic | Interval real real real

definition paired_bootstrap :: "(real \<times> real) list \<Rightarrow> u64 \<Rightarrow> u64 \<Rightarrow> bootstrap" where
  "paired_bootstrap pairs iters seed =
     (let n = length pairs; ds = map (\<lambda>(a, b). a - b) pairs in
      if n = 0 then NoPairs
      else
        let mean = sum_list ds / real n;
            means = sort (draw_means ds iters (if even seed then seed + 1 else seed))
        in if iters = 0 then BootPanic
           else Interval mean (percentile means (25 / 1000)) (percentile means (975 / 1000)))"

definition clamp01 :: "real \<Rightarrow> real" where
  "clamp01 x = max 0 (min 1 x)"

definition wilson_ci :: "u64 \<Rightarrow> u64 \<Rightarrow> real \<times> real \<times> real" where
  "wilson_ci passed trials =
     (if trials = 0 then (0, 0, 0)
      else
        let p = real passed / real trials; n = real trials; z = 196 / 100;
            denom = 1 + z * z / n;
            center = (p + z * z / (2 * n)) / denom;
            delta = z * sqrt (p * (1 - p) / n + z * z / (4 * n * n)) / denom
        in (clamp01 p, clamp01 (center - delta), clamp01 (center + delta)))"

section \<open>Comparisons\<close>

record cell_reps =
  cr_task :: string
  cr_reps :: "real list"

record matched_pair =
  mp_control :: cell_reps
  mp_treatment :: cell_reps

datatype report_flag =
    Flaky | ControlSaturatedPass | ControlSaturatedFail | TreatmentSaturatedPass | TreatmentSaturatedFail

record comparison_report =
  cm_control_rate :: "real option"
  cm_treatment_rate :: "real option"
  cm_lift :: "real option"
  cm_flags :: "report_flag list"
  cm_eligible :: usize
  cm_blocked :: usize

definition rep_mean :: "cell_reps \<Rightarrow> real" where
  "rep_mean c = sum_list (cr_reps c) / real (length (cr_reps c))"

definition arm_rate :: "(matched_pair \<Rightarrow> cell_reps) \<Rightarrow> matched_pair list \<Rightarrow> real" where
  "arm_rate side pairs = sum_list (map (\<lambda>p. rep_mean (side p)) pairs) / real (length pairs)"

definition unanimous :: "cell_reps \<Rightarrow> bool" where
  "unanimous c = (case cr_reps c of [] \<Rightarrow> True | r # rs \<Rightarrow> list_all (\<lambda>x. x = r) (r # rs))"

definition from_pairs :: "matched_pair list \<Rightarrow> usize \<Rightarrow> comparison_report" where
  "from_pairs pairs blocked =
     (let eligible = length (filter (\<lambda>p. cr_reps (mp_control p) \<noteq> [] \<and> cr_reps (mp_treatment p) \<noteq> []) pairs);
          publish = (blocked = 0 \<and> eligible = length pairs \<and> 0 < eligible);
          control = (if publish then Some (arm_rate mp_control pairs) else None);
          treatment = (if publish then Some (arm_rate mp_treatment pairs) else None);
          lift = (case (control, treatment) of (Some c, Some t) \<Rightarrow> Some (t - c) | _ \<Rightarrow> None);
          flags = (if control = Some 1 then [ControlSaturatedPass] else [])
            @ (if control = Some 0 then [ControlSaturatedFail] else [])
            @ (if treatment = Some 1 then [TreatmentSaturatedPass] else [])
            @ (if treatment = Some 0 then [TreatmentSaturatedFail] else [])
            @ (if list_ex (\<lambda>p. \<not> unanimous (mp_control p) \<or> \<not> unanimous (mp_treatment p)) pairs then [Flaky] else [])
      in \<lparr>cm_control_rate = control, cm_treatment_rate = treatment, cm_lift = lift, cm_flags = flags,
          cm_eligible = eligible, cm_blocked = blocked\<rparr>)"

section \<open>The bootstrap\<close>

lemma draw_sum_bounds:
  assumes "ds \<noteq> []" "\<forall>x \<in> set ds. a \<le> x \<and> x \<le> b"
  shows "real k * a \<le> fst (draw_sum ds k state) \<and> fst (draw_sum ds k state) \<le> real k * b"
proof (induction k arbitrary: state)
  case (Suc k)
  have "pick_index (length ds) (lcg_next state) < length ds" using assms(1) by (simp add: pick_index_def)
  then have "a \<le> ds ! pick_index (length ds) (lcg_next state) \<and> ds ! pick_index (length ds) (lcg_next state) \<le> b"
    using assms(2) nth_mem by blast
  then show ?case using Suc[of "lcg_next state"] by (auto simp: Let_def algebra_simps split: prod.splits)
qed simp

lemma draw_means_length [simp]: "length (draw_means ds iters state) = iters"
  by (induction ds iters state rule: draw_means.induct) (auto split: prod.splits)

lemma draw_means_bounds:
  assumes "ds \<noteq> []" "\<forall>x \<in> set ds. a \<le> x \<and> x \<le> b"
  shows "\<forall>m \<in> set (draw_means ds iters state). a \<le> m \<and> m \<le> b"
proof (induction iters arbitrary: state)
  case (Suc iters)
  obtain s state' where s: "draw_sum ds (length ds) state = (s, state')" by fastforce
  then have "real (length ds) * a \<le> s \<and> s \<le> real (length ds) * b"
    using draw_sum_bounds[OF assms, of "length ds" state] by simp
  then have "a \<le> s / real (length ds) \<and> s / real (length ds) \<le> b"
    using assms(1) by (simp add: pos_le_divide_eq pos_divide_le_eq mult.commute)
  then show ?case using Suc s by simp
qed simp

lemma percentile_index:
  assumes "0 < n" "0 \<le> p" "p \<le> 1"
  shows "nat \<lfloor>real (n - 1) * p + 1 / 2\<rfloor> < n"
proof -
  have "real (n - 1) * p \<le> real (n - 1) * 1" using assms by (intro mult_left_mono) auto
  then have "\<lfloor>real (n - 1) * p + 1 / 2\<rfloor> \<le> int (n - 1)" by (simp add: floor_le_iff)
  then show ?thesis using assms(1) by linarith
qed

lemma percentile_mono:
  assumes "sorted ms" "ms \<noteq> []" "0 \<le> p" "p \<le> q" "q \<le> 1"
  shows "percentile ms p \<le> percentile ms q" "percentile ms p \<in> set ms" "percentile ms q \<in> set ms"
proof -
  have "\<lfloor>real (length ms - 1) * p + 1 / 2\<rfloor> \<le> \<lfloor>real (length ms - 1) * q + 1 / 2\<rfloor>"
    using assms by (intro floor_mono add_right_mono mult_left_mono) auto
  then have "nat \<lfloor>real (length ms - 1) * p + 1 / 2\<rfloor> \<le> nat \<lfloor>real (length ms - 1) * q + 1 / 2\<rfloor>" by simp
  moreover have "nat \<lfloor>real (length ms - 1) * q + 1 / 2\<rfloor> < length ms" "nat \<lfloor>real (length ms - 1) * p + 1 / 2\<rfloor> < length ms"
    using assms by (intro percentile_index; simp)+
  ultimately show "percentile ms p \<le> percentile ms q" "percentile ms p \<in> set ms" "percentile ms q \<in> set ms"
    using assms(1) by (auto simp: percentile_def sorted_iff_nth_mono)
qed

text \<open>with at least one resample the bootstrap answers the mean of the differences and an
  ordered interval within any bounds the differences respect; no index is out of range.\<close>

theorem bootstrap_brackets:
  assumes "pairs \<noteq> []" "0 < iters" "\<forall>(x, y) \<in> set pairs. a \<le> x - y \<and> x - y \<le> b"
  shows "\<exists>lo hi. paired_bootstrap pairs iters seed
      = Interval (sum_list (map (\<lambda>(x, y). x - y) pairs) / real (length pairs)) lo hi \<and> a \<le> lo \<and> lo \<le> hi \<and> hi \<le> b"
proof -
  let ?ds = "map (\<lambda>(x, y). x - y) pairs"
  let ?ms = "sort (draw_means ?ds iters (if even seed then seed + 1 else seed))"
  have ds: "?ds \<noteq> []" "\<forall>x \<in> set ?ds. a \<le> x \<and> x \<le> b" using assms by auto
  have ms: "?ms \<noteq> []" using assms(2) by (metis draw_means_length length_0_conv length_sort less_not_refl)
  have "percentile ?ms (25 / 1000) \<le> percentile ?ms (975 / 1000)"
    "percentile ?ms (25 / 1000) \<in> set ?ms" "percentile ?ms (975 / 1000) \<in> set ?ms"
    using percentile_mono[OF sorted_sort ms, of "25 / 1000" "975 / 1000"] by simp_all
  moreover have "\<forall>m \<in> set ?ms. a \<le> m \<and> m \<le> b" using draw_means_bounds[OF ds] by simp
  moreover have "paired_bootstrap pairs iters seed
      = Interval (sum_list ?ds / real (length pairs)) (percentile ?ms (25 / 1000)) (percentile ?ms (975 / 1000))"
    using assms(1,2) by (simp add: paired_bootstrap_def Let_def)
  ultimately show ?thesis by blast
qed

section \<open>The Wilson interval\<close>

lemma clamp01_mono: "x \<le> y \<Longrightarrow> clamp01 x \<le> clamp01 y"
  by (simp add: clamp01_def)

lemma clamp01_id: "0 \<le> x \<Longrightarrow> x \<le> 1 \<Longrightarrow> clamp01 x = x"
  by (simp add: clamp01_def)

text \<open>The centre is off the rate by less than the half width.\<close>

lemma wilson_centre:
  fixes p n z :: real
  assumes "0 \<le> p" "p \<le> 1" "0 < n" "0 < z"
  shows "\<bar>(p + z * z / (2 * n)) / (1 + z * z / n) - p\<bar> \<le> z * sqrt (p * (1 - p) / n + z * z / (4 * n * n)) / (1 + z * z / n)"
proof -
  define a where "a = z * z / (2 * n)"
  have a: "0 < a" using assms by (simp add: a_def)
  have denom: "1 + z * z / n = 1 + 2 * a" by (simp add: a_def)
  have off: "(p + a) / (1 + 2 * a) - p = a * (1 - 2 * p) / (1 + 2 * a)" using a by (simp add: field_simps)
  have width: "z * sqrt (p * (1 - p) / n + z * z / (4 * n * n)) = sqrt (2 * a * (p * (1 - p)) + a * a)"
  proof -
    have "z * sqrt (p * (1 - p) / n + z * z / (4 * n * n)) = sqrt (z * z * (p * (1 - p) / n + z * z / (4 * n * n)))"
      using assms by (simp add: real_sqrt_mult)
    also have "z * z * (p * (1 - p) / n + z * z / (4 * n * n)) = 2 * a * (p * (1 - p)) + a * a"
      using assms by (simp add: a_def field_simps)
    finally show ?thesis .
  qed
  have "0 \<le> p * (1 - p)" using assms by simp
  moreover have "0 \<le> 4 * a * a + 2 * a" using a by simp
  ultimately have "0 \<le> (4 * a * a + 2 * a) * (p * (1 - p))" by (rule mult_nonneg_nonneg[rotated])
  then have "(a * (1 - 2 * p))\<^sup>2 \<le> 2 * a * (p * (1 - p)) + a * a" by (simp add: power2_eq_square algebra_simps)
  then have "\<bar>a * (1 - 2 * p)\<bar> \<le> sqrt (2 * a * (p * (1 - p)) + a * a)" by (intro real_le_rsqrt) (simp only: power2_abs)
  then have "\<bar>a * (1 - 2 * p)\<bar> / (1 + 2 * a) \<le> sqrt (2 * a * (p * (1 - p)) + a * a) / (1 + 2 * a)"
    using a by (intro divide_right_mono) auto
  then show ?thesis unfolding width[symmetric] denom a_def[symmetric] off using a by (simp add: abs_mult)
qed

text \<open>the interval holds the pass rate, lies in the unit interval and is never a point.\<close>

theorem wilson_brackets:
  assumes "0 < trials" "passed \<le> trials"
  shows "\<exists>lo hi. wilson_ci passed trials = (real passed / real trials, lo, hi)
    \<and> 0 \<le> lo \<and> lo \<le> real passed / real trials \<and> real passed / real trials \<le> hi \<and> hi \<le> 1 \<and> lo < hi"
proof -
  define p n z where "p = real passed / real trials" and "n = real trials" and "z = (196 / 100 :: real)"
  define c d where "c = (p + z * z / (2 * n)) / (1 + z * z / n)"
    and "d = z * sqrt (p * (1 - p) / n + z * z / (4 * n * n)) / (1 + z * z / n)"
  have p: "0 \<le> p" "p \<le> 1" "0 < n" "0 < z" using assms by (simp_all add: p_def n_def z_def)
  have off: "\<bar>c - p\<bar> \<le> d" unfolding c_def d_def by (rule wilson_centre[OF p])
  define t where "t = z * z / (2 * n)"
  have t: "0 < t" "z * z / n = 2 * t" using p by (simp_all add: t_def)
  have "c = (p + t) / (1 + 2 * t)" unfolding c_def t(2) t_def[symmetric] ..
  moreover have "0 < 1 + 2 * t" "0 < p + t" "p + t < 1 + 2 * t" using p t(1) by linarith+
  ultimately have c: "0 < c" "c < 1" by (simp_all add: divide_less_eq)
  have d: "0 < d" using p unfolding d_def by (auto intro!: divide_pos_pos mult_pos_pos add_nonneg_pos add_pos_nonneg[OF zero_less_one])
  have w: "wilson_ci passed trials = (clamp01 p, clamp01 (c - d), clamp01 (c + d))"
    using assms(1) by (simp add: wilson_ci_def Let_def p_def n_def z_def c_def d_def)
  have "clamp01 (c - d) \<le> clamp01 p" "clamp01 p \<le> clamp01 (c + d)" using off by (auto intro!: clamp01_mono)
  moreover have "clamp01 (c - d) < clamp01 (c + d)" using c d by (auto simp: clamp01_def)
  ultimately show ?thesis
    using w clamp01_id[OF p(1,2)] unfolding p_def[symmetric] by (auto simp: clamp01_def)
qed

theorem wilson_brackets_witness: "\<exists>lo hi. wilson_ci 45 89 = (45 / 89, lo, hi) \<and> 0 \<le> lo \<and> lo < hi \<and> hi \<le> 1"
  using wilson_brackets[of 89 45] by auto

theorem bootstrap_brackets_witness:
  "\<exists>lo hi. paired_bootstrap [(1, 0), (0, 1), (1, 0), (1, 0)] 10000 42 = Interval (1 / 2) lo hi
    \<and> - 1 \<le> lo \<and> lo \<le> hi \<and> hi \<le> 1"
  using bootstrap_brackets[of "[(1, 0), (0, 1), (1, 0), (1, 0)]" 10000 "- 1" 1 42] by simp

section \<open>Published rates\<close>

lemma sum_list_eq_length: "(\<forall>x \<in> set xs. x \<le> (1 :: real)) \<Longrightarrow> sum_list xs = real (length xs) \<longleftrightarrow> (\<forall>x \<in> set xs. x = 1)"
proof (induction xs)
  case (Cons x xs)
  have "sum_list xs \<le> real (length xs)"
    using Cons.prems sum_list_mono[of xs "\<lambda>x. x" "\<lambda>_. 1"] by (simp add: sum_list_triv)
  then show ?case using Cons by auto
qed simp

lemma mean_unit:
  assumes "xs \<noteq> []" "\<forall>x \<in> set xs. 0 \<le> x \<and> x \<le> (1 :: real)"
  shows "0 \<le> sum_list xs / real (length xs)" "sum_list xs / real (length xs) \<le> 1"
    "sum_list xs / real (length xs) = 1 \<longleftrightarrow> (\<forall>x \<in> set xs. x = 1)"
    "sum_list xs / real (length xs) = 0 \<longleftrightarrow> (\<forall>x \<in> set xs. x = 0)"
proof -
  have len: "0 < real (length xs)" using assms(1) by simp
  show "0 \<le> sum_list xs / real (length xs)" using assms(2) len by (intro divide_nonneg_pos sum_list_nonneg) auto
  have "sum_list xs \<le> real (length xs)"
    using assms(2) sum_list_mono[of xs "\<lambda>x. x" "\<lambda>_. 1"] by (simp add: sum_list_triv)
  then show "sum_list xs / real (length xs) \<le> 1" using len by simp
  show "sum_list xs / real (length xs) = 1 \<longleftrightarrow> (\<forall>x \<in> set xs. x = 1)"
    using sum_list_eq_length[of xs] assms(2) len by auto
  show "sum_list xs / real (length xs) = 0 \<longleftrightarrow> (\<forall>x \<in> set xs. x = 0)"
    using sum_list_nonneg_eq_0_iff[of xs] assms(2) len by auto
qed

definition measured :: "matched_pair list \<Rightarrow> bool" where
  "measured pairs \<longleftrightarrow> (\<forall>p \<in> set pairs. cr_reps (mp_control p) \<noteq> [] \<and> cr_reps (mp_treatment p) \<noteq> [])"

definition unit_scores :: "(matched_pair \<Rightarrow> cell_reps) \<Rightarrow> matched_pair list \<Rightarrow> bool" where
  "unit_scores side pairs \<longleftrightarrow> (\<forall>p \<in> set pairs. \<forall>x \<in> set (cr_reps (side p)). 0 \<le> x \<and> x \<le> 1)"

definition all_scores :: "real \<Rightarrow> (matched_pair \<Rightarrow> cell_reps) \<Rightarrow> matched_pair list \<Rightarrow> bool" where
  "all_scores v side pairs \<longleftrightarrow> (\<forall>p \<in> set pairs. \<forall>x \<in> set (cr_reps (side p)). x = v)"

lemma arm_rate_unit:
  assumes "pairs \<noteq> []" "\<forall>p \<in> set pairs. cr_reps (side p) \<noteq> []" "unit_scores side pairs"
  shows "0 \<le> arm_rate side pairs" "arm_rate side pairs \<le> 1"
    "arm_rate side pairs = 1 \<longleftrightarrow> all_scores 1 side pairs" "arm_rate side pairs = 0 \<longleftrightarrow> all_scores 0 side pairs"
proof -
  have cell: "0 \<le> rep_mean (side p) \<and> rep_mean (side p) \<le> 1
      \<and> (rep_mean (side p) = 1 \<longleftrightarrow> (\<forall>x \<in> set (cr_reps (side p)). x = 1))
      \<and> (rep_mean (side p) = 0 \<longleftrightarrow> (\<forall>x \<in> set (cr_reps (side p)). x = 0))" if "p \<in> set pairs" for p
    using mean_unit[of "cr_reps (side p)"] assms(2,3) that by (simp add: rep_mean_def unit_scores_def)
  let ?ms = "map (\<lambda>p. rep_mean (side p)) pairs"
  have ms: "?ms \<noteq> []" "\<forall>x \<in> set ?ms. 0 \<le> x \<and> x \<le> 1" using assms(1) cell by auto
  have rate: "arm_rate side pairs = sum_list ?ms / real (length ?ms)" by (simp add: arm_rate_def)
  show "0 \<le> arm_rate side pairs" "arm_rate side pairs \<le> 1"
    unfolding rate by (rule mean_unit(1)[OF ms], rule mean_unit(2)[OF ms])
  show "arm_rate side pairs = 1 \<longleftrightarrow> all_scores 1 side pairs" "arm_rate side pairs = 0 \<longleftrightarrow> all_scores 0 side pairs"
    unfolding rate mean_unit(3)[OF ms] mean_unit(4)[OF ms] all_scores_def using cell by auto
qed

lemma filter_all_length: "length (filter P xs) = length xs \<longleftrightarrow> (\<forall>x \<in> set xs. P x)"
proof (induction xs)
  case (Cons x xs)
  have "length (filter P xs) \<noteq> Suc (length xs)" using length_filter_le[of P xs] by linarith
  then show ?case using Cons by auto
qed simp

lemma eligible_all:
  "length (filter (\<lambda>p. cr_reps (mp_control p) \<noteq> [] \<and> cr_reps (mp_treatment p) \<noteq> []) pairs) = length pairs \<longleftrightarrow> measured pairs"
  unfolding measured_def by (rule filter_all_length)

text \<open>both rates are withheld unless no pair is blocked, there is a pair and every
  cell was measured; published rates are in the unit interval, the lift is their difference, and a saturation flag
  is raised exactly when every single score of that arm is 1, or 0.\<close>

theorem rates_are_withheld_or_measured:
  assumes "unit_scores mp_control pairs" "unit_scores mp_treatment pairs"
  shows "let r = from_pairs pairs blocked; published = (blocked = 0 \<and> pairs \<noteq> [] \<and> measured pairs) in
    (\<not> published \<longrightarrow> cm_control_rate r = None \<and> cm_treatment_rate r = None \<and> cm_lift r = None \<and> set (cm_flags r) \<subseteq> {Flaky})
    \<and> (published \<longrightarrow> (\<exists>c t. cm_control_rate r = Some c \<and> cm_treatment_rate r = Some t \<and> cm_lift r = Some (t - c)
         \<and> 0 \<le> c \<and> c \<le> 1 \<and> 0 \<le> t \<and> t \<le> 1
         \<and> (ControlSaturatedPass \<in> set (cm_flags r) \<longleftrightarrow> all_scores 1 mp_control pairs)
         \<and> (ControlSaturatedFail \<in> set (cm_flags r) \<longleftrightarrow> all_scores 0 mp_control pairs)
         \<and> (TreatmentSaturatedPass \<in> set (cm_flags r) \<longleftrightarrow> all_scores 1 mp_treatment pairs)
         \<and> (TreatmentSaturatedFail \<in> set (cm_flags r) \<longleftrightarrow> all_scores 0 mp_treatment pairs)))"
proof (cases "blocked = 0 \<and> pairs \<noteq> [] \<and> measured pairs")
  case False
  then show ?thesis by (auto simp: from_pairs_def Let_def eligible_all)
next
  case True
  then have control: "\<forall>p \<in> set pairs. cr_reps (mp_control p) \<noteq> []" and treatment: "\<forall>p \<in> set pairs. cr_reps (mp_treatment p) \<noteq> []"
    by (auto simp: measured_def)
  have elig: "length (filter (\<lambda>p. cr_reps (mp_control p) \<noteq> [] \<and> cr_reps (mp_treatment p) \<noteq> []) pairs) = length pairs"
    using True eligible_all by blast
  show ?thesis
    using arm_rate_unit[OF _ control assms(1)] arm_rate_unit[OF _ treatment assms(2)] True
    by (simp add: from_pairs_def Let_def elig)
qed

theorem rates_are_withheld_or_measured_witness:
  "let pair = \<lparr>mp_control = \<lparr>cr_task = ''t'', cr_reps = [1, 1]\<rparr>, mp_treatment = \<lparr>cr_task = ''t'', cr_reps = [1 / 2, 1]\<rparr>\<rparr>
   in ControlSaturatedPass \<in> set (cm_flags (from_pairs [pair] 0)) \<and> cm_lift (from_pairs [pair] 1) = None"
proof -
  define pair where "pair = \<lparr>mp_control = \<lparr>cr_task = ''t'', cr_reps = [1, 1 :: real]\<rparr>,
    mp_treatment = \<lparr>cr_task = ''t'', cr_reps = [1 / 2, 1 :: real]\<rparr>\<rparr>"
  have units: "unit_scores mp_control [pair]" "unit_scores mp_treatment [pair]" by (simp_all add: unit_scores_def pair_def)
  have "measured [pair]" "all_scores 1 mp_control [pair]" by (simp_all add: measured_def all_scores_def pair_def)
  then have "ControlSaturatedPass \<in> set (cm_flags (from_pairs [pair] 0))" "cm_lift (from_pairs [pair] 1) = None"
    using rates_are_withheld_or_measured[OF units, of 0] rates_are_withheld_or_measured[OF units, of 1]
    by (auto simp: Let_def)
  then show ?thesis by (simp add: pair_def)
qed

end
