(* ===== verification/Eval.thy ===== *)
theory Eval
  imports Snapshot Stats "HOL-Library.Code_Target_Numeral"
begin

text \<open>
  The evaluation crate, \<open>crates/eval/src/{oracle,report,slices,engine}.rs\<close>: the oracles that turn a log or a reward into a verdict, the per-instance report read from an
  event dump, and the loaders of the task slices. An \<open>f64\<close> is a real. The JSON parser and printer, the
  decoder of an event and the hasher are arguments; the file system is \<open>slice_fs\<close>, and starting a process
  is an operation on the world.
\<close>

section \<open>Oracles\<close>

datatype verdict = Resolved | Unresolved | ErrorNoReport | EmptyPatch | InfraFailure | Ambiguous

text \<open>\<open>to_uppercase\<close>: the ASCII letters, and the scalars whose upper case holds an ASCII letter; the
  others are left, no test of the code can see them.\<close>

definition upper_byte :: "char \<Rightarrow> char" where
  "upper_byte c = (if 97 \<le> byte c \<and> byte c \<le> 122 then char_of (byte c - 32) else c)"

definition special_upper :: "(nat list \<times> string) list" where
  "special_upper =
     [([195, 159], ''SS''), ([196, 177], ''I''), ([197, 137], [CHR 0xCA, CHR 0xBC, CHR ''N'']), ([197, 191], ''S''),
      ([199, 176], [CHR ''J'', CHR 0xCC, CHR 0x8C]), ([225, 186, 150], [CHR ''H'', CHR 0xCC, CHR 0xB1]),
      ([225, 186, 151], [CHR ''T'', CHR 0xCC, CHR 0x88]), ([225, 186, 152], [CHR ''W'', CHR 0xCC, CHR 0x8A]),
      ([225, 186, 153], [CHR ''Y'', CHR 0xCC, CHR 0x8A]), ([225, 186, 154], [CHR ''A'', CHR 0xCA, CHR 0xBE]),
      ([239, 172, 128], ''FF''), ([239, 172, 129], ''FI''), ([239, 172, 130], ''FL''), ([239, 172, 131], ''FFI''),
      ([239, 172, 132], ''FFL''), ([239, 172, 133], ''ST''), ([239, 172, 134], ''ST'')]"

definition upper_scalar :: "string \<Rightarrow> string" where
  "upper_scalar g = (case map_of special_upper (map byte g) of Some s \<Rightarrow> s | None \<Rightarrow> map upper_byte g)"

definition to_uppercase :: "string \<Rightarrow> string" where
  "to_uppercase s = concat (map upper_scalar (uchars s))"

definition taxonomy_mark :: "string \<Rightarrow> verdict option" where
  "taxonomy_mark lg =
     (let up = to_uppercase lg in
      if str_contains up ''INFRA'' \<or> str_contains up ''CONTAINER FAILED'' then Some InfraFailure
      else if trim lg = [] then Some ErrorNoReport
      else if str_contains up ''EMPTY_PATCH'' \<or> str_contains up ''EMPTY PATCH'' then Some EmptyPatch
      else if str_contains up ''AMBIGUOUS'' then Some Ambiguous
      else None)"

definition swe_test_status :: "string \<Rightarrow> string \<Rightarrow> bool option" where
  "swe_test_status lg test =
     (let rows = map trim (str_lines lg) in
      if ''FAIL '' @ test \<in> set rows then Some False
      else if ''PASS '' @ test \<in> set rows then Some True
      else None)"

definition check_swe_results :: "string list \<Rightarrow> string list \<Rightarrow> string \<Rightarrow> verdict" where
  "check_swe_results fail_to_pass pass_to_pass lg =
     (case taxonomy_mark lg of
        Some v \<Rightarrow> v
      | None \<Rightarrow>
          if fail_to_pass = [] then Ambiguous
          else if list_all (\<lambda>t. swe_test_status lg t = Some True) fail_to_pass
            \<and> list_all (\<lambda>t. swe_test_status lg t \<noteq> Some False) pass_to_pass
          then Resolved else Unresolved)"

datatype apply_mode = Strict | Lenient

record apply_outcome =
  ap_applied :: bool
  ap_mode :: apply_mode
  ap_detail :: string

text \<open>A child process: the program, its arguments, its directory and its standard input, if piped; the
  answer is the failure to start or wait, or the exit with both streams.\<close>

record 'w proc_ops =
  op_run :: "string \<Rightarrow> string list \<Rightarrow> path \<Rightarrow> string option \<Rightarrow> 'w \<Rightarrow> (string + git_out) \<times> 'w"

definition run_applier :: "('w, 'm) proc_ops_scheme \<Rightarrow> string \<Rightarrow> string list \<Rightarrow> path \<Rightarrow> string \<Rightarrow> 'w \<Rightarrow>
    (string + git_out) \<times> 'w" where
  "run_applier po program args workdir ptext w = op_run po program args workdir (Some ptext) w"

definition apply_patch_with_mode :: "('w, 'm) proc_ops_scheme \<Rightarrow> path \<Rightarrow> string \<Rightarrow> apply_mode \<Rightarrow> 'w \<Rightarrow>
    (string + apply_outcome) \<times> 'w" where
  "apply_patch_with_mode po workdir ptext mode w =
     (if trim ptext = [] then (Inr \<lparr>ap_applied = False, ap_mode = mode, ap_detail = ''empty patch''\<rparr>, w)
      else case run_applier po ''git'' [''apply'', ''-''] workdir ptext w of
        (Inl e, w1) \<Rightarrow> (Inl e, w1)
      | (Inr g, w1) \<Rightarrow>
          if go_success g then (Inr \<lparr>ap_applied = True, ap_mode = mode, ap_detail = []\<rparr>, w1)
          else
            let git_stderr = utf8_lossy (go_stderr g) in
            if mode = Strict then (Inr \<lparr>ap_applied = False, ap_mode = mode, ap_detail = git_stderr\<rparr>, w1)
            else case run_applier po ''patch'' [''--batch'', ''--fuzz=5'', ''-p1''] workdir ptext w1 of
              (Inl e, w2) \<Rightarrow> (Inl e, w2)
            | (Inr f, w2) \<Rightarrow>
                if go_success f then (Inr \<lparr>ap_applied = True, ap_mode = mode, ap_detail = git_stderr\<rparr>, w2)
                else
                  let e = utf8_lossy (go_stderr f)
                  in (Inr \<lparr>ap_applied = False, ap_mode = mode,
                      ap_detail = (if e = [] then git_stderr
                        else (if git_stderr = [] then [] else git_stderr @ newline) @ e)\<rparr>, w2))"

definition apply_patch_strict :: "('w, 'm) proc_ops_scheme \<Rightarrow> path \<Rightarrow> string \<Rightarrow> 'w \<Rightarrow> (string + bool) \<times> 'w" where
  "apply_patch_strict po workdir ptext w =
     (case apply_patch_with_mode po workdir ptext Strict w of (r, w') \<Rightarrow> (map_sum id ap_applied r, w'))"

definition run_eval_sh :: "('w, 'm) proc_ops_scheme \<Rightarrow> path \<Rightarrow> 'w \<Rightarrow> (string + string) \<times> 'w" where
  "run_eval_sh po workdir w =
     (case op_run po ''sh'' [''eval.sh''] workdir None w of
        (r, w') \<Rightarrow> (map_sum id (\<lambda>oc. utf8_lossy (go_stdout oc) @ utf8_lossy (go_stderr oc)) r, w'))"

definition eq_ignore_case :: "string \<Rightarrow> string \<Rightarrow> bool" where
  "eq_ignore_case a b \<longleftrightarrow> map lower_byte a = map lower_byte b"

text \<open>What one of the keys says: a verdict, or nothing to go by.\<close>

definition reward_field :: "json option \<Rightarrow> verdict option" where
  "reward_field v =
     (case v of
        Some (JBool b) \<Rightarrow> Some (if b then Resolved else Unresolved)
      | Some (JInt n) \<Rightarrow> Some (if 0 < n then Resolved else Unresolved)
      | Some (JFloat x) \<Rightarrow> Some (if 0 < x then Resolved else Unresolved)
      | Some (JStr s) \<Rightarrow>
          if eq_ignore_case s ''pass'' \<or> s = ''1'' then Some Resolved
          else if eq_ignore_case s ''fail'' \<or> s = ''0'' then Some Unresolved
          else None
      | _ \<Rightarrow> None)"

fun first_field :: "json \<Rightarrow> string list \<Rightarrow> verdict option" where
  "first_field v [] = None"
| "first_field v (k # ks) = (case reward_field (json_get k v) of Some r \<Rightarrow> Some r | None \<Rightarrow> first_field v ks)"

definition reward_json :: "json \<Rightarrow> verdict option" where
  "reward_json v = first_field v [''reward'', ''passed'', ''pass'']"

definition reward_words :: "string \<Rightarrow> verdict" where
  "reward_words t =
     (let s = map lower_byte t in
      if s \<in> {''1'', ''pass'', ''passed'', ''true'', ''resolved''} then Resolved
      else if s \<in> {''0'', ''fail'', ''failed'', ''false'', ''unresolved''} then Unresolved
      else Ambiguous)"

definition tb_reward :: "(string \<Rightarrow> json option) \<Rightarrow> string \<Rightarrow> verdict" where
  "tb_reward parse_json raw =
     (case taxonomy_mark raw of
        Some v \<Rightarrow> v
      | None \<Rightarrow>
          let t = trim raw in
          if prefix ''{'' t
          then (case Option.bind (parse_json t) reward_json of Some v \<Rightarrow> v | None \<Rightarrow> Ambiguous)
          else reward_words t)"

definition check_tb_reward :: "('w, 'm) tool_fs_scheme \<Rightarrow> (string \<Rightarrow> json option) \<Rightarrow> path \<Rightarrow> 'w \<Rightarrow> string + verdict" where
  "check_tb_reward f parse_json p w = map_sum id (tb_reward parse_json) (tf_read_text f p w)"

section \<open>Slices\<close>

record instance_spec =
  is_id :: string
  is_instruction :: string
  is_image :: string
  is_oracle :: string
  is_tests :: "string list"
  is_timeout_secs :: u64

definition DEFAULT_TIMEOUT_SECS :: u64 where "DEFAULT_TIMEOUT_SECS = 1800"

definition split_once :: "char \<Rightarrow> string \<Rightarrow> (string \<times> string) option" where
  "split_once d s = (if d \<in> set s then Some (takeWhile (\<lambda>c. c \<noteq> d) s, tl (dropWhile (\<lambda>c. c \<noteq> d) s)) else None)"

definition trim_matches :: "char list \<Rightarrow> string \<Rightarrow> string" where
  "trim_matches cs s = rev (dropWhile (\<lambda>c. c \<in> set cs) (rev (dropWhile (\<lambda>c. c \<in> set cs) s)))"

definition QUOTES :: "char list" where "QUOTES = [CHR 0x22, CHR 0x27]"

fun toml_lines :: "(string \<Rightarrow> 'a option) \<Rightarrow> string list \<Rightarrow> string list \<Rightarrow> 'a option" where
  "toml_lines f keys [] = None"
| "toml_lines f keys (l # ls) =
     (case split_once (CHR ''='') l of
        None \<Rightarrow> toml_lines f keys ls
      | Some (k, v) \<Rightarrow>
          if trim k \<in> set keys
          then (case f v of Some r \<Rightarrow> Some r | None \<Rightarrow> toml_lines f keys ls)
          else toml_lines f keys ls)"

definition toml_str :: "string \<Rightarrow> string list \<Rightarrow> string" where
  "toml_str toml keys =
     (case toml_lines (\<lambda>v. Some (trim_matches QUOTES (trim v))) keys (str_lines toml) of
        Some s \<Rightarrow> s | None \<Rightarrow> [])"

text \<open>\<open>parse::<f64>\<close>: a sign, then digits with at most one point and at least one digit, then an exponent; or
  a spelling of infinity or not-a-number. A finite value is the exact real.\<close>

datatype f64_value = Finite real | NotFinite

definition digits_of :: "string \<Rightarrow> nat option" where
  "digits_of s = (if list_all is_digit s then Some (foldl (\<lambda>n c. 10 * n + (byte c - 48)) 0 s) else None)"

definition parse_mantissa :: "string \<Rightarrow> real option" where
  "parse_mantissa s =
     (let (a, b) = (case split_once (CHR ''.'') s of Some ab \<Rightarrow> ab | None \<Rightarrow> (s, []))
      in if a = [] \<and> b = [] then None
         else map_option (\<lambda>n. real n / 10 ^ length b) (digits_of (a @ b)))"

definition parse_exponent :: "string \<Rightarrow> int option" where
  "parse_exponent s =
     (case digits_value (if prefix ''+'' s \<or> prefix ''-'' s then drop 1 s else s) of
        None \<Rightarrow> None
      | Some n \<Rightarrow> Some (if prefix ''-'' s then - int n else int n))"

definition parse_unsigned :: "string \<Rightarrow> f64_value option" where
  "parse_unsigned s =
     (if map lower_byte s \<in> {''inf'', ''infinity'', ''nan''} then Some NotFinite
      else
        let m = takeWhile (\<lambda>c. c \<noteq> CHR ''e'' \<and> c \<noteq> CHR ''E'') s;
            e = drop (length m) s
        in case (parse_mantissa m, if e = [] then Some 0 else parse_exponent (tl e)) of
             (Some x, Some k) \<Rightarrow> Some (Finite (x * (if 0 \<le> k then 10 ^ nat k else 1 / 10 ^ nat (- k))))
           | _ \<Rightarrow> None)"

definition parse_f64 :: "string \<Rightarrow> f64_value option" where
  "parse_f64 s =
     (if prefix ''-'' s
      then map_option (\<lambda>v. case v of Finite x \<Rightarrow> Finite (- x) | NotFinite \<Rightarrow> NotFinite) (parse_unsigned (drop 1 s))
      else parse_unsigned (if prefix ''+'' s then drop 1 s else s))"

definition f64_to_u64 :: "real \<Rightarrow> u64" where
  "f64_to_u64 x = min (nat \<lfloor>x\<rfloor>) U64_MAX"

definition int_token :: "string \<Rightarrow> u64 option" where
  "int_token v =
     (let token = trim (trim_matches QUOTES (trim v)) in
      case parse_u64 token of
        Some n \<Rightarrow> Some n
      | None \<Rightarrow>
          (case parse_f64 token of
             Some (Finite x) \<Rightarrow> if 0 \<le> x then Some (f64_to_u64 x) else parse_u64 (filter is_digit v)
           | _ \<Rightarrow> parse_u64 (filter is_digit v)))"

definition toml_int :: "string \<Rightarrow> string list \<Rightarrow> u64 option" where
  "toml_int toml keys = toml_lines int_token keys (str_lines toml)"

text \<open>A directory is read as its entries: an entry, or its type, may be unreadable.\<close>

record 'w slice_fs = "'w tool_fs" +
  sf_list :: "path \<Rightarrow> 'w \<Rightarrow> string + (string + string \<times> (string + bool)) list"

fun task_names :: "string list \<Rightarrow> (string + string \<times> (string + bool)) list \<Rightarrow> string + string list" where
  "task_names ids [] = Inr []"
| "task_names ids (e # es) =
     (case e of
        Inl err \<Rightarrow> Inl err
      | Inr (name, Inl err) \<Rightarrow> Inl err
      | Inr (name, Inr is_dir) \<Rightarrow>
          try_then (task_names ids es) (\<lambda>ns.
            Inr (if is_dir \<and> (ids = [] \<or> name \<in> set ids) then name # ns else ns)))"

definition text_or_empty :: "('w, 'm) tool_fs_scheme \<Rightarrow> path \<Rightarrow> 'w \<Rightarrow> string" where
  "text_or_empty f p w = (case tf_read_text f p w of Inr s \<Rightarrow> s | Inl _ \<Rightarrow> [])"

definition listed_names :: "('w, 'm) slice_fs_scheme \<Rightarrow> path \<Rightarrow> 'w \<Rightarrow> string list" where
  "listed_names f p w =
     (case sf_list f p w of
        Inl _ \<Rightarrow> []
      | Inr es \<Rightarrow> sort (List.map_filter (\<lambda>e. case e of Inr (n, _) \<Rightarrow> Some n | Inl _ \<Rightarrow> None) es))"

definition tb_task :: "('w, 'm) slice_fs_scheme \<Rightarrow> path \<Rightarrow> 'w \<Rightarrow> string \<Rightarrow> instance_spec" where
  "tb_task f dir w name =
     (let task = join_path dir [Normal name];
          toml = text_or_empty f (join_path task [Normal ''task.toml'']) w;
          image = toml_str toml [''image'']
      in \<lparr>is_id = name,
          is_instruction = text_or_empty f (join_path task [Normal ''instruction.md'']) w,
          is_image = (if image = [] then toml_str toml [''docker_image''] else image),
          is_oracle = text_or_empty f (join_path task [Normal ''solution'', Normal ''solve.sh'']) w,
          is_tests = listed_names f (join_path task [Normal ''tests'']) w,
          is_timeout_secs = (case toml_int toml [''timeout'', ''timeout_secs'', ''time_limit''] of
             Some n \<Rightarrow> n | None \<Rightarrow> DEFAULT_TIMEOUT_SECS)\<rparr>)"

definition load_tb_slice :: "('w, 'm) slice_fs_scheme \<Rightarrow> path \<Rightarrow> string list \<Rightarrow> 'w \<Rightarrow> string + instance_spec list" where
  "load_tb_slice f dir ids w =
     try_then (sf_list f dir w) (\<lambda>es.
     try_then (task_names ids es) (\<lambda>names. Inr (map (tb_task f dir w) (sort names))))"

definition preflight :: "instance_spec list \<Rightarrow> string list" where
  "preflight instances =
     map is_id (filter (\<lambda>i. trim (is_oracle i) = [] \<or> is_tests i = [] \<or> trim (is_image i) = [] \<or> is_timeout_secs i = 0)
       instances)"

record swe_instance =
  sw_id :: string
  sw_repo :: string
  sw_fail_to_pass :: "string list"
  sw_pass_to_pass :: "string list"
  sw_test_patch :: string

fun str_field :: "json \<Rightarrow> string list \<Rightarrow> string" where
  "str_field v [] = []"
| "str_field v (k # ks) =
     (case Option.bind (json_get k v) as_str of Some s \<Rightarrow> s | None \<Rightarrow> str_field v ks)"

fun all_strings :: "json list \<Rightarrow> string list option" where
  "all_strings [] = Some []"
| "all_strings (j # js) = (case (j, all_strings js) of (JStr s, Some ss) \<Rightarrow> Some (s # ss) | _ \<Rightarrow> None)"

definition loose_list :: "(string \<Rightarrow> json option) \<Rightarrow> string \<Rightarrow> string list" where
  "loose_list parse_json s =
     (let t = trim s;
          fixed = map (\<lambda>c. if c = CHR 0x27 then CHR 0x22 else c) t;
          parsed = (if prefix ''['' t
             then (case parse_json fixed of Some (JArr js) \<Rightarrow> all_strings js | _ \<Rightarrow> None) else None)
      in case parsed of
           Some ss \<Rightarrow> ss
         | None \<Rightarrow> filter (\<lambda>p. p \<noteq> [])
             (map (\<lambda>p. trim_matches QUOTES (trim p)) (split_on (CHR '','') (trim_matches ''[]'' t))))"

fun str_list :: "(string \<Rightarrow> json option) \<Rightarrow> json \<Rightarrow> string list \<Rightarrow> string list" where
  "str_list parse_json v [] = []"
| "str_list parse_json v (k # ks) =
     (case json_get k v of
        Some (JArr js) \<Rightarrow> List.map_filter as_str js
      | Some (JStr s) \<Rightarrow> loose_list parse_json s
      | _ \<Rightarrow> str_list parse_json v ks)"

definition swe_row :: "(string \<Rightarrow> json option) \<Rightarrow> (json \<Rightarrow> string) \<Rightarrow> json \<Rightarrow> swe_instance" where
  "swe_row parse_json print_json v =
     (let id0 = str_field v [''instance_id'', ''instance'', ''id''];
          org = str_field v [''org''];
          repo = str_field v [''repo''];
          num = (case json_get ''number'' v of Some n \<Rightarrow> print_json n | None \<Rightarrow> [])
      in \<lparr>sw_id = (if id0 = [] \<and> repo \<noteq> [] then org @ ''__'' @ repo @ ''-'' @ num else id0),
          sw_repo = (if repo = [] then org else repo),
          sw_fail_to_pass = str_list parse_json v [''FAIL_TO_PASS'', ''fail_to_pass''],
          sw_pass_to_pass = str_list parse_json v [''PASS_TO_PASS'', ''pass_to_pass''],
          sw_test_patch = str_field v [''test_patch'', ''test_patch_text'', ''fix_patch'', ''patch'']\<rparr>)"

definition swe_rows :: "(string \<Rightarrow> json option) \<Rightarrow> (json \<Rightarrow> string) \<Rightarrow> string list \<Rightarrow> string \<Rightarrow> swe_instance list" where
  "swe_rows parse_json print_json ids text =
     filter (\<lambda>s. ids = [] \<or> sw_id s \<in> set ids)
       (map (swe_row parse_json print_json)
         (List.map_filter parse_json (filter (\<lambda>l. trim l \<noteq> []) (str_lines text))))"

definition load_swe_slice :: "('w, 'm) tool_fs_scheme \<Rightarrow> (string \<Rightarrow> json option) \<Rightarrow> (json \<Rightarrow> string) \<Rightarrow> path \<Rightarrow> string list \<Rightarrow> 'w \<Rightarrow>
    string + swe_instance list" where
  "load_swe_slice f parse_json print_json jsonl ids w =
     map_sum id (swe_rows parse_json print_json ids) (tf_read_text f jsonl w)"

definition slice_path :: "string \<Rightarrow> string \<Rightarrow> path" where
  "slice_path manifest_dir name = join_path (join_path (components manifest_dir) [Normal ''slices'']) (components (name @ ''.json''))"

section \<open>Winnability\<close>

record tool_caps =
  can_create :: bool
  can_patch :: bool
  exec_prefixes :: "string list"

definition CLOSE :: char where "CLOSE = CHR '']''"

definition strip_comment :: "string \<Rightarrow> string" where
  "strip_comment line = (case find_str '' #'' line of Some i \<Rightarrow> trim_end (take i line) | None \<Rightarrow> line)"

text \<open>The scan for the array: its text so far, whether it is open and whether it is complete.\<close>

fun scan_artifacts :: "string list \<Rightarrow> string \<Rightarrow> bool \<Rightarrow> string \<times> bool \<times> bool" where
  "scan_artifacts [] buf opened = (buf, opened, False)"
| "scan_artifacts (raw # rows) buf opened =
     (let line = strip_comment (trim raw) in
      if line = [] \<or> prefix ''#'' line then scan_artifacts rows buf opened
      else if opened
      then
        let buf' = buf @ '' '' @ line
        in if CLOSE \<in> set line then (buf', opened, True) else scan_artifacts rows buf' opened
      else
        (case split_once (CHR ''='') line of
           None \<Rightarrow> scan_artifacts rows buf opened
         | Some (k, v) \<Rightarrow>
             if trim k \<noteq> ''artifacts'' then scan_artifacts rows buf opened
             else
               let buf' = buf @ trim v
               in if CLOSE \<in> set buf' then (buf', opened, True) else scan_artifacts rows buf' True))"

definition strip_suffix :: "string \<Rightarrow> string \<Rightarrow> string option" where
  "strip_suffix x s = (if suffix x s then Some (take (length s - length x) s) else None)"

definition unwrap_quotes :: "char \<Rightarrow> string \<Rightarrow> string option" where
  "unwrap_quotes q e = Option.bind (strip_prefix [q] e) (strip_suffix [q])"

definition bad_entry :: "string \<Rightarrow> string" where
  "bad_entry e = ''task.toml: unparseable artifacts entry '' @ debug_str e"

fun artifact_entries :: "string list \<Rightarrow> string + string list" where
  "artifact_entries [] = Inr []"
| "artifact_entries (raw # rows) =
     (let e = trim raw in
      if e = [] then artifact_entries rows
      else
        case (case unwrap_quotes (CHR 0x22) e of Some s \<Rightarrow> Some s | None \<Rightarrow> unwrap_quotes (CHR 0x27) e) of
          None \<Rightarrow> Inl (bad_entry e)
        | Some inner \<Rightarrow>
            if CHR 0x22 \<in> set inner \<or> CHR 0x27 \<in> set inner then Inl (bad_entry e)
            else try_then (artifact_entries rows) (\<lambda>out. Inr (inner # out)))"

definition task_artifacts :: "string \<Rightarrow> string + string list" where
  "task_artifacts toml =
     (case scan_artifacts (str_lines toml) [] False of
        (buf, opened, shut) \<Rightarrow>
          if opened \<and> \<not> shut then Inl (''task.toml: artifacts array never closed with '' @ SQ @ [CLOSE] @ SQ)
          else if buf = [] then Inr []
          else
            let body = (if CLOSE \<in> set buf then takeWhile (\<lambda>c. c \<noteq> CLOSE) buf @ [CLOSE] else buf)
            in artifact_entries (split_on (CHR '','') (trim_matches ''[]'' (trim body))))"

definition artifact_violations :: "('w, 'm) tool_fs_scheme \<Rightarrow> path \<Rightarrow> tool_caps \<Rightarrow> 'w \<Rightarrow> string \<Rightarrow> string list" where
  "artifact_violations f task_dir caps w a =
     (let rel = (case strip_prefix ''/app/'' a of Some r \<Rightarrow> r | None \<Rightarrow> a);
          seed = join_path (join_path task_dir [Normal ''environment''])
            (components (rev (dropWhile (\<lambda>c. c = SLASH) (rev rel))));
          present = tf_exists f seed w
      in (if present \<and> \<not> can_patch caps then [a @ '': present in seed but no patch tool''] else [])
         @ (if \<not> present \<and> \<not> can_create caps then [a @ '': absent from seed and no write tool''] else []))"

definition check_winnability :: "('w, 'm) slice_fs_scheme \<Rightarrow> path \<Rightarrow> tool_caps \<Rightarrow> 'w \<Rightarrow> string list" where
  "check_winnability f task_dir caps w =
     (case tf_read_text f (join_path task_dir [Normal ''task.toml'']) w of
        Inl e \<Rightarrow> [''task.toml missing or unreadable: '' @ e]
      | Inr toml \<Rightarrow>
          (case task_artifacts toml of
             Inl e \<Rightarrow> [e]
           | Inr artifacts \<Rightarrow> concat (map (artifact_violations f task_dir caps w) artifacts)))
     @ (case sf_list f (join_path task_dir [Normal ''tests'']) w of
          Inr (e # es) \<Rightarrow> [] | _ \<Rightarrow> [''no verifier tests''])
     @ (if tf_exists f (join_path task_dir [Normal ''solution'', Normal ''solve.sh'']) w then [] else [''no oracle solve.sh''])"

section \<open>Reports\<close>

definition APPLY_COMPARABILITY_NOTE :: string where
  "APPLY_COMPARABILITY_NOTE =
     ''Strict-apply grades are not comparable with earlier fuzz-lenient benchmark numbers.''"

record instance_report =
  ir_id :: string
  ir_verdict :: verdict
  ir_tokens_in :: "u64 option"
  ir_tokens_out :: "u64 option"
  ir_dollars :: "real option"
  ir_wall_secs :: u64
  ir_steps :: u32
  ir_halt_reason :: "string option"
  ir_patch_digest :: string
  ir_apply_mode :: apply_mode
  ir_apply_detail :: "string option"

datatype estimand = Ungraded | HarborOracle | InContainerReward

datatype exec_policy_label = LabelAllowlist | LabelAny

datatype budget_shape_label = LabelGross | LabelMissPlusOut

record run_provenance =
  pv_git_sha :: "string option"
  pv_estimand :: estimand
  pv_budget_tokens :: u64
  pv_budget_steps :: u32
  pv_budget_actions :: u32
  pv_budget_shape :: budget_shape_label
  pv_exec_policy :: exec_policy_label
  pv_apply_mode :: apply_mode

record run_report =
  rr_instances :: "instance_report list"
  rr_provenance :: "run_provenance option"

fun sum_tokens :: "u64 \<Rightarrow> instance_report list \<Rightarrow> u64 option" where
  "sum_tokens acc [] = Some acc"
| "sum_tokens acc (r # rs) =
     (case (ir_tokens_in r, ir_tokens_out r) of
        (Some i, Some out) \<Rightarrow> sum_tokens (wrap_add64 (wrap_add64 acc i) out) rs
      | _ \<Rightarrow> None)"

definition tokens_per_solved :: "run_report \<Rightarrow> real option" where
  "tokens_per_solved rep =
     (let solved = length (filter (\<lambda>r. ir_verdict r = Resolved) (rr_instances rep)) in
      if solved = 0 then None
      else map_option (\<lambda>t. real t / real solved) (sum_tokens 0 (rr_instances rep)))"

text \<open>What the loop over the dump carries: the last totals, the steps and the reason of the halt.\<close>

definition read_event :: "usage_report option \<times> u32 \<times> string option \<Rightarrow> agent_event \<Rightarrow>
    usage_report option \<times> u32 \<times> string option" where
  "read_event acc ev =
     (case acc of (totals, n_steps, halt) \<Rightarrow>
        (case ev of
           MessageEnd _ _ _ _ \<Rightarrow> (totals, wrap_add32 n_steps 1, halt)
         | TurnEnd _ _ u \<Rightarrow> (Some u, n_steps, halt)
         | RunEnd oc _ \<Rightarrow>
             (totals, n_steps, case oc of RunFailed r \<Rightarrow> Some r | RunAborted \<Rightarrow> Some ''aborted'' | Passed \<Rightarrow> None)
         | _ \<Rightarrow> (totals, n_steps, halt)))"

fun read_dump :: "(string \<Rightarrow> string + agent_event) \<Rightarrow> usage_report option \<times> u32 \<times> string option \<Rightarrow> string list \<Rightarrow>
    string + (usage_report option \<times> u32 \<times> string option)" where
  "read_dump decode acc [] = Inr acc"
| "read_dump decode acc (l # ls) =
     (if trim l = [] then read_dump decode acc ls
      else try_then (decode l) (\<lambda>ev. read_dump decode (read_event acc ev) ls))"

definition hex16 :: "nat \<Rightarrow> string" where
  "hex16 n = map (\<lambda>i. hex_digit (n div 16 ^ i mod 16)) (rev [0..<16])"

definition patch_digest :: "(string \<Rightarrow> u64) \<Rightarrow> string \<Rightarrow> string" where
  "patch_digest hash ptext = hex16 (hash ptext)"

definition instance_report_with_mode ::
  "('w, 'm) tool_fs_scheme \<Rightarrow> (string \<Rightarrow> string + agent_event) \<Rightarrow> (string \<Rightarrow> u64) \<Rightarrow> string \<Rightarrow> verdict \<Rightarrow> path \<Rightarrow> u64 \<Rightarrow>
   string \<Rightarrow> apply_mode \<Rightarrow> string option \<Rightarrow> 'w \<Rightarrow> string + instance_report" where
  "instance_report_with_mode f decode hash ident v events wall_secs ptext mode detail w =
     try_then (tf_read_text f events w) (\<lambda>text.
     try_then (read_dump decode (None, 0, None) (str_lines text)) (\<lambda>(totals, n_steps, halt).
       Inr \<lparr>ir_id = ident, ir_verdict = v,
            ir_tokens_in = map_option input_tokens totals, ir_tokens_out = map_option output_tokens totals,
            ir_dollars = Option.bind totals cost_usd, ir_wall_secs = wall_secs, ir_steps = n_steps,
            ir_halt_reason = halt, ir_patch_digest = patch_digest hash ptext, ir_apply_mode = mode,
            ir_apply_detail = detail\<rparr>))"

definition report_of_instance ::
  "('w, 'm) tool_fs_scheme \<Rightarrow> (string \<Rightarrow> string + agent_event) \<Rightarrow> (string \<Rightarrow> u64) \<Rightarrow> string \<Rightarrow> verdict \<Rightarrow> path \<Rightarrow> u64 \<Rightarrow>
   string \<Rightarrow> 'w \<Rightarrow> string + instance_report" where
  "report_of_instance f decode hash ident v events wall_secs ptext w =
     instance_report_with_mode f decode hash ident v events wall_secs ptext Strict None w"

section \<open>The engine\<close>

record container_outcome =
  ct_reward :: "bool option"
  ct_logs :: string

definition run_instance :: "('w, 'm) proc_ops_scheme \<Rightarrow> instance_spec \<Rightarrow> path \<Rightarrow> 'w \<Rightarrow> (string + container_outcome) \<times> 'w" where
  "run_instance po inst workdir w =
     (case op_run po ''docker'' [''run'', ''--rm'', ''-v'', path_text workdir @ '':/work'', is_image inst] [] None w of
        (r, w') \<Rightarrow>
          (map_sum id (\<lambda>oc. \<lparr>ct_reward = None,
             ct_logs = utf8_lossy (go_stdout oc) @ utf8_lossy (go_stderr oc)\<rparr>) r, w'))"

lemma digits_of_a_comment: "toml_int ''timeout = 1800 # 2 retries'' [''timeout''] = Some 18002"
  by code_simp

lemma sign_is_lost: "toml_int ''timeout = -5'' [''timeout''] = Some 5"
  by code_simp

lemma passing_test_reads_as_infra: "check_swe_results [''test_infra''] [] ''PASS test_infra'' = InfraFailure"
  by code_simp

section \<open>Verdicts\<close>

text \<open>a log is scored resolved exactly when nothing in it marks an infrastructure
  failure, and every test to be fixed has a PASS row and no FAIL row, and no test to be kept has a FAIL row; a log
  that names an infrastructure failure is never scored, nor is a reward that does.\<close>

theorem capability_needs_evidence:
  "(check_swe_results f2p p2p lg = Resolved \<longleftrightarrow>
      taxonomy_mark lg = None \<and> f2p \<noteq> []
      \<and> (\<forall>t \<in> set f2p. ''PASS '' @ t \<in> set (map trim (str_lines lg)) \<and> ''FAIL '' @ t \<notin> set (map trim (str_lines lg)))
      \<and> (\<forall>t \<in> set p2p. ''FAIL '' @ t \<notin> set (map trim (str_lines lg))))
   \<and> (check_swe_results f2p p2p lg = Unresolved \<longrightarrow> taxonomy_mark lg = None \<and> f2p \<noteq> [])
   \<and> (str_contains (to_uppercase lg) ''INFRA'' \<longrightarrow>
        check_swe_results f2p p2p lg = InfraFailure \<and> tb_reward parse_json lg = InfraFailure)"
proof (intro conjI impI)
  have mark: "taxonomy_mark lg \<noteq> Some Resolved" "taxonomy_mark lg \<noteq> Some Unresolved"
    by (auto simp: taxonomy_mark_def Let_def)
  have status: "swe_test_status lg t = Some True \<longleftrightarrow>
      ''PASS '' @ t \<in> set (map trim (str_lines lg)) \<and> ''FAIL '' @ t \<notin> set (map trim (str_lines lg))"
    "swe_test_status lg t = Some False \<longleftrightarrow> ''FAIL '' @ t \<in> set (map trim (str_lines lg))" for t
    by (auto simp: swe_test_status_def Let_def)
  show "check_swe_results f2p p2p lg = Resolved \<longleftrightarrow>
     taxonomy_mark lg = None \<and> f2p \<noteq> []
     \<and> (\<forall>t \<in> set f2p. ''PASS '' @ t \<in> set (map trim (str_lines lg)) \<and> ''FAIL '' @ t \<notin> set (map trim (str_lines lg)))
     \<and> (\<forall>t \<in> set p2p. ''FAIL '' @ t \<notin> set (map trim (str_lines lg)))"
    using mark by (cases "taxonomy_mark lg") (simp_all add: check_swe_results_def status list_all_iff)
  show "taxonomy_mark lg = None" "f2p \<noteq> []" if "check_swe_results f2p p2p lg = Unresolved"
    using mark that by (cases "taxonomy_mark lg"; auto simp: check_swe_results_def split: if_splits)+
  show "check_swe_results f2p p2p lg = InfraFailure" "tb_reward parse_json lg = InfraFailure"
    if "str_contains (to_uppercase lg) ''INFRA''"
    using that by (simp_all add: taxonomy_mark_def Let_def check_swe_results_def tb_reward_def)
qed

theorem capability_needs_evidence_witness:
  "check_swe_results [''t''] [''k''] ''PASS t'' = Resolved \<and> tb_reward (\<lambda>_. None) ''infra: no network'' = InfraFailure"
proof -
  have "taxonomy_mark ''PASS t'' = None" "map trim (str_lines ''PASS t'') = [''PASS t'']" by code_simp+
  then have "check_swe_results [''t''] [''k''] ''PASS t'' = Resolved"
    using capability_needs_evidence[of "[''t'']" "[''k'']" "''PASS t''"] by simp
  moreover have "str_contains (to_uppercase ''infra: no network'') ''INFRA''" by code_simp
  then have "tb_reward (\<lambda>_. None) ''infra: no network'' = InfraFailure"
    using capability_needs_evidence[of "[]" "[]" "''infra: no network''" "\<lambda>_. None"] by blast
  ultimately show ?thesis ..
qed

section \<open>The artifacts array\<close>

definition ascii :: "string \<Rightarrow> bool" where
  "ascii s \<longleftrightarrow> (\<forall>c \<in> set s. byte c < 128)"

lemma uchars_ascii: "ascii s \<Longrightarrow> uchars s = map (\<lambda>c. [c]) s"
proof (induction s)
  case (Cons c cs)
  have "\<not> is_cont (hd cs)" if "cs \<noteq> []" using Cons.prems that by (cases cs) (auto simp: ascii_def is_cont_def)
  then have "takeWhile is_cont cs = []" "dropWhile is_cont cs = cs" by (cases cs; auto)+
  then show ?case using Cons by (simp add: ascii_def)
qed simp

lemma dropWhile_ws: "dropWhile is_ws (map (\<lambda>c. [c]) s) = map (\<lambda>c. [c]) (dropWhile is_ascii_ws s)"
  by (induction s) (simp_all add: is_ws_def)

lemma ascii_dropWhile: "ascii s \<Longrightarrow> ascii (dropWhile P s)"
  by (auto simp: ascii_def dest: set_dropWhileD)

lemma trim_ascii:
  "ascii s \<Longrightarrow> trim s = rev (dropWhile is_ascii_ws (rev (dropWhile is_ascii_ws s)))"
  by (simp add: trim_def uchars_ascii dropWhile_ws rev_map)

lemma trim_padded:
  assumes "ascii (a @ s @ b)" "\<forall>c \<in> set a. is_ascii_ws c" "\<forall>c \<in> set b. is_ascii_ws c"
    "s = [] \<or> \<not> is_ascii_ws (hd s) \<and> \<not> is_ascii_ws (last s)"
  shows "trim (a @ s @ b) = s"
proof (cases "s = []")
  case True
  then show ?thesis using assms by (simp add: trim_ascii dropWhile_eq_Nil_conv[THEN iffD2])
next
  case False
  then have "\<not> is_ascii_ws (hd s)" "\<not> is_ascii_ws (hd (rev s))" using assms(4) by (auto simp: hd_rev)
  then have "dropWhile is_ascii_ws (s @ b) = s @ b" "dropWhile is_ascii_ws (rev s) = rev s"
    using False by (cases s; cases "rev s"; simp)+
  moreover have "dropWhile is_ascii_ws (rev b @ rev s) = dropWhile is_ascii_ws (rev s)"
    using assms(3) by (intro dropWhile_append2) simp
  moreover have "dropWhile is_ascii_ws (a @ s @ b) = dropWhile is_ascii_ws (s @ b)"
    using assms(2) by (intro dropWhile_append2) simp
  ultimately show ?thesis using assms(1) by (simp add: trim_ascii)
qed

definition plain_char :: "char \<Rightarrow> bool" where
  "plain_char c \<longleftrightarrow> byte c < 128 \<and> c \<notin> set [CHR 0x22, CHR 0x27, CHR '','', CLOSE, CHR ''#'', CHR 0x0A]"

definition quoted :: "string \<Rightarrow> string" where
  "quoted n = DQ @ n @ DQ"

definition artifact_line :: "string list \<Rightarrow> string" where
  "artifact_line names = ''artifacts = ['' @ join '', '' (map quoted names) @ [CLOSE]"

lemma split_on_cons: "d \<notin> set a \<Longrightarrow> split_on d (a @ d # b) = a # split_on d b"
  by (induction a) auto

lemma split_on_single: "d \<notin> set a \<Longrightarrow> split_on d a = [a]"
  by (induction a) auto

lemma str_lines_cons:
  assumes "CHR 0x0A \<notin> set l" "l \<noteq> []" "last l \<noteq> CHR 0x0D"
  shows "str_lines (l @ newline @ rest) = l # str_lines rest"
proof -
  have "split_on (CHR 0x0A) (l @ newline @ rest) = l # split_on (CHR 0x0A) rest"
    using split_on_cons[OF assms(1)] by (simp add: newline_def)
  then show ?thesis using assms(2,3)
    by (cases "split_on (CHR 0x0A) rest") (simp_all add: str_lines_def)
qed

lemma plain_not_comma: "list_all plain_char n \<Longrightarrow> CHR '','' \<notin> set (pad @ quoted n)" if "CHR '','' \<notin> set pad"
  using that by (auto simp: quoted_def DQ_def plain_char_def list_all_iff)

lemma trim_quoted: "list_all plain_char n \<Longrightarrow> set pad \<subseteq> {CHR '' ''} \<Longrightarrow> trim (pad @ quoted n) = quoted n"
  using trim_padded[of pad "quoted n" "[]"]
  by (force simp: ascii_def quoted_def DQ_def plain_char_def list_all_iff is_ascii_ws_def byte_def)

lemma entry_of_quoted:
  assumes "list_all plain_char n" "set pad \<subseteq> {CHR '' ''}"
  shows "artifact_entries ((pad @ quoted n) # rows) = try_then (artifact_entries rows) (\<lambda>out. Inr (n # out))"
proof -
  have "unwrap_quotes (CHR 0x22) (quoted n) = Some n"
    by (simp add: unwrap_quotes_def strip_prefix_def strip_suffix_def quoted_def DQ_def suffix_def)
  moreover have "CHR 0x22 \<notin> set n" "CHR 0x27 \<notin> set n" using assms(1) by (auto simp: plain_char_def list_all_iff)
  ultimately show ?thesis using trim_quoted[OF assms] by (simp add: quoted_def DQ_def)
qed

lemma entries_of_join:
  assumes "list_all (list_all plain_char) (n # ns)" "set pad \<subseteq> {CHR '' ''}"
  shows "artifact_entries (split_on (CHR '','') (pad @ join '', '' (map quoted (n # ns)))) = Inr (n # ns)"
  using assms
proof (induction ns arbitrary: n pad)
  case Nil
  then have "CHR '','' \<notin> set (pad @ quoted n)" by (intro plain_not_comma) auto
  then show ?case using entry_of_quoted[of n pad "[]"] Nil by (simp add: split_on_single del: artifact_entries.simps(2))
next
  case (Cons m ms)
  have "CHR '','' \<notin> set (pad @ quoted n)" using Cons.prems by (intro plain_not_comma) auto
  then have "split_on (CHR '','') (pad @ join '', '' (map quoted (n # m # ms)))
      = (pad @ quoted n) # split_on (CHR '','') ('' '' @ join '', '' (map quoted (m # ms)))"
    using split_on_cons[of "CHR '',''" "pad @ quoted n" "'' '' @ join '', '' (map quoted (m # ms))"] by simp
  then show ?case using entry_of_quoted[of n pad] Cons.IH[of m "'' ''"] Cons.prems
    by (simp del: artifact_entries.simps(2))
qed

lemma byte_literals:
  "byte (CHR 0x22) = 34" "byte CLOSE = 93" "byte (CHR '','') = 44" "byte (CHR '' '') = 32" "byte (CHR ''['') = 91"
  "byte (CHR ''a'') = 97" "CLOSE \<noteq> CHR 0x22" "CLOSE \<noteq> CHR '',''" "CLOSE \<noteq> CHR '' ''"
  by (simp_all add: byte_def CLOSE_def)

lemma scan_one_line:
  assumes "ascii line" "CHR ''#'' \<notin> set line" "line = ''artifacts = '' @ v" "v = ''['' @ m @ [CLOSE]"
  shows "scan_artifacts (line # rows) [] False = (v, False, True)"
proof -
  have ends: "hd v = CHR ''[''" "last v = CLOSE" "v \<noteq> []" by (simp_all add: assms(4))
  have "hd line = CHR ''a''" "last line = CLOSE" using ends by (simp_all add: assms(3))
  then have "trim line = line"
    using trim_padded[of "[]" line "[]"] assms(1) by (simp add: is_ascii_ws_def byte_literals)
  moreover have "find_str '' #'' line = None"
  proof (rule ccontr)
    assume "find_str '' #'' line \<noteq> None"
    then obtain a b where "line = a @ '' #'' @ b" using str_contains_iff[of line "'' #''"] by (auto simp: str_contains_def)
    then show False using assms(2) by simp
  qed
  moreover have "split_once (CHR ''='') line = Some (''artifacts '', '' '' @ v)"
    by (simp add: split_once_def assms(3))
  moreover have "trim ''artifacts '' = ''artifacts''" by code_simp
  moreover have "trim ('' '' @ v) = v"
    using trim_padded[of "'' ''" v "[]"] assms(1) ends
    by (simp add: assms(3) ascii_def is_ascii_ws_def byte_literals)
  moreover have "CLOSE \<in> set v" by (simp add: assms(4))
  ultimately show ?thesis by (simp add: strip_comment_def Let_def assms(3))
qed

definition inner_char :: "char \<Rightarrow> bool" where
  "inner_char c \<longleftrightarrow> byte c < 128 \<and> c \<noteq> CLOSE \<and> c \<noteq> CHR ''#'' \<and> c \<noteq> CHR 0x0A"

lemma inner_chars: "inner_char (CHR 0x22)" "inner_char (CHR '','')" "inner_char (CHR '' '')" "plain_char c \<Longrightarrow> inner_char c"
  by (simp_all add: inner_char_def plain_char_def byte_literals CLOSE_def)

lemma inner_joined: "list_all (list_all plain_char) names \<Longrightarrow> list_all inner_char (join '', '' (map quoted names))"
proof (induction names rule: induct_list012)
  case (2 n)
  then show ?case using inner_chars by (auto simp: quoted_def DQ_def list_all_iff)
next
  case (3 m n ns)
  have "list_all inner_char (quoted m)" using 3(3) inner_chars by (auto simp: quoted_def DQ_def list_all_iff)
  moreover have "list_all inner_char '', ''" using inner_chars by simp
  ultimately show ?case using 3 by simp
qed simp

lemma joined_chars:
  "list_all (list_all plain_char) names \<Longrightarrow> c \<in> set (join '', '' (map quoted names)) \<Longrightarrow>
   byte c < 128 \<and> c \<noteq> CLOSE \<and> c \<noteq> CHR ''#'' \<and> c \<noteq> CHR 0x0A"
  using inner_joined unfolding list_all_iff inner_char_def by blast

lemma joined_ends:
  "names \<noteq> [] \<Longrightarrow> hd (join '', '' (map quoted names)) = CHR 0x22 \<and> last (join '', '' (map quoted names)) = CHR 0x22
     \<and> join '', '' (map quoted names) \<noteq> []"
proof (induction names rule: induct_list012)
  case (3 m n ns)
  then show ?case by (simp add: quoted_def DQ_def)
qed (simp_all add: quoted_def DQ_def)

lemma bracketed:
  assumes "mid = [] \<or> hd mid = CHR 0x22 \<and> last mid = CHR 0x22" "CLOSE \<notin> set mid" "ascii mid"
  shows "takeWhile (\<lambda>c. c \<noteq> CLOSE) (''['' @ mid @ [CLOSE]) = ''['' @ mid"
    "trim (''['' @ mid @ [CLOSE]) = ''['' @ mid @ [CLOSE]" "trim_matches ''[]'' (''['' @ mid @ [CLOSE]) = mid"
proof -
  show "takeWhile (\<lambda>c. c \<noteq> CLOSE) (''['' @ mid @ [CLOSE]) = ''['' @ mid"
    using assms(2) by (subst append.assoc[symmetric], subst takeWhile_append2) (auto simp: CLOSE_def)
  show "trim (''['' @ mid @ [CLOSE]) = ''['' @ mid @ [CLOSE]"
    using trim_padded[of "[]" "''['' @ mid @ [CLOSE]" "[]"] assms(3)
    by (simp add: ascii_def is_ascii_ws_def byte_literals)
  show "trim_matches ''[]'' (''['' @ mid @ [CLOSE]) = mid"
  proof (cases "mid = []")
    case False
    then have ends: "hd mid = CHR 0x22" "hd (rev mid) = CHR 0x22" "rev mid \<noteq> []" using assms(1) by (simp_all add: hd_rev)
    have "dropWhile (\<lambda>c. c \<in> set ''[]'') (mid @ [CLOSE]) = mid @ [CLOSE]" using False ends by (cases mid) simp_all
    moreover have "dropWhile (\<lambda>c. c \<in> set ''[]'') (rev mid) = rev mid" using ends by (cases "rev mid") simp_all
    ultimately show ?thesis by (simp add: trim_matches_def CLOSE_def)
  qed (simp add: trim_matches_def CLOSE_def)
qed

text \<open>a list of names written as an array of quoted strings is read back as those names,
  whatever follows in the file.\<close>

theorem artifacts_round_trip:
  assumes plain: "list_all (list_all plain_char) names"
  shows "task_artifacts (artifact_line names @ newline @ rest) = Inr names"
proof -
  define mid where "mid = join '', '' (map quoted names)"
  have chars: "byte c < 128 \<and> c \<noteq> CLOSE \<and> c \<noteq> CHR ''#'' \<and> c \<noteq> CHR 0x0A" if "c \<in> set mid" for c
    using joined_chars[OF plain] that by (simp add: mid_def)
  then have mid: "CLOSE \<notin> set mid" "ascii mid" "CHR ''#'' \<notin> set mid" "CHR 0x0A \<notin> set mid" by (auto simp: ascii_def)
  have ends: "mid = [] \<or> hd mid = CHR 0x22 \<and> last mid = CHR 0x22"
    using joined_ends[of names] by (cases "names = []") (simp_all add: mid_def)
  have line: "artifact_line names = ''artifacts = '' @ (''['' @ mid @ [CLOSE])" by (simp add: artifact_line_def mid_def)
  have "ascii (artifact_line names)" "CHR ''#'' \<notin> set (artifact_line names)" "CHR 0x0A \<notin> set (artifact_line names)"
    using mid by (simp_all add: line ascii_def) (simp_all add: CLOSE_def byte_def)
  moreover have "last (artifact_line names) = CLOSE" "artifact_line names \<noteq> []" by (simp_all add: line)
  ultimately have scan: "scan_artifacts (str_lines (artifact_line names @ newline @ rest)) [] False
      = (''['' @ mid @ [CLOSE], False, True)"
    using str_lines_cons[of "artifact_line names"] scan_one_line[OF _ _ line]
    by (simp add: CLOSE_def suffix_def)
  have "task_artifacts (artifact_line names @ newline @ rest) = artifact_entries (split_on (CHR '','') mid)"
    unfolding task_artifacts_def scan using bracketed[OF ends mid(1,2)] by simp
  also have "\<dots> = Inr names"
  proof (cases names)
    case Nil
    have "trim [] = []" by code_simp
    then show ?thesis by (simp add: mid_def Nil)
  next
    case (Cons n ns)
    then show ?thesis using entries_of_join[of n ns "[]"] plain by (simp add: mid_def)
  qed
  finally show ?thesis .
qed

theorem artifacts_round_trip_witness:
  "task_artifacts (artifact_line [''/app/a.txt'', ''out dir/b''] @ newline @ ''timeout = 60'') = Inr [''/app/a.txt'', ''out dir/b'']"
  by (rule artifacts_round_trip) code_simp

section \<open>What a report says of its run\<close>

definition dump_text :: "(agent_event \<Rightarrow> string) \<Rightarrow> agent_event list \<Rightarrow> string" where
  "dump_text encode evs = concat (map (\<lambda>e. encode e @ newline) evs)"

definition faithful :: "(agent_event \<Rightarrow> string) \<Rightarrow> (string \<Rightarrow> string + agent_event) \<Rightarrow> agent_event \<Rightarrow> bool" where
  "faithful encode decode e \<longleftrightarrow>
     CHR 0x0A \<notin> set (encode e) \<and> trim (encode e) \<noteq> [] \<and> last (encode e) \<noteq> CHR 0x0D \<and> decode (encode e) = Inr e"

fun totals_of :: "agent_event \<Rightarrow> usage_report option" where
  "totals_of (TurnEnd _ _ u) = Some u"
| "totals_of _ = None"

fun outcome_of :: "agent_event \<Rightarrow> run_outcome option" where
  "outcome_of (RunEnd oc _) = Some oc"
| "outcome_of _ = None"

fun is_message_end :: "agent_event \<Rightarrow> bool" where
  "is_message_end (MessageEnd _ _ _ _) = True"
| "is_message_end _ = False"

definition last_such :: "('a \<Rightarrow> 'b option) \<Rightarrow> 'a list \<Rightarrow> 'b option" where
  "last_such f xs = (let ys = List.map_filter f xs in if ys = [] then None else Some (last ys))"

fun halt_of :: "run_outcome option \<Rightarrow> string option" where
  "halt_of (Some (RunFailed r)) = Some r"
| "halt_of (Some RunAborted) = Some ''aborted''"
| "halt_of _ = None"

lemma last_such_snoc: "last_such f (xs @ [x]) = (case f x of Some y \<Rightarrow> Some y | None \<Rightarrow> last_such f xs)"
  by (auto simp: last_such_def Let_def List.map_filter_def split: option.splits)

lemma read_events:
  "foldl read_event (None, 0, None) evs =
     (last_such totals_of evs, length (filter is_message_end evs) mod (U32_MAX + 1), halt_of (last_such outcome_of evs))"
proof (induction evs rule: rev_induct)
  case Nil
  then show ?case by (simp add: last_such_def map_filter_simps)
next
  case (snoc e evs)
  then show ?case
    by (cases e) (auto simp: read_event_def last_such_snoc wrap_add32_def mod_Suc_eq split: run_outcome.splits)
qed

lemma trim_Nil: "trim [] = []"
  by (simp add: trim_def)

lemma read_dump_text:
  "\<forall>e \<in> set evs. faithful encode decode e \<Longrightarrow>
   read_dump decode acc (str_lines (dump_text encode evs)) = Inr (foldl read_event acc evs)"
proof (induction evs arbitrary: acc)
  case Nil
  then show ?case by (simp add: dump_text_def str_lines_def)
next
  case (Cons e evs)
  have e: "faithful encode decode e" using Cons.prems by simp
  then have "encode e \<noteq> []" using trim_Nil by (auto simp: faithful_def)
  then have "str_lines (dump_text encode (e # evs)) = encode e # str_lines (dump_text encode evs)"
    using str_lines_cons[of "encode e"] e by (simp add: dump_text_def faithful_def)
  then show ?case using Cons e by (simp add: faithful_def)
qed

text \<open>from the dump of a run's events the report has as its steps the number of messages
  ended, as its bill the totals of the last turn, absent when no turn ended, and as its reason the failure of the
  last run end, absent when the run passed.\<close>

theorem report_reads_the_run:
  assumes codec: "\<forall>e \<in> set evs. faithful encode decode e"
    and disk: "tf_read_text f events w = Inr (dump_text encode evs)"
  shows "\<exists>r. instance_report_with_mode f decode hash ident v events wall ptext mode detail w = Inr r
    \<and> ir_id r = ident \<and> ir_verdict r = v
    \<and> ir_steps r = length (filter is_message_end evs) mod 2 ^ 32
    \<and> ir_tokens_in r = map_option input_tokens (last_such totals_of evs)
    \<and> ir_tokens_out r = map_option output_tokens (last_such totals_of evs)
    \<and> ir_dollars r = Option.bind (last_such totals_of evs) cost_usd
    \<and> ir_halt_reason r = halt_of (last_such outcome_of evs)"
  using read_dump_text[OF codec, of "(None, 0, None)"]
  by (simp add: instance_report_with_mode_def disk read_events U32_MAX_def)

theorem report_reads_the_run_witness:
  "\<exists>r. instance_report_with_mode
      ((demo_tree False)\<lparr>tf_read_text := \<lambda>_ _. Inr (''m'' @ newline @ ''r'' @ newline)\<rparr>)
      (\<lambda>s. Inr (if s = ''r'' then RunEnd (RunFailed ''steps'') []
               else MessageEnd 1 \<lparr>msg_role = RAssistant, msg_content = []\<rparr> False None))
      (\<lambda>_. 0) ''t1'' Unresolved [] 3 [] Strict None [] = Inr r
    \<and> ir_steps r = 1 \<and> ir_tokens_in r = None \<and> ir_halt_reason r = Some ''steps''"
proof -
  define m where "m = MessageEnd 1 \<lparr>msg_role = RAssistant, msg_content = []\<rparr> False None"
  define e where "e = RunEnd (RunFailed ''steps'') []"
  define decode where "decode = (\<lambda>s. Inr (if s = ''r'' then e else m) :: string + agent_event)"
  define encode where "encode = (\<lambda>ev. case ev of RunEnd _ _ \<Rightarrow> ''r'' | _ \<Rightarrow> ''m'')"
  define f where "f = (demo_tree False)\<lparr>tf_read_text := \<lambda>_ _. Inr (''m'' @ newline @ ''r'' @ newline)\<rparr>"
  have trims: "trim ''m'' = ''m''" "trim ''r'' = ''r''" by code_simp+
  have codec: "\<forall>ev \<in> set [m, e]. faithful encode decode ev"
    using trims by (simp add: faithful_def encode_def decode_def m_def e_def)
  have disk: "tf_read_text f [] [] = Inr (dump_text encode [m, e])"
    by (simp add: f_def dump_text_def encode_def m_def e_def)
  from report_reads_the_run[OF codec disk, of "\<lambda>_. 0" "''t1''" Unresolved 3 "[]" Strict None]
  obtain r where "instance_report_with_mode f decode (\<lambda>_. 0) ''t1'' Unresolved [] 3 [] Strict None [] = Inr r"
    "ir_steps r = length (filter is_message_end [m, e]) mod 2 ^ 32"
    "ir_tokens_in r = map_option input_tokens (last_such totals_of [m, e])"
    "ir_halt_reason r = halt_of (last_such outcome_of [m, e])" by blast
  then show ?thesis
    unfolding f_def decode_def m_def e_def by (intro exI[of _ r]) (simp add: last_such_def map_filter_simps)
qed

end
