(* ===== verification/Trace.thy ===== *)
theory Trace
  imports Eval
begin

text \<open>
  The event sink, \<open>crates/trace/src/lib.rs\<close>, and the dump of a run, \<open>crates/rof/src/dump.rs\<close>. Files opened for
  appending are operations of the record \<open>append_fs\<close> on a world; a write that fails may leave anything behind.
  The printer of an event is the argument \<open>encode\<close>, which may fail. The locks and channels of the code are
  its order: one event at a time, file first, then taps, then history.
\<close>

record 'w append_fs =
  af_remove :: "path \<Rightarrow> 'w \<Rightarrow> 'w"
  af_create_dirs :: "path \<Rightarrow> 'w \<Rightarrow> (string + unit) \<times> 'w"
  af_open :: "path \<Rightarrow> 'w \<Rightarrow> (string + unit) \<times> 'w"
  af_append :: "path \<Rightarrow> string \<Rightarrow> 'w \<Rightarrow> 'w"
  af_read :: "path \<Rightarrow> 'w \<Rightarrow> string option"

section \<open>The sink\<close>

record trace_sink =
  sk_history :: "agent_event list"
  sk_file :: "path option"
  sk_taps :: "tap list"

definition new_sink :: trace_sink where
  "new_sink = \<lparr>sk_history = [], sk_file = None, sk_taps = []\<rparr>"

definition open_append :: "('w, 'm) append_fs_scheme \<Rightarrow> path \<Rightarrow> 'w \<Rightarrow> (string + unit) \<times> 'w" where
  "open_append af p w =
     (case (case parent p of
              Some dir \<Rightarrow> if dir = [] then (Inr (), w) else af_create_dirs af dir w
            | None \<Rightarrow> (Inr (), w)) of
        (Inl e, w1) \<Rightarrow> (Inl e, w1)
      | (Inr _, w1) \<Rightarrow> af_open af p w1)"

definition sink_with_file :: "('w, 'm) append_fs_scheme \<Rightarrow> path \<Rightarrow> 'w \<Rightarrow> (string + trace_sink) \<times> 'w" where
  "sink_with_file af p w =
     (case open_append af p w of
        (Inl e, w') \<Rightarrow> (Inl e, w')
      | (Inr _, w') \<Rightarrow> (Inr (new_sink\<lparr>sk_file := Some p\<rparr>), w'))"

text \<open>One event as one line, in one write; an event that does not print is skipped.\<close>

definition append_line :: "('w, 'm) append_fs_scheme \<Rightarrow> (agent_event \<Rightarrow> string option) \<Rightarrow> path \<Rightarrow> agent_event \<Rightarrow> 'w \<Rightarrow> 'w" where
  "append_line af encode p ev w =
     (case encode ev of Some line \<Rightarrow> af_append af p (line @ newline) w | None \<Rightarrow> w)"

definition sink_emit :: "('w, 'm) append_fs_scheme \<Rightarrow> (agent_event \<Rightarrow> string option) \<Rightarrow> trace_sink \<Rightarrow> agent_event \<Rightarrow> 'w \<Rightarrow>
    trace_sink \<times> 'w" where
  "sink_emit af encode s ev w =
     (let w' = (case sk_file s of Some p \<Rightarrow> append_line af encode p ev w | None \<Rightarrow> w)
      in (s\<lparr>sk_taps := map (try_send ev) (filter tap_connected (sk_taps s)), sk_history := sk_history s @ [ev]\<rparr>, w'))"

definition sink_tap :: "trace_sink \<Rightarrow> nat \<Rightarrow> trace_sink" where
  "sink_tap s capacity =
     s\<lparr>sk_taps := sk_taps s @ [\<lparr>tap_capacity = max capacity 1, tap_queue = [], tap_connected = True\<rparr>]\<rparr>"

definition sink_history :: "trace_sink \<Rightarrow> agent_event list" where
  "sink_history s = sk_history s"

definition sink_fork :: "trace_sink \<Rightarrow> trace_sink" where
  "sink_fork s = (case sk_file s of Some p \<Rightarrow> new_sink\<lparr>sk_file := Some p\<rparr> | None \<Rightarrow> new_sink)"

definition sink_emits :: "('w, 'm) append_fs_scheme \<Rightarrow> (agent_event \<Rightarrow> string option) \<Rightarrow> trace_sink \<Rightarrow> agent_event list \<Rightarrow> 'w \<Rightarrow>
    trace_sink \<times> 'w" where
  "sink_emits af encode s evs w = foldl (\<lambda>(s, w) ev. sink_emit af encode s ev w) (s, w) evs"

section \<open>The dump\<close>

text \<open>The listener is registered when the answer is \<open>Inr\<close>; each emitted event then goes through
  \<open>append_line\<close>.\<close>

definition attach_dump :: "('w, 'm) append_fs_scheme \<Rightarrow> path \<Rightarrow> 'w \<Rightarrow> (string + unit) \<times> 'w" where
  "attach_dump af p w = open_append af p (af_remove af p w)"

definition write_dump :: "('w, 'm) append_fs_scheme \<Rightarrow> (agent_event \<Rightarrow> string option) \<Rightarrow> path \<Rightarrow> agent_event list \<Rightarrow> 'w \<Rightarrow>
    (string + unit) \<times> 'w" where
  "write_dump af encode p events w =
     (case sink_with_file af p (af_remove af p w) of
        (Inl e, w') \<Rightarrow> (Inl e, w')
      | (Inr s, w') \<Rightarrow> (Inr (), snd (sink_emits af encode s events w')))"

definition finalize_dump :: "('w, 'm) append_fs_scheme \<Rightarrow> (agent_event \<Rightarrow> string option) \<Rightarrow> path \<Rightarrow> agent_event list \<Rightarrow> 'w \<Rightarrow>
    (string + unit) \<times> 'w" where
  "finalize_dump af encode p events w =
     (case af_read af p w of
        Some t \<Rightarrow> if length (str_lines t) = length events then (Inr (), w) else write_dump af encode p events w
      | None \<Rightarrow> write_dump af encode p events w)"

section \<open>A disk that keeps what it is given\<close>

text \<open>The contract of the files: removing empties, opening creates, appending adds at the end.\<close>

definition append_disk :: "('w, 'm) append_fs_scheme \<Rightarrow> (path \<Rightarrow> 'w \<Rightarrow> string option) \<Rightarrow> bool" where
  "append_disk af text_of \<longleftrightarrow>
     (\<forall>p w. text_of p (af_remove af p w) = None) \<and>
     (\<forall>p d w. text_of p (snd (af_create_dirs af d w)) = text_of p w) \<and>
     (\<forall>p w w'. af_open af p w = (Inr (), w') \<longrightarrow> text_of p w' = Some (case text_of p w of Some t \<Rightarrow> t | None \<Rightarrow> [])) \<and>
     (\<forall>p s w t. text_of p w = Some t \<longrightarrow> text_of p (af_append af p s w) = Some (t @ s)) \<and>
     (\<forall>p w. af_read af p w = text_of p w)"

lemma append_diskD:
  assumes "append_disk af text_of"
  shows "text_of p (af_remove af p w) = None"
    and "text_of p (snd (af_create_dirs af d w)) = text_of p w"
    and "af_open af p w = (Inr (), w') \<Longrightarrow> text_of p w' = Some (case text_of p w of Some t \<Rightarrow> t | None \<Rightarrow> [])"
    and "text_of p w = Some t \<Longrightarrow> text_of p (af_append af p s w) = Some (t @ s)"
    and "af_read af p w = text_of p w"
  using assms unfolding append_disk_def by blast+

lemma open_append_text:
  assumes disk: "append_disk af text_of" and "open_append af p w = (Inr (), w')"
  shows "text_of p w' = Some (case text_of p w of Some t \<Rightarrow> t | None \<Rightarrow> [])"
proof -
  obtain w1 where w1: "text_of p w1 = text_of p w" and o: "af_open af p w1 = (Inr (), w')"
  proof (cases "parent p")
    case None
    then show ?thesis using assms(2) that[of w] by (simp add: open_append_def)
  next
    case (Some dir)
    show ?thesis
    proof (cases "dir = []")
      case True
      then show ?thesis using assms(2) that[of w] Some by (simp add: open_append_def)
    next
      case False
      obtain r w1 where c: "af_create_dirs af dir w = (r, w1)" by fastforce
      then have "text_of p w1 = text_of p w" using append_diskD(2)[OF disk, of p dir w] by simp
      then show ?thesis using assms(2) that[of w1] Some False c by (cases r) (simp_all add: open_append_def)
    qed
  qed
  show ?thesis using append_diskD(3)[OF disk o] w1 by simp
qed

lemma emits_text:
  assumes disk: "append_disk af text_of" and "sk_file s = Some p" "\<forall>ev \<in> set evs. \<exists>l. encode ev = Some l" "text_of p w = Some t"
  shows "text_of p (snd (sink_emits af encode s evs w)) = Some (t @ dump_text (the \<circ> encode) evs)
    \<and> sk_history (fst (sink_emits af encode s evs w)) = sk_history s @ evs"
  using assms(2-)
proof (induction evs arbitrary: s w t)
  case Nil
  then show ?case by (simp add: sink_emits_def dump_text_def)
next
  case (Cons ev evs)
  obtain l where l: "encode ev = Some l" using Cons.prems by auto
  obtain s' w' where e: "sink_emit af encode s ev w = (s', w')" by fastforce
  then have "sk_file s' = Some p" "sk_history s' = sk_history s @ [ev]" "text_of p w' = Some (t @ l @ newline)"
    using l Cons.prems append_diskD(4)[OF disk, of p w t] by (auto simp: sink_emit_def append_line_def Let_def)
  then show ?case using Cons.IH[of s' w' "t @ l @ newline"] Cons.prems e l
    by (simp add: sink_emits_def dump_text_def)
qed

lemma write_dump_text:
  assumes disk: "append_disk af text_of" and "\<forall>ev \<in> set evs. \<exists>l. encode ev = Some l" "write_dump af encode p evs w = (Inr (), w')"
  shows "text_of p w' = Some (dump_text (the \<circ> encode) evs)"
proof -
  obtain w1 where o: "open_append af p (af_remove af p w) = (Inr (), w1)"
    and w': "w' = snd (sink_emits af encode (new_sink\<lparr>sk_file := Some p\<rparr>) evs w1)"
    using assms(3) by (auto simp: write_dump_def sink_with_file_def split: prod.splits sum.splits)
  have "text_of p w1 = Some []" using open_append_text[OF disk o] append_diskD(1)[OF disk] by simp
  then show ?thesis using emits_text[OF disk, of "new_sink\<lparr>sk_file := Some p\<rparr>" p evs encode w1 "[]"] assms(2) w' by simp
qed

lemma attached_text:
  assumes disk: "append_disk af text_of" and "text_of p w = Some t" "\<forall>ev \<in> set evs. \<exists>l. encode ev = Some l"
  shows "text_of p (foldl (\<lambda>w ev. append_line af encode p ev w) w evs) = Some (t @ dump_text (the \<circ> encode) evs)"
  using assms(2-)
proof (induction evs arbitrary: w t)
  case Nil
  then show ?case by (simp add: dump_text_def)
next
  case (Cons ev evs)
  obtain l where l: "encode ev = Some l" using Cons.prems by auto
  have "text_of p (append_line af encode p ev w) = Some (t @ l @ newline)"
    using l Cons.prems append_diskD(4)[OF disk, of p w t] by (simp add: append_line_def)
  from Cons.IH[OF this] show ?case using Cons.prems l by (simp add: dump_text_def)
qed

lemma attach_dump_text:
  assumes disk: "append_disk af text_of" and "attach_dump af p w = (Inr (), w1)" "\<forall>ev \<in> set evs. \<exists>l. encode ev = Some l"
  shows "text_of p (foldl (\<lambda>w ev. append_line af encode p ev w) w1 evs) = Some (dump_text (the \<circ> encode) evs)"
  using attached_text[OF disk, of p w1 "[]"] open_append_text[OF disk, of p "af_remove af p w" w1] assms(2,3)
    append_diskD(1)[OF disk]
  by (simp add: attach_dump_def)

text \<open>Files in memory, by path.\<close>

definition memory_files :: "(path \<Rightarrow> string option) append_fs" where
  "memory_files =
     \<lparr>af_remove = \<lambda>p w. w(p := None), af_create_dirs = \<lambda>_ w. (Inr (), w),
      af_open = \<lambda>p w. (Inr (), w(p := Some (case w p of Some t \<Rightarrow> t | None \<Rightarrow> []))),
      af_append = \<lambda>p s w. w(p := map_option (\<lambda>t. t @ s) (w p)), af_read = \<lambda>p w. w p\<rparr>"

definition demo_file :: path where
  "demo_file = [Normal ''d'']"

lemma memory_disk: "append_disk memory_files (\<lambda>p w. w p)"
  by (auto simp: append_disk_def memory_files_def)

lemma str_lines_dump:
  "\<forall>ev \<in> set evs. CHR 0x0A \<notin> set (enc ev) \<and> enc ev \<noteq> [] \<and> last (enc ev) \<noteq> CHR 0x0D \<Longrightarrow> length (str_lines (dump_text enc evs)) = length evs"
proof (induction evs)
  case Nil
  then show ?case by (simp add: dump_text_def str_lines_def)
next
  case (Cons ev evs)
  then have "str_lines (dump_text enc (ev # evs)) = enc ev # str_lines (dump_text enc evs)"
    using str_lines_cons[of "enc ev"] by (simp add: dump_text_def)
  then show ?case using Cons by simp
qed

text \<open>on a disk that keeps what it is given, a run whose dump was attached leaves one line per
  event in the order of the run, and the close-out then changes nothing; and whatever happened to the file, a
  close-out that returns leaves a file of exactly as many lines as the run has events.\<close>

theorem dump_is_complete:
  assumes disk: "append_disk af text_of"
    and prints: "\<forall>ev \<in> set evs. \<exists>l. encode ev = Some l \<and> CHR 0x0A \<notin> set l \<and> l \<noteq> [] \<and> last l \<noteq> CHR 0x0D"
    and attached: "attach_dump af p w = (Inr (), w1)"
    and run: "w2 = foldl (\<lambda>w ev. append_line af encode p ev w) w1 evs"
  shows "af_read af p w2 = Some (dump_text (the \<circ> encode) evs) \<and> finalize_dump af encode p evs w2 = (Inr (), w2)
    \<and> (\<forall>w3 w4. finalize_dump af encode p evs w3 = (Inr (), w4) \<longrightarrow>
         (\<exists>t. af_read af p w4 = Some t \<and> length (str_lines t) = length evs))"
proof -
  have e: "\<forall>ev \<in> set evs. \<exists>l. encode ev = Some l" using prints by blast
  have n: "length (str_lines (dump_text (the \<circ> encode) evs)) = length evs"
    using prints by (intro str_lines_dump) fastforce
  have r: "af_read af p w2 = Some (dump_text (the \<circ> encode) evs)"
    using attach_dump_text[OF disk attached e] append_diskD(5)[OF disk] run by simp
  moreover have "finalize_dump af encode p evs w2 = (Inr (), w2)" using r n by (simp add: finalize_dump_def)
  moreover have "\<exists>t. af_read af p w4 = Some t \<and> length (str_lines t) = length evs"
    if "finalize_dump af encode p evs w3 = (Inr (), w4)" for w3 w4
    using that write_dump_text[OF disk e] append_diskD(5)[OF disk] n
    by (auto simp: finalize_dump_def split: option.splits if_splits)
  ultimately show ?thesis by blast
qed

theorem dump_is_complete_witness:
  "af_read memory_files demo_file (foldl (\<lambda>w ev. append_line memory_files (\<lambda>_. Some ''{}'') demo_file ev w)
      (snd (attach_dump memory_files demo_file [demo_file \<mapsto> ''old''])) [TurnStart 0, TurnStart 1])
    = Some (''{}'' @ newline @ ''{}'' @ newline)"
proof -
  have a: "attach_dump memory_files demo_file [demo_file \<mapsto> ''old''] = (Inr (), snd (attach_dump memory_files demo_file [demo_file \<mapsto> ''old'']))"
    by (simp add: attach_dump_def open_append_def memory_files_def split: option.splits)
  show ?thesis
    using dump_is_complete[OF memory_disk, of "[TurnStart 0, TurnStart 1]" "\<lambda>_. Some ''{}''", OF _ a refl]
    by (simp add: dump_text_def)
qed

text \<open>Lines are counted, not compared: a file whose last line lost its end passes for complete.\<close>

lemma cut_line_passes:
  "finalize_dump memory_files (\<lambda>_. Some ''{}'') demo_file [TurnStart 0, TurnStart 1] [demo_file \<mapsto> ''{}'' @ newline @ ''{'']
   = (Inr (), [demo_file \<mapsto> ''{}'' @ newline @ ''{''])"
proof -
  have "length (str_lines (''{}'' @ newline @ ''{'')) = 2" by code_simp
  then show ?thesis by (simp add: finalize_dump_def memory_files_def)
qed

end
