(* ===== verification/Cli.thy ===== *)
theory Cli
  imports Trace RunLoop Adapter
begin

text \<open>
  The command line of \<open>rof run\<close>, \<open>crates/rof/src/cli.rs\<close>: the flag table, its setters and the parser, the
  environment defaults, and the maps from the parsed flags to the budget, the loop configuration and the
  endpoint; with the guards of \<open>workdir.rs\<close> and the exit codes of \<open>exit.rs\<close>. The usage text is an argument, as is
  the process environment, a partial map.
\<close>

section \<open>Arguments\<close>

record run_args =
  ra_goal :: string
  ra_workdir :: path
  ra_model :: string
  ra_endpoint :: "string option"
  ra_api_key_env :: string
  ra_headers :: "string list"
  ra_allow_cmd :: "string list"
  ra_exec_policy :: exec_policy
  ra_budget_steps :: "u32 option"
  ra_budget_actions :: "u32 option"
  ra_budget_tokens :: "u64 option"
  ra_budget_shape :: "budget_shape option"
  ra_max_tokens :: "usize option"
  ra_context_files :: "string list"
  ra_dump_events :: "string option"
  ra_log_path :: "string option"
  ra_no_log :: bool
  ra_keep_thinking :: bool
  ra_proof_cmd :: "string option"
  ra_incentives :: incentives_level
  ra_bets :: bool
  ra_compaction :: "real option"
  ra_thinking_keep :: "usize option"
  ra_collapse_hysteresis :: "usize option"
  ra_allow_dirty :: bool
  ra_pass_env :: "string list"
  ra_exec_wrap :: "string list option"

record 'b flag =
  fl_name :: string
  fl_takes_value :: bool
  fl_set :: "'b \<Rightarrow> string option \<Rightarrow> string + 'b"

definition split_flag :: "string \<Rightarrow> string \<times> string option" where
  "split_flag s = (case split_once (CHR ''='') s of Some (k, v) \<Rightarrow> (k, Some v) | None \<Rightarrow> (s, None))"

fun parse_flags :: "(string \<Rightarrow> string) \<Rightarrow> 'b flag list \<Rightarrow> 'b \<Rightarrow> string list \<Rightarrow> string + 'b" where
  "parse_flags unknown table b [] = Inr b"
| "parse_flags unknown table b (w # ws) =
     (let (k, inline) = split_flag w in
      case List.find (\<lambda>f. fl_name f = k) table of
        None \<Rightarrow> Inl (unknown k)
      | Some def \<Rightarrow>
          if \<not> fl_takes_value def
          then try_then (fl_set def b None) (\<lambda>b'. parse_flags unknown table b' ws)
          else (case inline of
             Some v \<Rightarrow> try_then (fl_set def b (Some v)) (\<lambda>b'. parse_flags unknown table b' ws)
           | None \<Rightarrow>
               (case ws of
                  [] \<Rightarrow> Inl (k @ '' needs a value'')
                | v # vs \<Rightarrow> try_then (fl_set def b (Some v)) (\<lambda>b'. parse_flags unknown table b' vs))))"

definition parse_table :: "string list \<Rightarrow> string \<Rightarrow> string \<Rightarrow> (string \<Rightarrow> string) \<Rightarrow> 'b flag list \<Rightarrow> 'b \<Rightarrow> string + 'b" where
  "parse_table argv cmd usage unknown table b =
     (if length argv < 2 \<or> argv ! 1 \<noteq> cmd then Inl usage else parse_flags unknown table b (drop 2 argv))"

section \<open>Setters\<close>

record run_builder =
  rb_goal :: "string option"
  rb_workdir :: "string option"
  rb_model :: "string option"
  rb_endpoint :: "string option"
  rb_api_key_env :: "string option"
  rb_headers :: "string list"
  rb_allow_cmd :: "string list"
  rb_exec_policy :: "exec_policy option"
  rb_budget_steps :: "u32 option"
  rb_budget_actions :: "u32 option"
  rb_budget_tokens :: "u64 option"
  rb_budget_shape :: "budget_shape option"
  rb_max_tokens :: "usize option"
  rb_context_files :: "string list"
  rb_dump_events :: "string option"
  rb_log_path :: "string option"
  rb_no_log :: bool
  rb_keep_thinking :: bool
  rb_proof_cmd :: "string option"
  rb_incentives :: "incentives_level option"
  rb_bets :: bool
  rb_compaction :: "real option"
  rb_thinking_keep :: "usize option"
  rb_collapse_hysteresis :: "usize option"
  rb_allow_dirty :: bool
  rb_pass_env :: "string list"

definition empty_builder :: run_builder where
  "empty_builder =
     \<lparr>rb_goal = None, rb_workdir = None, rb_model = None, rb_endpoint = None, rb_api_key_env = None,
      rb_headers = [], rb_allow_cmd = [], rb_exec_policy = None, rb_budget_steps = None, rb_budget_actions = None,
      rb_budget_tokens = None, rb_budget_shape = None, rb_max_tokens = None, rb_context_files = [],
      rb_dump_events = None, rb_log_path = None, rb_no_log = False, rb_keep_thinking = False, rb_proof_cmd = None,
      rb_incentives = None, rb_bets = False, rb_compaction = None, rb_thinking_keep = None,
      rb_collapse_hysteresis = None, rb_allow_dirty = False, rb_pass_env = []\<rparr>"

type_synonym setter = "run_builder \<Rightarrow> string option \<Rightarrow> string + run_builder"

definition set_goal :: setter where "set_goal b v = Inr (b\<lparr>rb_goal := v\<rparr>)"
definition set_workdir :: setter where "set_workdir b v = Inr (b\<lparr>rb_workdir := v\<rparr>)"
definition set_model :: setter where "set_model b v = Inr (b\<lparr>rb_model := v\<rparr>)"
definition set_endpoint :: setter where "set_endpoint b v = Inr (b\<lparr>rb_endpoint := v\<rparr>)"
definition set_dump_events :: setter where "set_dump_events b v = Inr (b\<lparr>rb_dump_events := v\<rparr>)"
definition set_log_path :: setter where "set_log_path b v = Inr (b\<lparr>rb_log_path := v\<rparr>)"
definition set_no_log :: setter where "set_no_log b v = Inr (b\<lparr>rb_no_log := True\<rparr>)"
definition set_keep_thinking :: setter where "set_keep_thinking b v = Inr (b\<lparr>rb_keep_thinking := True\<rparr>)"

definition push_value :: "string list \<Rightarrow> string option \<Rightarrow> string list" where
  "push_value vs v = (case v of Some x \<Rightarrow> vs @ [x] | None \<Rightarrow> vs)"

definition set_allow_cmd :: setter where
  "set_allow_cmd b v = Inr (b\<lparr>rb_allow_cmd := push_value (rb_allow_cmd b) v\<rparr>)"

definition set_context_file :: setter where
  "set_context_file b v = Inr (b\<lparr>rb_context_files := push_value (rb_context_files b) v\<rparr>)"

definition value_or_empty :: "string option \<Rightarrow> string" where
  "value_or_empty v = (case v of Some s \<Rightarrow> s | None \<Rightarrow> [])"

definition need_integer :: "string \<Rightarrow> string \<Rightarrow> string" where
  "need_integer name s = name @ '' needs a positive integer, got '' @ debug_str s"

definition parse_u32 :: "string \<Rightarrow> u32 option" where
  "parse_u32 s = (case parse_u64 s of Some n \<Rightarrow> if n \<le> U32_MAX then Some n else None | None \<Rightarrow> None)"

definition set_max_tokens :: setter where
  "set_max_tokens b v =
     (case parse_u64 (value_or_empty v) of
        Some n \<Rightarrow> Inr (b\<lparr>rb_max_tokens := Some n\<rparr>)
      | None \<Rightarrow> Inl (need_integer ''--max-tokens'' (value_or_empty v)))"

definition set_budget_tokens :: setter where
  "set_budget_tokens b v =
     (case parse_u64 (value_or_empty v) of
        Some n \<Rightarrow> Inr (b\<lparr>rb_budget_tokens := Some n\<rparr>)
      | None \<Rightarrow> Inl (need_integer ''--budget-tokens'' (value_or_empty v)))"

definition set_exec_policy :: setter where
  "set_exec_policy b v = map_sum id (\<lambda>p. b\<lparr>rb_exec_policy := Some p\<rparr>) (exec_policy_of (value_or_empty v))"

definition set_budget_shape :: setter where
  "set_budget_shape b v =
     (case parse_budget_shape (value_or_empty v) of
        Inr s \<Rightarrow> Inr (b\<lparr>rb_budget_shape := Some s\<rparr>)
      | Inl _ \<Rightarrow> Inl (''--budget-shape needs gross or miss-plus-out, got '' @ debug_str (value_or_empty v)))"

definition set_budget_steps :: setter where
  "set_budget_steps b v =
     (case parse_u32 (value_or_empty v) of
        None \<Rightarrow> Inl (need_integer ''--budget-steps'' (value_or_empty v))
      | Some n \<Rightarrow> if n = 0 then Inl ''--budget-steps must be > 0'' else Inr (b\<lparr>rb_budget_steps := Some n\<rparr>))"

definition set_budget_actions :: setter where
  "set_budget_actions b v =
     (case parse_u32 (value_or_empty v) of
        None \<Rightarrow> Inl (need_integer ''--budget-actions'' (value_or_empty v))
      | Some n \<Rightarrow> if n = 0 then Inl ''--budget-actions must be > 0'' else Inr (b\<lparr>rb_budget_actions := Some n\<rparr>))"

definition set_proof_cmd :: setter where "set_proof_cmd b v = Inr (b\<lparr>rb_proof_cmd := v\<rparr>)"
definition set_api_key_env :: setter where "set_api_key_env b v = Inr (b\<lparr>rb_api_key_env := v\<rparr>)"

definition set_header :: setter where
  "set_header b v = Inr (b\<lparr>rb_headers := push_value (rb_headers b) v\<rparr>)"

definition set_incentives :: setter where
  "set_incentives b v =
     (if v = Some ''base'' then Inr (b\<lparr>rb_incentives := Some BaseLevel\<rparr>)
      else if v = Some ''contract'' then Inr (b\<lparr>rb_incentives := Some ContractLevel\<rparr>)
      else if v = Some ''full'' then Inr (b\<lparr>rb_incentives := Some FullLevel\<rparr>)
      else Inl (''--incentives needs base|contract|full, got '' @ debug_str (value_or_empty v)))"

definition set_bets :: setter where "set_bets b v = Inr (b\<lparr>rb_bets := True\<rparr>)"

definition set_compaction :: setter where
  "set_compaction b v =
     (case parse_f64 (value_or_empty v) of
        Some (Finite f) \<Rightarrow>
          if f \<le> 0 \<or> 1 < f
          then Inl (''--compaction needs a fraction in (0, 1], got '' @ debug_str (value_or_empty v))
          else Inr (b\<lparr>rb_compaction := Some f\<rparr>)
      | _ \<Rightarrow> Inl (''--compaction needs a fraction in (0, 1], got '' @ debug_str (value_or_empty v)))"

definition set_thinking_keep :: setter where
  "set_thinking_keep b v =
     (case parse_u64 (value_or_empty v) of
        Some n \<Rightarrow> Inr (b\<lparr>rb_thinking_keep := Some n\<rparr>)
      | None \<Rightarrow> Inl (need_integer ''--thinking-keep'' (value_or_empty v)))"

definition set_collapse_hysteresis :: setter where
  "set_collapse_hysteresis b v =
     (case parse_u64 (value_or_empty v) of
        Some n \<Rightarrow> Inr (b\<lparr>rb_collapse_hysteresis := Some n\<rparr>)
      | None \<Rightarrow> Inl (need_integer ''--collapse-hysteresis'' (value_or_empty v)))"

definition set_allow_dirty_workdir :: setter where "set_allow_dirty_workdir b v = Inr (b\<lparr>rb_allow_dirty := True\<rparr>)"

definition set_pass_env :: setter where
  "set_pass_env b v = Inr (b\<lparr>rb_pass_env := push_value (rb_pass_env b) v\<rparr>)"

definition valued :: "string \<Rightarrow> ('b \<Rightarrow> string option \<Rightarrow> string + 'b) \<Rightarrow> 'b flag" where
  "valued n s = \<lparr>fl_name = n, fl_takes_value = True, fl_set = s\<rparr>"

definition bare :: "string \<Rightarrow> ('b \<Rightarrow> string option \<Rightarrow> string + 'b) \<Rightarrow> 'b flag" where
  "bare n s = \<lparr>fl_name = n, fl_takes_value = False, fl_set = s\<rparr>"

definition RUN_FLAGS :: "run_builder flag list" where
  "RUN_FLAGS =
     [valued ''--goal'' set_goal, valued ''--workdir'' set_workdir, valued ''--model'' set_model,
      valued ''--endpoint'' set_endpoint, valued ''--dump-events'' set_dump_events,
      valued ''--log-path'' set_log_path, bare ''--no-log'' set_no_log, bare ''--keep-thinking'' set_keep_thinking,
      valued ''--allow-cmd'' set_allow_cmd, valued ''--context-file'' set_context_file,
      valued ''--max-tokens'' set_max_tokens, valued ''--budget-tokens'' set_budget_tokens,
      valued ''--exec-policy'' set_exec_policy, valued ''--budget-shape'' set_budget_shape,
      valued ''--budget-steps'' set_budget_steps, valued ''--budget-actions'' set_budget_actions,
      valued ''--proof-cmd'' set_proof_cmd, valued ''--api-key-env'' set_api_key_env, valued ''--header'' set_header,
      valued ''--incentives'' set_incentives, bare ''--bets'' set_bets, valued ''--compaction'' set_compaction,
      valued ''--thinking-keep'' set_thinking_keep, valued ''--collapse-hysteresis'' set_collapse_hysteresis,
      bare ''--allow-dirty-workdir'' set_allow_dirty_workdir, valued ''--pass-env'' set_pass_env]"

definition required :: "string \<Rightarrow> 'a option \<Rightarrow> string + 'a" where
  "required name v = (case v of Some x \<Rightarrow> Inr x | None \<Rightarrow> Inl (''missing '' @ name))"

definition or_default :: "'a \<Rightarrow> 'a option \<Rightarrow> 'a" where
  "or_default d v = (case v of Some x \<Rightarrow> x | None \<Rightarrow> d)"

definition unknown_flag :: "string \<Rightarrow> string \<Rightarrow> string" where
  "unknown_flag usage k = ''unknown flag '' @ debug_str k @ newline @ usage"

definition parse_run_args :: "string \<Rightarrow> string list \<Rightarrow> string + run_args" where
  "parse_run_args usage argv =
     try_then (parse_table argv ''run'' usage (unknown_flag usage) RUN_FLAGS empty_builder) (\<lambda>b.
     try_then (required ''--goal'' (rb_goal b)) (\<lambda>g.
     try_then (required ''--workdir'' (rb_workdir b)) (\<lambda>wd.
     try_then (required ''--model'' (rb_model b)) (\<lambda>m.
       Inr \<lparr>ra_goal = g, ra_workdir = components wd, ra_model = m, ra_endpoint = rb_endpoint b,
            ra_api_key_env = or_default ''OPENAI_API_KEY'' (rb_api_key_env b), ra_headers = rb_headers b,
            ra_allow_cmd = rb_allow_cmd b, ra_exec_policy = or_default Allowlist (rb_exec_policy b),
            ra_budget_steps = rb_budget_steps b, ra_budget_actions = rb_budget_actions b,
            ra_budget_tokens = rb_budget_tokens b, ra_budget_shape = rb_budget_shape b,
            ra_max_tokens = rb_max_tokens b, ra_context_files = rb_context_files b,
            ra_dump_events = rb_dump_events b, ra_log_path = rb_log_path b, ra_no_log = rb_no_log b,
            ra_keep_thinking = rb_keep_thinking b, ra_proof_cmd = rb_proof_cmd b,
            ra_incentives = or_default FullLevel (rb_incentives b), ra_bets = rb_bets b,
            ra_compaction = rb_compaction b, ra_thinking_keep = rb_thinking_keep b,
            ra_collapse_hysteresis = rb_collapse_hysteresis b, ra_allow_dirty = rb_allow_dirty b,
            ra_pass_env = rb_pass_env b, ra_exec_wrap = None\<rparr>))))"

section \<open>Environment defaults\<close>

type_synonym process_env = "string \<Rightarrow> string option"

definition read_env_usize :: "process_env \<Rightarrow> string \<Rightarrow> string + usize option" where
  "read_env_usize env name =
     (case env name of
        None \<Rightarrow> Inr None
      | Some raw \<Rightarrow>
          if trim raw = [] then Inr None
          else (case parse_u64 (trim raw) of Some n \<Rightarrow> Inr (Some n) | None \<Rightarrow> Inl (need_integer name raw)))"

definition apply_env_defaults :: "process_env \<Rightarrow> run_args \<Rightarrow> string + run_args" where
  "apply_env_defaults env a =
     try_then (if ra_thinking_keep a = None then read_env_usize env ''THINKING_KEEP'' else Inr (ra_thinking_keep a))
       (\<lambda>tk.
     try_then (if ra_collapse_hysteresis a = None then read_env_usize env ''COLLAPSE_HYSTERESIS''
         else Inr (ra_collapse_hysteresis a))
       (\<lambda>ch. Inr (a\<lparr>ra_thinking_keep := tk, ra_collapse_hysteresis := ch\<rparr>)))"

section \<open>Budget, configuration, endpoint\<close>

definition budget_for :: "run_args \<Rightarrow> nat \<Rightarrow> budget_guard" where
  "budget_for a t =
     (let b0 = config_for UnattendedBatch;
          b1 = (if ra_budget_steps a \<noteq> None \<or> ra_budget_actions a \<noteq> None \<or> ra_budget_tokens a \<noteq> None
                then b0\<lparr>max_wallclock := nanos 3600\<rparr> else b0);
          b2 = (case ra_budget_steps a of Some n \<Rightarrow> with_steps b1 n | None \<Rightarrow> b1);
          b3 = (case ra_budget_actions a of Some n \<Rightarrow> b2\<lparr>actions_per_trial := n\<rparr> | None \<Rightarrow> b2);
          b4 = (case ra_budget_tokens a of
                  Some n \<Rightarrow> b3\<lparr>max_tokens := n\<rparr>
                | None \<Rightarrow> if ra_budget_steps a = None \<and> ra_context_files a \<noteq> []
                          then b3\<lparr>max_tokens := 200000\<rparr> else b3)
      in new_guard b4 t)"

definition profile_for :: "bool \<Rightarrow> endpoint_profile" where
  "profile_for keep_thinking =
     (if keep_thinking then \<lparr>emission_threshold = 12000, ep_thinking_off = None\<rparr> else default_profile)"

definition DEFAULT_LOG_NAME :: string where "DEFAULT_LOG_NAME = ''.rof-events.jsonl''"

definition default_log_path :: "path \<Rightarrow> path" where
  "default_log_path wd = join_path wd [Normal DEFAULT_LOG_NAME]"

definition resolve_log_path :: "run_args \<Rightarrow> path option" where
  "resolve_log_path a =
     (if ra_no_log a then None
      else (case ra_log_path a of Some p \<Rightarrow> Some (components p) | None \<Rightarrow> Some (default_log_path (ra_workdir a))))"

definition config_of :: "run_args \<Rightarrow> run_config" where
  "config_of a =
     (let cfg = default_run_config\<lparr>rc_goal := ra_goal a, rc_model := ra_model a,
            rc_context_files := ra_context_files a, rc_max_tokens := or_default 8000 (ra_max_tokens a),
            rc_incentives := ra_incentives a, rc_proof_cmd := ra_proof_cmd a,
            rc_thinking_keep := or_default (rc_thinking_keep default_run_config) (ra_thinking_keep a),
            rc_hysteresis := or_default (rc_hysteresis default_run_config) (ra_collapse_hysteresis a),
            rc_shape := or_default (rc_shape default_run_config) (ra_budget_shape a),
            rc_log_path := map_option path_text (resolve_log_path a)\<rparr>
      in (case ra_compaction a of
            Some f \<Rightarrow> cfg\<lparr>rc_compaction := (rc_compaction cfg)\<lparr>enabled := True, frac := f\<rparr>\<rparr>
          | None \<Rightarrow> cfg))"

definition resolve_endpoint :: "string option \<Rightarrow> string option \<Rightarrow> string + string" where
  "resolve_endpoint flag env =
     (case (case flag of Some s \<Rightarrow> Some s | None \<Rightarrow> env) of
        Some s \<Rightarrow> if trim s = [] then Inl ''no endpoint: pass --endpoint URL or set OPENAI_BASE_URL'' else Inr s
      | None \<Rightarrow> Inl ''no endpoint: pass --endpoint URL or set OPENAI_BASE_URL'')"

section \<open>Exit codes\<close>

definition EXIT_NO_CREDENTIALS :: nat where "EXIT_NO_CREDENTIALS = 4"

fun exit_code :: "outcome \<Rightarrow> nat" where
  "exit_code Done = 0"
| "exit_code (Halted _) = 3"
| "exit_code Cancelled = 3"
| "exit_code (Failed FailLog _) = 5"
| "exit_code (Failed FailSnapshot _) = 6"
| "exit_code (Failed FailProvider _) = 3"
| "exit_code (Failed FailInput _) = 7"

definition NAMES :: "string list" where
  "NAMES = [''RunStart'', ''RunEnd'', ''TurnStart'', ''TurnEnd'', ''MessageStart'', ''MessageUpdate'', ''MessageEnd'',
     ''ToolStart'', ''ToolEnd'', ''Control'', ''Error'']"

fun name_index :: "agent_event \<Rightarrow> nat" where
  "name_index (RunStart _ _) = 0"
| "name_index (RunEnd _ _) = 1"
| "name_index (TurnStart _) = 2"
| "name_index (TurnEnd _ _ _) = 3"
| "name_index (MessageStart _ _ _) = 4"
| "name_index (MessageUpdate _ _ _) = 5"
| "name_index (MessageEnd _ _ _ _) = 6"
| "name_index (ToolStart _ _ _) = 7"
| "name_index (ToolEnd _ _ _) = 8"
| "name_index (Control _) = 9"
| "name_index (Error _) = 10"

definition summarize :: "agent_event list \<Rightarrow> string" where
  "summarize events =
     (let counts = foldl (\<lambda>cs e. cs[name_index e := cs ! name_index e + 1]) (replicate 11 0) events
      in join '' '' (map (\<lambda>(name, n). name @ ''='' @ dec n) (filter (\<lambda>(_, n). 0 < n) (zip NAMES counts))))"

section \<open>The working directory\<close>

fun io_text :: "io_error \<Rightarrow> string" where
  "io_text NotFound = ''No such file or directory (os error 2)''"
| "io_text (IoError e) = e"

definition validate_workdir :: "('w, 'm) tree_env_scheme \<Rightarrow> process_env \<Rightarrow> path \<Rightarrow> bool \<Rightarrow> 'w \<Rightarrow> (string + path) \<times> 'w" where
  "validate_workdir te env p allow_dirty w =
     (if \<not> tf_is_dir te p w then (Inl (''workdir is not a directory: '' @ path_text p), w)
      else (case fs_canonicalize te p w of
         Inl e \<Rightarrow> (Inl (''workdir cannot be canonicalized: '' @ io_text e), w)
       | Inr canon \<Rightarrow>
           if parent canon = None then (Inl ''workdir must not be the filesystem root'', w)
           else if (case env ''HOME'' of Some h \<Rightarrow> h \<noteq> [] \<and> canon = components h | None \<Rightarrow> False)
           then (Inl ''workdir must not be $HOME'', w)
           else if te_is_file te (join_path canon (components ''crates/rof/Cargo.toml'')) w
           then (Inl ''workdir must not be the harness checkout itself'', w)
           else if allow_dirty then (Inr canon, w)
           else (case workdir_state te canon w of
              (Dirty, w') \<Rightarrow> (Inl (''workdir has uncommitted changes: '' @ path_text canon
                @ '' (pass --allow-dirty-workdir to run here anyway)''), w')
            | (_, w') \<Rightarrow> (Inr canon, w'))))"

definition sidecar_name :: "path \<Rightarrow> path \<Rightarrow> string option" where
  "sidecar_name wd p =
     (if prefix wd p
      then (let rel = map (\<lambda>c. if c = CHR 0x5C then SLASH else c) (path_text (drop (length wd) p))
            in if rel = [] then None else Some rel)
      else None)"

definition with_line :: "string \<Rightarrow> string \<Rightarrow> string" where
  "with_line txt l = (if txt \<noteq> [] \<and> last txt \<noteq> CHR 0x0A then txt @ newline else txt) @ l @ newline"

definition exclude_sidecar :: "('w, 'm) tree_env_scheme \<Rightarrow> path \<Rightarrow> path \<Rightarrow> 'w \<Rightarrow> 'w" where
  "exclude_sidecar te wd p w =
     (let git = git_dir wd in
      if \<not> tf_is_dir te git w then w
      else (case sidecar_name wd p of
         None \<Rightarrow> w
       | Some rel \<Rightarrow>
           (let info = git @ [Normal ''info'']; file = info @ [Normal ''exclude''] in
            case te_create_dirs te info w of
              (Inl _, w1) \<Rightarrow> w1
            | (Inr _, w1) \<Rightarrow>
                (let txt = (case tf_read_text te file w1 of Inr s \<Rightarrow> s | Inl _ \<Rightarrow> []) in
                 if rel \<in> set (str_lines txt) then w1
                 else snd (tf_write te file (with_line txt rel) w1)))))"

section \<open>A command line for every set of arguments\<close>

lemma digits_value_dec: "digits_value (dec n) = Some n"
proof -
  have "dec n \<noteq> [] \<and> list_all is_digit (dec n) \<and> foldl (\<lambda>n c. 10 * n + (byte c - 48)) 0 (dec n) = n"
  proof (induction n rule: dec.induct)
    case (1 n)
    have digit: "byte (char_of (48 + d)) = 48 + d" if "d < 10" for d :: nat
      using that by (simp add: byte_def)
    show ?case
    proof (cases "n < 10")
      case True
      then show ?thesis using digit[of n] by (subst (1 2 3) dec.simps) (simp add: is_digit_def)
    next
      case False
      then have ih: "dec (n div 10) \<noteq> []" "list_all is_digit (dec (n div 10))"
        "foldl (\<lambda>n c. 10 * n + (byte c - 48)) 0 (dec (n div 10)) = n div 10" using 1 by auto
      have "10 * (n div 10) + n mod 10 = n" by simp
      then show ?thesis using False ih digit[of "n mod 10"] by (subst (1 2 3) dec.simps) (simp add: is_digit_def)
    qed
  qed
  then show ?thesis by (simp add: digits_value_def)
qed

lemma dec_no_plus: "\<not> prefix ''+'' (dec n)"
proof -
  have "list_all is_digit (dec n)" using digits_value_dec[of n] by (auto simp: digits_value_def split: if_splits)
  then show ?thesis by (cases "dec n") (auto simp: is_digit_def byte_def)
qed

lemma parse_u64_dec [simp]: "n \<le> U64_MAX \<Longrightarrow> parse_u64 (dec n) = Some n"
  using dec_no_plus[of n] by (simp add: parse_u64_def digits_value_dec)

lemma parse_u32_dec [simp]: "n \<le> U32_MAX \<Longrightarrow> parse_u32 (dec n) = Some n"
  by (simp add: parse_u32_def U32_MAX_def U64_MAX_def)

definition opt_words :: "string \<Rightarrow> ('a \<Rightarrow> string) \<Rightarrow> 'a option \<Rightarrow> string list" where
  "opt_words n f v = (case v of Some x \<Rightarrow> [n, f x] | None \<Rightarrow> [])"

definition switch_words :: "string \<Rightarrow> bool \<Rightarrow> string list" where
  "switch_words n b = (if b then [n] else [])"

definition many_words :: "string \<Rightarrow> string list \<Rightarrow> string list" where
  "many_words n vs = concat (map (\<lambda>v. [n, v]) vs)"

fun policy_text :: "exec_policy \<Rightarrow> string" where
  "policy_text Allowlist = ''allowlist''"
| "policy_text AnyCommand = ''any''"

fun shape_text :: "budget_shape \<Rightarrow> string" where
  "shape_text Gross = ''gross''"
| "shape_text MissPlusOut = ''miss-plus-out''"

fun level_text :: "incentives_level \<Rightarrow> string" where
  "level_text BaseLevel = ''base''"
| "level_text ContractLevel = ''contract''"
| "level_text FullLevel = ''full''"

definition args_words :: "(real \<Rightarrow> string) \<Rightarrow> string \<Rightarrow> run_args \<Rightarrow> string list" where
  "args_words ft wd a =
     [''--goal'', ra_goal a] @ [''--workdir'', wd] @ [''--model'', ra_model a]
     @ opt_words ''--endpoint'' id (ra_endpoint a) @ [''--api-key-env'', ra_api_key_env a]
     @ many_words ''--header'' (ra_headers a) @ many_words ''--allow-cmd'' (ra_allow_cmd a)
     @ [''--exec-policy'', policy_text (ra_exec_policy a)] @ opt_words ''--budget-steps'' dec (ra_budget_steps a)
     @ opt_words ''--budget-actions'' dec (ra_budget_actions a) @ opt_words ''--budget-tokens'' dec (ra_budget_tokens a)
     @ opt_words ''--budget-shape'' shape_text (ra_budget_shape a) @ opt_words ''--max-tokens'' dec (ra_max_tokens a)
     @ many_words ''--context-file'' (ra_context_files a) @ opt_words ''--dump-events'' id (ra_dump_events a)
     @ opt_words ''--log-path'' id (ra_log_path a) @ switch_words ''--no-log'' (ra_no_log a)
     @ switch_words ''--keep-thinking'' (ra_keep_thinking a) @ opt_words ''--proof-cmd'' id (ra_proof_cmd a)
     @ [''--incentives'', level_text (ra_incentives a)] @ switch_words ''--bets'' (ra_bets a)
     @ opt_words ''--compaction'' ft (ra_compaction a) @ opt_words ''--thinking-keep'' dec (ra_thinking_keep a)
     @ opt_words ''--collapse-hysteresis'' dec (ra_collapse_hysteresis a)
     @ switch_words ''--allow-dirty-workdir'' (ra_allow_dirty a) @ many_words ''--pass-env'' (ra_pass_env a)"

text \<open>The numbers fit their types, the counts of steps and actions are not zero, the fraction is one.\<close>

definition fits :: "nat \<Rightarrow> nat \<Rightarrow> nat option \<Rightarrow> bool" where
  "fits lo hi v \<longleftrightarrow> (case v of Some n \<Rightarrow> lo \<le> n \<and> n \<le> hi | None \<Rightarrow> True)"

definition is_fraction :: "real option \<Rightarrow> bool" where
  "is_fraction v \<longleftrightarrow> (case v of Some f \<Rightarrow> 0 < f \<and> f \<le> 1 | None \<Rightarrow> True)"

definition args_ok :: "run_args \<Rightarrow> bool" where
  "args_ok a \<longleftrightarrow> fits 1 U32_MAX (ra_budget_steps a) \<and> fits 1 U32_MAX (ra_budget_actions a)
     \<and> fits 0 U64_MAX (ra_budget_tokens a) \<and> fits 0 U64_MAX (ra_max_tokens a) \<and> fits 0 U64_MAX (ra_thinking_keep a)
     \<and> fits 0 U64_MAX (ra_collapse_hysteresis a) \<and> is_fraction (ra_compaction a) \<and> ra_exec_wrap a = None"

text \<open>Words that do one thing to the builder, whatever follows them.\<close>

definition leads :: "string list \<Rightarrow> (run_builder \<Rightarrow> run_builder) \<Rightarrow> bool" where
  "leads ws g \<longleftrightarrow> (\<forall>u b rest. parse_flags u RUN_FLAGS b (ws @ rest) = parse_flags u RUN_FLAGS (g b) rest)"

lemma leads_nil: "leads [] id" by (simp add: leads_def)

lemma leads_append: "leads xs g \<Longrightarrow> leads ys h \<Longrightarrow> leads (xs @ ys) (h \<circ> g)"
  by (simp add: leads_def)

lemma split_plain: "CHR ''='' \<notin> set n \<Longrightarrow> split_flag n = (n, None)"
  by (simp add: split_flag_def split_once_def)

lemmas setter_defs =
  set_goal_def set_workdir_def set_model_def set_endpoint_def set_dump_events_def set_log_path_def
  set_no_log_def set_keep_thinking_def set_allow_cmd_def set_context_file_def set_max_tokens_def
  set_budget_tokens_def set_exec_policy_def set_budget_shape_def set_budget_steps_def set_budget_actions_def
  set_proof_cmd_def set_api_key_env_def set_header_def set_bets_def set_compaction_def
  set_thinking_keep_def set_collapse_hysteresis_def set_allow_dirty_workdir_def set_pass_env_def

lemma flag_found:
  "List.find (\<lambda>f. fl_name f = ''--goal'') RUN_FLAGS = Some (valued ''--goal'' set_goal)"
  "List.find (\<lambda>f. fl_name f = ''--workdir'') RUN_FLAGS = Some (valued ''--workdir'' set_workdir)"
  "List.find (\<lambda>f. fl_name f = ''--model'') RUN_FLAGS = Some (valued ''--model'' set_model)"
  "List.find (\<lambda>f. fl_name f = ''--endpoint'') RUN_FLAGS = Some (valued ''--endpoint'' set_endpoint)"
  "List.find (\<lambda>f. fl_name f = ''--dump-events'') RUN_FLAGS = Some (valued ''--dump-events'' set_dump_events)"
  "List.find (\<lambda>f. fl_name f = ''--log-path'') RUN_FLAGS = Some (valued ''--log-path'' set_log_path)"
  "List.find (\<lambda>f. fl_name f = ''--no-log'') RUN_FLAGS = Some (bare ''--no-log'' set_no_log)"
  "List.find (\<lambda>f. fl_name f = ''--keep-thinking'') RUN_FLAGS = Some (bare ''--keep-thinking'' set_keep_thinking)"
  "List.find (\<lambda>f. fl_name f = ''--allow-cmd'') RUN_FLAGS = Some (valued ''--allow-cmd'' set_allow_cmd)"
  "List.find (\<lambda>f. fl_name f = ''--context-file'') RUN_FLAGS = Some (valued ''--context-file'' set_context_file)"
  "List.find (\<lambda>f. fl_name f = ''--max-tokens'') RUN_FLAGS = Some (valued ''--max-tokens'' set_max_tokens)"
  "List.find (\<lambda>f. fl_name f = ''--budget-tokens'') RUN_FLAGS = Some (valued ''--budget-tokens'' set_budget_tokens)"
  "List.find (\<lambda>f. fl_name f = ''--exec-policy'') RUN_FLAGS = Some (valued ''--exec-policy'' set_exec_policy)"
  "List.find (\<lambda>f. fl_name f = ''--budget-shape'') RUN_FLAGS = Some (valued ''--budget-shape'' set_budget_shape)"
  "List.find (\<lambda>f. fl_name f = ''--budget-steps'') RUN_FLAGS = Some (valued ''--budget-steps'' set_budget_steps)"
  "List.find (\<lambda>f. fl_name f = ''--budget-actions'') RUN_FLAGS = Some (valued ''--budget-actions'' set_budget_actions)"
  "List.find (\<lambda>f. fl_name f = ''--proof-cmd'') RUN_FLAGS = Some (valued ''--proof-cmd'' set_proof_cmd)"
  "List.find (\<lambda>f. fl_name f = ''--api-key-env'') RUN_FLAGS = Some (valued ''--api-key-env'' set_api_key_env)"
  "List.find (\<lambda>f. fl_name f = ''--header'') RUN_FLAGS = Some (valued ''--header'' set_header)"
  "List.find (\<lambda>f. fl_name f = ''--incentives'') RUN_FLAGS = Some (valued ''--incentives'' set_incentives)"
  "List.find (\<lambda>f. fl_name f = ''--bets'') RUN_FLAGS = Some (bare ''--bets'' set_bets)"
  "List.find (\<lambda>f. fl_name f = ''--compaction'') RUN_FLAGS = Some (valued ''--compaction'' set_compaction)"
  "List.find (\<lambda>f. fl_name f = ''--thinking-keep'') RUN_FLAGS = Some (valued ''--thinking-keep'' set_thinking_keep)"
  "List.find (\<lambda>f. fl_name f = ''--collapse-hysteresis'') RUN_FLAGS = Some (valued ''--collapse-hysteresis'' set_collapse_hysteresis)"
  "List.find (\<lambda>f. fl_name f = ''--allow-dirty-workdir'') RUN_FLAGS = Some (bare ''--allow-dirty-workdir'' set_allow_dirty_workdir)"
  "List.find (\<lambda>f. fl_name f = ''--pass-env'') RUN_FLAGS = Some (valued ''--pass-env'' set_pass_env)"
  by (simp_all add: RUN_FLAGS_def valued_def bare_def)

lemma names_read_back:
  "exec_policy_of (policy_text pol) = Inr pol" "parse_budget_shape (shape_text sh) = Inr sh"
  "set_incentives b (Some (level_text lv)) = Inr (b\<lparr>rb_incentives := Some lv\<rparr>)"
  subgoal by (cases pol) (simp_all add: exec_policy_of_def)
  subgoal by (cases sh) (simp_all add: parse_budget_shape_def)
  subgoal by (cases lv) (simp_all add: set_incentives_def)
  done

lemma push_update:
  "b\<lparr>rb_headers := rb_headers b @ [v]\<rparr> = rb_headers_update (\<lambda>vs. vs @ [v]) b"
  "b\<lparr>rb_allow_cmd := rb_allow_cmd b @ [v]\<rparr> = rb_allow_cmd_update (\<lambda>vs. vs @ [v]) b"
  "b\<lparr>rb_context_files := rb_context_files b @ [v]\<rparr> = rb_context_files_update (\<lambda>vs. vs @ [v]) b"
  "b\<lparr>rb_pass_env := rb_pass_env b @ [v]\<rparr> = rb_pass_env_update (\<lambda>vs. vs @ [v]) b"
  by (cases b; simp)+

lemma word_leads:
  "leads [''--goal'', v] (rb_goal_update (\<lambda>_. Some v))"
  "leads [''--workdir'', v] (rb_workdir_update (\<lambda>_. Some v))"
  "leads [''--model'', v] (rb_model_update (\<lambda>_. Some v))"
  "leads [''--endpoint'', v] (rb_endpoint_update (\<lambda>_. Some v))"
  "leads [''--api-key-env'', v] (rb_api_key_env_update (\<lambda>_. Some v))"
  "leads [''--dump-events'', v] (rb_dump_events_update (\<lambda>_. Some v))"
  "leads [''--log-path'', v] (rb_log_path_update (\<lambda>_. Some v))"
  "leads [''--proof-cmd'', v] (rb_proof_cmd_update (\<lambda>_. Some v))"
  "leads [''--exec-policy'', policy_text pol] (rb_exec_policy_update (\<lambda>_. Some pol))"
  "leads [''--budget-shape'', shape_text sh] (rb_budget_shape_update (\<lambda>_. Some sh))"
  "leads [''--incentives'', level_text lv] (rb_incentives_update (\<lambda>_. Some lv))"
  "leads [''--header'', v] (rb_headers_update (\<lambda>vs. vs @ [v]))"
  "leads [''--allow-cmd'', v] (rb_allow_cmd_update (\<lambda>vs. vs @ [v]))"
  "leads [''--context-file'', v] (rb_context_files_update (\<lambda>vs. vs @ [v]))"
  "leads [''--pass-env'', v] (rb_pass_env_update (\<lambda>vs. vs @ [v]))"
  "leads [''--no-log''] (rb_no_log_update (\<lambda>_. True))"
  "leads [''--keep-thinking''] (rb_keep_thinking_update (\<lambda>_. True))"
  "leads [''--bets''] (rb_bets_update (\<lambda>_. True))"
  "leads [''--allow-dirty-workdir''] (rb_allow_dirty_update (\<lambda>_. True))"
  by (simp_all add: leads_def flag_found valued_def bare_def split_plain try_then_def setter_defs names_read_back
      push_update push_value_def value_or_empty_def)

lemma number_leads:
  "0 < n \<Longrightarrow> n \<le> U32_MAX \<Longrightarrow> leads [''--budget-steps'', dec n] (rb_budget_steps_update (\<lambda>_. Some n))"
  "0 < n \<Longrightarrow> n \<le> U32_MAX \<Longrightarrow> leads [''--budget-actions'', dec n] (rb_budget_actions_update (\<lambda>_. Some n))"
  "n \<le> U64_MAX \<Longrightarrow> leads [''--budget-tokens'', dec n] (rb_budget_tokens_update (\<lambda>_. Some n))"
  "n \<le> U64_MAX \<Longrightarrow> leads [''--max-tokens'', dec n] (rb_max_tokens_update (\<lambda>_. Some n))"
  "n \<le> U64_MAX \<Longrightarrow> leads [''--thinking-keep'', dec n] (rb_thinking_keep_update (\<lambda>_. Some n))"
  "n \<le> U64_MAX \<Longrightarrow> leads [''--collapse-hysteresis'', dec n] (rb_collapse_hysteresis_update (\<lambda>_. Some n))"
  "parse_f64 w = Some (Finite x) \<Longrightarrow> 0 < x \<Longrightarrow> x \<le> 1 \<Longrightarrow> leads [''--compaction'', w] (rb_compaction_update (\<lambda>_. Some x))"
  by (simp_all add: leads_def flag_found valued_def bare_def split_plain try_then_def setter_defs value_or_empty_def)

definition or_old :: "'a option \<Rightarrow> 'a option \<Rightarrow> 'a option" where
  "or_old v old = (case v of Some x \<Rightarrow> Some x | None \<Rightarrow> old)"

lemma or_old_None [simp]: "or_old v None = v" by (simp add: or_old_def split: option.split)

lemma leads_opt:
  assumes "\<And>x. v = Some x \<Longrightarrow> leads [n, f x] (upd (\<lambda>_. Some x))" "\<And>b. upd (\<lambda>old. old) b = b"
  shows "leads (opt_words n f v) (upd (or_old v))"
proof (cases v)
  case None
  then have "upd (or_old v) = id" using assms(2) by (simp add: or_old_def[abs_def] fun_eq_iff)
  then show ?thesis using None leads_nil by (simp add: opt_words_def)
next
  case (Some x)
  then have "or_old v = (\<lambda>_. Some x)" by (auto simp: or_old_def)
  then show ?thesis using Some assms(1) by (simp add: opt_words_def)
qed

lemma leads_switch:
  assumes "leads [n] (upd (\<lambda>_. True))" "\<And>b. upd (\<lambda>old. old) b = b"
  shows "leads (switch_words n x) (upd (\<lambda>old. old \<or> x))"
proof (cases x)
  case False
  then have "upd (\<lambda>old. old) = id" using assms(2) by auto
  then show ?thesis using False leads_nil by (simp add: switch_words_def id_def)
qed (use assms(1) in \<open>simp add: switch_words_def\<close>)

lemma leads_many:
  assumes "\<And>v. leads [n, v] (upd (\<lambda>vs. vs @ [v]))" "\<And>f g b. upd f (upd g b) = upd (\<lambda>x. f (g x)) b"
    "\<And>b. upd (\<lambda>old. old) b = b"
  shows "leads (many_words n vs) (upd (\<lambda>old. old @ vs))"
proof (induction vs)
  case Nil
  have "upd (\<lambda>old. old) = id" using assms(3) by auto
  then show ?case using leads_nil by (simp add: many_words_def id_def)
next
  case (Cons v vs)
  have "upd (\<lambda>old. old @ vs) \<circ> upd (\<lambda>old. old @ [v]) = upd (\<lambda>old. old @ v # vs)" using assms(2) by auto
  then show ?case using leads_append[OF assms(1)[of v] Cons.IH] by (simp add: many_words_def)
qed

text \<open>whatever the arguments, the command line that spells them is parsed to them; a flag's value
  may be any text, one that looks like a flag included.\<close>

theorem cli_round_trip:
  assumes ok: "args_ok a" and wd: "ra_workdir a = components wd"
    and fraction: "\<And>x. ra_compaction a = Some x \<Longrightarrow> parse_f64 (ft x) = Some (Finite x)"
  shows "parse_run_args usage (''rof'' # ''run'' # args_words ft wd a) = Inr a"
proof -
  have n: "0 < n \<and> n \<le> U32_MAX" if "ra_budget_steps a = Some n \<or> ra_budget_actions a = Some n" for n
    using ok that by (auto simp: args_ok_def fits_def)
  have m: "n \<le> U64_MAX" if "ra_budget_tokens a = Some n \<or> ra_max_tokens a = Some n \<or> ra_thinking_keep a = Some n
      \<or> ra_collapse_hysteresis a = Some n" for n
    using ok that by (auto simp: args_ok_def fits_def)
  have f: "0 < x \<and> x \<le> 1" if "ra_compaction a = Some x" for x
    using ok that by (simp add: args_ok_def is_fraction_def)
  define g :: "run_builder \<Rightarrow> run_builder" where "g =
     rb_pass_env_update (\<lambda>old. old @ ra_pass_env a) \<circ> rb_allow_dirty_update (\<lambda>old. old \<or>
      ra_allow_dirty a) \<circ> rb_collapse_hysteresis_update (or_old (ra_collapse_hysteresis a)) \<circ>
      rb_thinking_keep_update (or_old (ra_thinking_keep a)) \<circ> rb_compaction_update (or_old (ra_compaction a))
      \<circ> rb_bets_update (\<lambda>old. old \<or> ra_bets a) \<circ> rb_incentives_update (\<lambda>_. Some
      (ra_incentives a)) \<circ> rb_proof_cmd_update (or_old (ra_proof_cmd a)) \<circ> rb_keep_thinking_update
      (\<lambda>old. old \<or> ra_keep_thinking a) \<circ> rb_no_log_update (\<lambda>old. old \<or> ra_no_log a)
      \<circ> rb_log_path_update (or_old (ra_log_path a)) \<circ> rb_dump_events_update (or_old (ra_dump_events a))
      \<circ> rb_context_files_update (\<lambda>old. old @ ra_context_files a) \<circ> rb_max_tokens_update (or_old
      (ra_max_tokens a)) \<circ> rb_budget_shape_update (or_old (ra_budget_shape a)) \<circ> rb_budget_tokens_update
      (or_old (ra_budget_tokens a)) \<circ> rb_budget_actions_update (or_old (ra_budget_actions a)) \<circ>
      rb_budget_steps_update (or_old (ra_budget_steps a)) \<circ> rb_exec_policy_update (\<lambda>_. Some
      (ra_exec_policy a)) \<circ> rb_allow_cmd_update (\<lambda>old. old @ ra_allow_cmd a) \<circ> rb_headers_update
      (\<lambda>old. old @ ra_headers a) \<circ> rb_api_key_env_update (\<lambda>_. Some (ra_api_key_env a)) \<circ>
      rb_endpoint_update (or_old (ra_endpoint a)) \<circ> rb_model_update (\<lambda>_. Some (ra_model a)) \<circ>
      rb_workdir_update (\<lambda>_. Some wd) \<circ> rb_goal_update (\<lambda>_. Some (ra_goal a))"
  have "leads (args_words ft wd a) g"
    unfolding args_words_def g_def
    by (intro leads_append leads_opt leads_switch leads_many word_leads)
    (simp_all add: word_leads number_leads n m f fraction)
  then have parsed: "parse_flags u RUN_FLAGS empty_builder (args_words ft wd a) = Inr (g empty_builder)" for u
    unfolding leads_def by (metis append_Nil2 parse_flags.simps(1))
  show ?thesis
    using ok wd by (simp add: parse_run_args_def parse_table_def parsed try_then_def)
      (simp add: g_def empty_builder_def args_ok_def required_def or_default_def)
qed

text \<open>The arguments of the witness: a goal that looks like a flag, two headers, a fraction.\<close>

definition demo_args :: run_args where
  "demo_args =
     \<lparr>ra_goal = ''--bets=1'', ra_workdir = [RootDir, Normal ''w''], ra_model = ''m'', ra_endpoint = Some ''u'',
      ra_api_key_env = ''K'', ra_headers = [''a:b'', ''c:d''], ra_allow_cmd = [''ls''], ra_exec_policy = AnyCommand,
      ra_budget_steps = Some 7, ra_budget_actions = None, ra_budget_tokens = Some 900, ra_budget_shape = Some MissPlusOut,
      ra_max_tokens = None, ra_context_files = [''x''], ra_dump_events = None, ra_log_path = None, ra_no_log = True,
      ra_keep_thinking = False, ra_proof_cmd = None, ra_incentives = BaseLevel, ra_bets = True,
      ra_compaction = Some (1 / 2), ra_thinking_keep = None, ra_collapse_hysteresis = Some 3, ra_allow_dirty = False,
      ra_pass_env = [''P''], ra_exec_wrap = None\<rparr>"

theorem cli_round_trip_witness:
  "parse_run_args [] (''rof'' # ''run'' # args_words (\<lambda>_. ''0.5'') ''/w'' demo_args) = Inr demo_args"
proof (rule cli_round_trip)
  show "args_ok demo_args" by (simp add: args_ok_def demo_args_def fits_def is_fraction_def U32_MAX_def U64_MAX_def)
  show "ra_workdir demo_args = components ''/w''" by code_simp
  have "parse_f64 ''0.5'' = Some (Finite (1 / 2))" by code_simp
  then show "parse_f64 ''0.5'' = Some (Finite x)" if "ra_compaction demo_args = Some x" for x
    using that by (simp add: demo_args_def)
qed

section \<open>What the parser accepts\<close>

definition builder_ok :: "run_builder \<Rightarrow> bool" where
  "builder_ok b \<longleftrightarrow> fits 1 U32_MAX (rb_budget_steps b) \<and> fits 1 U32_MAX (rb_budget_actions b)
     \<and> fits 0 U64_MAX (rb_budget_tokens b) \<and> fits 0 U64_MAX (rb_max_tokens b) \<and> fits 0 U64_MAX (rb_thinking_keep b)
     \<and> fits 0 U64_MAX (rb_collapse_hysteresis b) \<and> is_fraction (rb_compaction b)"

lemma parse_flags_keeps:
  assumes keeps: "\<And>f b v b'. f \<in> set table \<Longrightarrow> P b \<Longrightarrow> fl_set f b v = Inr b' \<Longrightarrow> P b'"
  shows "P b \<Longrightarrow> parse_flags u table b ws = Inr b' \<Longrightarrow> P b'"
proof (induction "length ws" arbitrary: ws b rule: less_induct)
  case less
  show ?case
  proof (cases ws)
    case Nil
    then show ?thesis using less.prems by simp
  next
    case (Cons w rest)
    obtain k inl where w: "split_flag w = (k, inl)" by fastforce
    obtain f where f: "List.find (\<lambda>f. fl_name f = k) table = Some f"
      using less.prems(2) Cons w by (fastforce simp: Let_def split: option.splits)
    then have mem: "f \<in> set table" by (auto simp: find_Some_iff)
    have go: "P b'" if "try_then (fl_set f b v) (\<lambda>b1. parse_flags u table b1 vs) = Inr b'" "length vs < length ws" for v vs
      using that less.hyps[OF that(2)] keeps[OF mem less.prems(1)] by (cases "fl_set f b v") (auto simp: try_then_def)
    show ?thesis
    proof (cases "fl_takes_value f")
      case False
      then show ?thesis using less.prems(2) Cons w f go[of None rest] by simp
    next
      case True
      show ?thesis
      proof (cases inl)
        case (Some v)
        then show ?thesis using less.prems(2) Cons w f True go[of "Some v" rest] by simp
      next
        case None
        then show ?thesis
          using less.prems(2) Cons w f True go[of "Some (hd rest)" "tl rest"] by (cases rest) simp_all
      qed
    qed
  qed
qed

lemma parse_u64_bound: "parse_u64 s = Some n \<Longrightarrow> n \<le> U64_MAX"
  by (auto simp: parse_u64_def split: option.splits if_splits)

lemma parse_u32_bound: "parse_u32 s = Some n \<Longrightarrow> n \<le> U32_MAX"
  by (auto simp: parse_u32_def split: option.splits if_splits)

lemma other_fields_keep_ok [simp]:
  "builder_ok (rb_goal_update h0 b) = builder_ok b"
  "builder_ok (rb_workdir_update h1 b) = builder_ok b"
  "builder_ok (rb_model_update h2 b) = builder_ok b"
  "builder_ok (rb_endpoint_update h3 b) = builder_ok b"
  "builder_ok (rb_api_key_env_update h4 b) = builder_ok b"
  "builder_ok (rb_headers_update h5 b) = builder_ok b"
  "builder_ok (rb_allow_cmd_update h6 b) = builder_ok b"
  "builder_ok (rb_exec_policy_update h7 b) = builder_ok b"
  "builder_ok (rb_budget_shape_update h8 b) = builder_ok b"
  "builder_ok (rb_context_files_update h9 b) = builder_ok b"
  "builder_ok (rb_dump_events_update h10 b) = builder_ok b"
  "builder_ok (rb_log_path_update h11 b) = builder_ok b"
  "builder_ok (rb_no_log_update h12 b) = builder_ok b"
  "builder_ok (rb_keep_thinking_update h13 b) = builder_ok b"
  "builder_ok (rb_proof_cmd_update h14 b) = builder_ok b"
  "builder_ok (rb_incentives_update h15 b) = builder_ok b"
  "builder_ok (rb_bets_update h16 b) = builder_ok b"
  "builder_ok (rb_allow_dirty_update h17 b) = builder_ok b"
  "builder_ok (rb_pass_env_update h18 b) = builder_ok b"
  by (simp_all add: builder_ok_def)

lemma numbers_keep_ok:
  "builder_ok b \<Longrightarrow> 0 < n \<Longrightarrow> n \<le> U32_MAX \<Longrightarrow> builder_ok (b\<lparr>rb_budget_steps := Some n\<rparr>)"
  "builder_ok b \<Longrightarrow> 0 < n \<Longrightarrow> n \<le> U32_MAX \<Longrightarrow> builder_ok (b\<lparr>rb_budget_actions := Some n\<rparr>)"
  "builder_ok b \<Longrightarrow> n \<le> U64_MAX \<Longrightarrow> builder_ok (b\<lparr>rb_budget_tokens := Some n\<rparr>)"
  "builder_ok b \<Longrightarrow> n \<le> U64_MAX \<Longrightarrow> builder_ok (b\<lparr>rb_max_tokens := Some n\<rparr>)"
  "builder_ok b \<Longrightarrow> n \<le> U64_MAX \<Longrightarrow> builder_ok (b\<lparr>rb_thinking_keep := Some n\<rparr>)"
  "builder_ok b \<Longrightarrow> n \<le> U64_MAX \<Longrightarrow> builder_ok (b\<lparr>rb_collapse_hysteresis := Some n\<rparr>)"
  "builder_ok b \<Longrightarrow> 0 < x \<Longrightarrow> x \<le> 1 \<Longrightarrow> builder_ok (b\<lparr>rb_compaction := Some x\<rparr>)"
  by (simp_all add: builder_ok_def fits_def is_fraction_def)

lemma setters_keep_ok: "f \<in> set RUN_FLAGS \<Longrightarrow> builder_ok b \<Longrightarrow> fl_set f b v = Inr b' \<Longrightarrow> builder_ok b'"
proof -
  have sums: "map_sum id h r = Inr b' \<longleftrightarrow> (\<exists>x. r = Inr x \<and> b' = h x)" for h and r :: "string + 'x" and b' :: run_builder
    by (cases r) auto
  have "list_all (\<lambda>f. \<forall>b v b'. builder_ok b \<longrightarrow> fl_set f b v = Inr b' \<longrightarrow> builder_ok b') RUN_FLAGS"
    unfolding RUN_FLAGS_def list.pred_inject valued_def bare_def flag.simps
    by (intro conjI allI impI TrueI)
      (auto simp: setter_defs set_incentives_def sums intro!: numbers_keep_ok dest: parse_u64_bound parse_u32_bound
        split: option.splits if_splits sum.splits f64_value.splits)
  then show "f \<in> set RUN_FLAGS \<Longrightarrow> builder_ok b \<Longrightarrow> fl_set f b v = Inr b' \<Longrightarrow> builder_ok b'"
    by (auto simp: list_all_iff)
qed

lemma parsed_args_ok:
  assumes "parse_run_args usage argv = Inr a"
  shows "args_ok a"
proof -
  obtain b where b: "parse_table argv ''run'' usage (unknown_flag usage) RUN_FLAGS empty_builder = Inr b"
    using assms by (auto simp: parse_run_args_def try_then_def split: sum.splits)
  then have "parse_flags (unknown_flag usage) RUN_FLAGS empty_builder (drop 2 argv) = Inr b" by (simp add: parse_table_def split: if_splits)
  moreover have "builder_ok empty_builder" by (simp add: builder_ok_def empty_builder_def fits_def is_fraction_def)
  ultimately have "builder_ok b" using parse_flags_keeps[of RUN_FLAGS builder_ok] setters_keep_ok by blast
  moreover have "ra_budget_steps a = rb_budget_steps b \<and> ra_budget_actions a = rb_budget_actions b
    \<and> ra_budget_tokens a = rb_budget_tokens b \<and> ra_max_tokens a = rb_max_tokens b
    \<and> ra_thinking_keep a = rb_thinking_keep b \<and> ra_collapse_hysteresis a = rb_collapse_hysteresis b
    \<and> ra_compaction a = rb_compaction b \<and> ra_exec_wrap a = None"
    using assms b by (auto simp: parse_run_args_def try_then_def required_def
        split: sum.splits option.splits)
  ultimately show ?thesis by (simp add: args_ok_def builder_ok_def)
qed

lemma budget_facts:
  assumes "args_ok a"
  shows "config_ok (config (budget_for a t)) \<and> counters (budget_for a t) = zero_counters
    \<and> max_steps (config (budget_for a t)) = or_default 20 (ra_budget_steps a)
    \<and> max_refunds (config (budget_for a t)) = or_default 20 (ra_budget_steps a) div 4
    \<and> actions_per_trial (config (budget_for a t)) = or_default 30 (ra_budget_actions a)
    \<and> max_tokens (config (budget_for a t)) = (case ra_budget_tokens a of Some n \<Rightarrow> n | None \<Rightarrow>
         if ra_budget_steps a = None \<and> ra_context_files a \<noteq> [] then 4 * 50000 else 50000)
    \<and> max_wallclock (config (budget_for a t)) = nanos
         (if ra_budget_steps a = None \<and> ra_budget_actions a = None \<and> ra_budget_tokens a = None then 900 else 3600)"
proof -
  have base: "config_for UnattendedBatch = \<lparr>max_steps = 20, warn_steps = 12, max_tokens = 50000, max_wallclock = nanos 900,
      max_spend_cents = Some SPEND_ON_CENTS, same_action_cycles = 3, actions_per_trial = 30, max_refunds = 5\<rparr>"
    by (simp add: config_for_def)
  have warn: "0 < max (n - Suc 0) (Suc 0)" "min 12 (max (n - Suc 0) (Suc 0)) \<le> 4294967295" for n :: nat
    by (simp, rule order_trans[OF min.cobounded1], simp)
  have refunds: "n div 4 \<le> 4294967295" if "n \<le> 4294967295" for n :: nat
    using that by linarith
  show ?thesis
    using assms by (cases "ra_budget_steps a"; cases "ra_budget_actions a"; cases "ra_budget_tokens a")
      (simp_all add: budget_for_def base new_guard_def or_default_def with_steps_def config_ok_def U32_MAX_def args_ok_def
        fits_def Let_def warn refunds)
qed

text \<open>whatever is typed, arguments that parse have counts of steps and actions between one and
  the largest 32-bit number, numbers of 64 bits and a fraction above zero and at most one, and never an exec
  wrapper; the budget made of them is well formed and unspent, its flags have won over the defaults, and without
  flags it is the preset of a batch, with four times its tokens when files are pinned.\<close>

theorem parsed_args_fit:
  assumes "parse_run_args usage argv = Inr a"
  shows "args_ok a \<and> config_ok (config (budget_for a t)) \<and> counters (budget_for a t) = zero_counters
    \<and> max_steps (config (budget_for a t)) = or_default 20 (ra_budget_steps a)
    \<and> actions_per_trial (config (budget_for a t)) = or_default 30 (ra_budget_actions a)
    \<and> max_tokens (config (budget_for a t)) = (case ra_budget_tokens a of Some n \<Rightarrow> n | None \<Rightarrow>
         if ra_budget_steps a = None \<and> ra_context_files a \<noteq> [] then 4 * 50000 else 50000)
    \<and> max_wallclock (config (budget_for a t)) = nanos
         (if ra_budget_steps a = None \<and> ra_budget_actions a = None \<and> ra_budget_tokens a = None then 900 else 3600)"
  using parsed_args_ok[OF assms] budget_facts[of a t] by blast

theorem parsed_args_fit_witness:
  "args_ok demo_args \<and> max_steps (config (budget_for demo_args 0)) = 7 \<and> max_tokens (config (budget_for demo_args 0)) = 900"
  using parsed_args_fit[OF cli_round_trip_witness, of 0] by (simp add: demo_args_def or_default_def)

section \<open>The working directory\<close>

text \<open>a directory the guard accepts exists, is the real path of what was typed, is
  neither the root of the file system nor the home directory nor a checkout of the harness; and unless dirt was
  allowed, it is no repository, or one whose status git reported as clean.\<close>

theorem accepted_workdir_is_safe:
  assumes "validate_workdir te env p allow_dirty w = (Inr canon, w')"
  shows "tf_is_dir te p w \<and> fs_canonicalize te p w = Inr canon \<and> parent canon \<noteq> None
    \<and> (\<forall>h. env ''HOME'' = Some h \<and> h \<noteq> [] \<longrightarrow> canon \<noteq> components h)
    \<and> \<not> te_is_file te (join_path canon (components ''crates/rof/Cargo.toml'')) w
    \<and> (allow_dirty \<and> w' = w
       \<or> \<not> tf_exists te (git_dir canon) w \<and> w' = w
       \<or> (\<exists>oc. te_git te (hermetic_git canon [''status'', ''--porcelain'', ''--no-renames'']) None w = (GitExit oc, w')
            \<and> go_success oc \<and> trim (utf8_lossy (go_stdout oc)) = []))"
  using assms
  by (auto simp: validate_workdir_def workdir_state_def split: if_splits sum.splits option.splits prod.splits
      workdir_status.splits git_end.splits)

theorem accepted_workdir_is_safe_witness:
  "validate_workdir (demo_tree False) [''HOME'' \<mapsto> ''/home''] [RootDir, Normal ''w''] False [''x'']
     = (Inr [RootDir, Normal ''w''], [''x'']) \<and> parent [RootDir, Normal ''w''] \<noteq> None"
proof -
  have v: "validate_workdir (demo_tree False) [''HOME'' \<mapsto> ''/home''] [RootDir, Normal ''w''] False [''x'']
     = (Inr [RootDir, Normal ''w''], [''x''])" by code_simp
  show ?thesis using v accepted_workdir_is_safe[OF v] by simp
qed

section \<open>Three surprises\<close>

text \<open>A switch does not look at an inline value: saying no is saying yes.\<close>

lemma switch_ignores_its_value:
  "parse_flags u RUN_FLAGS b ((''--no-log='' @ v) # ws) = parse_flags u RUN_FLAGS (b\<lparr>rb_no_log := True\<rparr>) ws"
  "parse_flags u RUN_FLAGS b ((''--bets='' @ v) # ws) = parse_flags u RUN_FLAGS (b\<lparr>rb_bets := True\<rparr>) ws"
  by (simp_all add: split_flag_def split_once_def flag_found bare_def setter_defs try_then_def)

text \<open>Zero passes where the message asks for a positive integer.\<close>

lemma zero_is_accepted:
  "set_max_tokens b (Some ''0'') = Inr (b\<lparr>rb_max_tokens := Some 0\<rparr>)"
  "set_budget_tokens b (Some ''0'') = Inr (b\<lparr>rb_budget_tokens := Some 0\<rparr>)"
  "set_thinking_keep b (Some ''0'') = Inr (b\<lparr>rb_thinking_keep := Some 0\<rparr>)"
  "set_collapse_hysteresis b (Some ''0'') = Inr (b\<lparr>rb_collapse_hysteresis := Some 0\<rparr>)"
proof -
  have "parse_u64 ''0'' = Some 0" by code_simp
  then show "set_max_tokens b (Some ''0'') = Inr (b\<lparr>rb_max_tokens := Some 0\<rparr>)"
    "set_budget_tokens b (Some ''0'') = Inr (b\<lparr>rb_budget_tokens := Some 0\<rparr>)"
    "set_thinking_keep b (Some ''0'') = Inr (b\<lparr>rb_thinking_keep := Some 0\<rparr>)"
    "set_collapse_hysteresis b (Some ''0'') = Inr (b\<lparr>rb_collapse_hysteresis := Some 0\<rparr>)"
    by (simp_all add: setter_defs value_or_empty_def)
qed

text \<open>A log inside the work tree is kept out of the commits only when the two paths are spelled alike.\<close>

lemma sidecar_by_spelling:
  "sidecar_name [RootDir, Normal ''w''] [RootDir, Normal ''w'', Normal ''l''] = Some ''l''"
  "sidecar_name [RootDir, Normal ''w''] [RootDir, Normal ''v'', ParentDir, Normal ''w'', Normal ''l''] = None"
  "normalize [RootDir, Normal ''v'', ParentDir, Normal ''w'', Normal ''l''] = [RootDir, Normal ''w'', Normal ''l'']"
  by code_simp+

end
