(* ===== verification/EvalArgs.thy ===== *)
theory EvalArgs
  imports Cli
begin

text \<open>
  The command line of \<open>rof eval\<close>, \<open>crates/rof/src/eval_cmd.rs\<close>: its flags on the parser of \<open>Cli\<close>, the checks after
  the parse, and what of the flags goes into the provenance of a report. A setter that shares its name with one of
  \<open>rof run\<close> is called \<open>eval_set_...\<close> here.
\<close>

section \<open>Arguments\<close>

record eval_args =
  ea_tasks_dir :: path
  ea_ids :: "string list"
  ea_out_dir :: path
  ea_report :: "path option"
  ea_winnability_only :: bool
  ea_lenient_apply :: bool
  ea_agent :: bool
  ea_endpoint :: "string option"
  ea_model :: "string option"
  ea_api_key_env :: "string option"
  ea_headers :: "string list"
  ea_allow_cmd :: "string list"
  ea_exec_policy :: exec_policy
  ea_budget_steps :: "u32 option"
  ea_budget_actions :: "u32 option"
  ea_budget_tokens :: "u64 option"
  ea_budget_shape :: "budget_shape option"
  ea_max_tokens :: "usize option"
  ea_keep_thinking :: bool
  ea_in_container :: bool

record eval_builder =
  eb_tasks_dir :: "string option"
  eb_ids :: "string list"
  eb_out_dir :: "string option"
  eb_report :: "string option"
  eb_winnability_only :: bool
  eb_lenient_apply :: bool
  eb_agent :: bool
  eb_keep_thinking :: bool
  eb_in_container :: bool
  eb_model :: "string option"
  eb_endpoint :: "string option"
  eb_api_key_env :: "string option"
  eb_headers :: "string list"
  eb_allow_cmd :: "string list"
  eb_exec_policy :: "exec_policy option"
  eb_budget_steps :: "u32 option"
  eb_budget_actions :: "u32 option"
  eb_budget_tokens :: "u64 option"
  eb_budget_shape :: "budget_shape option"
  eb_max_tokens :: "usize option"

definition empty_eval :: eval_builder where
  "empty_eval =
     \<lparr>eb_tasks_dir = None, eb_ids = [], eb_out_dir = None, eb_report = None, eb_winnability_only = False,
      eb_lenient_apply = False, eb_agent = False, eb_keep_thinking = False, eb_in_container = False, eb_model = None,
      eb_endpoint = None, eb_api_key_env = None, eb_headers = [], eb_allow_cmd = [], eb_exec_policy = None,
      eb_budget_steps = None, eb_budget_actions = None, eb_budget_tokens = None, eb_budget_shape = None,
      eb_max_tokens = None\<rparr>"

section \<open>Setters\<close>

type_synonym eval_setter = "eval_builder \<Rightarrow> string option \<Rightarrow> string + eval_builder"

definition set_tasks_dir :: eval_setter where "set_tasks_dir b v = Inr (b\<lparr>eb_tasks_dir := v\<rparr>)"

definition set_ids :: eval_setter where
  "set_ids b v = Inr (b\<lparr>eb_ids := filter (\<lambda>s. s \<noteq> []) (split_on (CHR '','') (value_or_empty v))\<rparr>)"

definition set_out_dir :: eval_setter where "set_out_dir b v = Inr (b\<lparr>eb_out_dir := v\<rparr>)"
definition set_report :: eval_setter where "set_report b v = Inr (b\<lparr>eb_report := v\<rparr>)"
definition set_winnability_only :: eval_setter where "set_winnability_only b v = Inr (b\<lparr>eb_winnability_only := True\<rparr>)"
definition set_lenient_apply :: eval_setter where "set_lenient_apply b v = Inr (b\<lparr>eb_lenient_apply := True\<rparr>)"
definition set_agent :: eval_setter where "set_agent b v = Inr (b\<lparr>eb_agent := True\<rparr>)"
definition eval_set_model :: eval_setter where "eval_set_model b v = Inr (b\<lparr>eb_model := v\<rparr>)"
definition eval_set_endpoint :: eval_setter where "eval_set_endpoint b v = Inr (b\<lparr>eb_endpoint := v\<rparr>)"
definition eval_set_api_key_env :: eval_setter where "eval_set_api_key_env b v = Inr (b\<lparr>eb_api_key_env := v\<rparr>)"

definition eval_set_header :: eval_setter where
  "eval_set_header b v =
     (case v of
        None \<Rightarrow> Inl ''--header needs a value''
      | Some h \<Rightarrow>
          (case split_once (CHR '':'') h of
             Some _ \<Rightarrow> Inr (b\<lparr>eb_headers := eb_headers b @ [h]\<rparr>)
           | None \<Rightarrow> Inl (''--header needs NAME:VALUE, got '' @ debug_str h)))"

definition eval_set_allow_cmd :: eval_setter where
  "eval_set_allow_cmd b v = Inr (b\<lparr>eb_allow_cmd := push_value (eb_allow_cmd b) v\<rparr>)"

definition eval_set_budget_tokens :: eval_setter where
  "eval_set_budget_tokens b v =
     (case parse_u64 (value_or_empty v) of
        Some n \<Rightarrow> Inr (b\<lparr>eb_budget_tokens := Some n\<rparr>)
      | None \<Rightarrow> Inl (need_integer ''--budget-tokens'' (value_or_empty v)))"

definition eval_set_exec_policy :: eval_setter where
  "eval_set_exec_policy b v = map_sum id (\<lambda>p. b\<lparr>eb_exec_policy := Some p\<rparr>) (exec_policy_of (value_or_empty v))"

definition eval_set_budget_shape :: eval_setter where
  "eval_set_budget_shape b v =
     (case parse_budget_shape (value_or_empty v) of
        Inr s \<Rightarrow> Inr (b\<lparr>eb_budget_shape := Some s\<rparr>)
      | Inl _ \<Rightarrow> Inl (''--budget-shape needs gross or miss-plus-out, got '' @ debug_str (value_or_empty v)))"

definition eval_set_budget_steps :: eval_setter where
  "eval_set_budget_steps b v =
     (case parse_u32 (value_or_empty v) of
        None \<Rightarrow> Inl (need_integer ''--budget-steps'' (value_or_empty v))
      | Some n \<Rightarrow> if n = 0 then Inl ''--budget-steps must be > 0'' else Inr (b\<lparr>eb_budget_steps := Some n\<rparr>))"

definition eval_set_budget_actions :: eval_setter where
  "eval_set_budget_actions b v =
     (case parse_u32 (value_or_empty v) of
        None \<Rightarrow> Inl (need_integer ''--budget-actions'' (value_or_empty v))
      | Some n \<Rightarrow> if n = 0 then Inl ''--budget-actions must be > 0'' else Inr (b\<lparr>eb_budget_actions := Some n\<rparr>))"

definition eval_set_max_tokens :: eval_setter where
  "eval_set_max_tokens b v =
     (case parse_u64 (value_or_empty v) of
        Some n \<Rightarrow> Inr (b\<lparr>eb_max_tokens := Some n\<rparr>)
      | None \<Rightarrow> Inl (need_integer ''--max-tokens'' (value_or_empty v)))"

definition eval_set_keep_thinking :: eval_setter where "eval_set_keep_thinking b v = Inr (b\<lparr>eb_keep_thinking := True\<rparr>)"
definition set_in_container :: eval_setter where "set_in_container b v = Inr (b\<lparr>eb_in_container := True\<rparr>)"

definition EVAL_FLAGS :: "eval_builder flag list" where
  "EVAL_FLAGS =
     [valued ''--tasks-dir'' set_tasks_dir, valued ''--ids'' set_ids, valued ''--out-dir'' set_out_dir,
      valued ''--report'' set_report, bare ''--winnability-only'' set_winnability_only,
      bare ''--lenient-apply'' set_lenient_apply, bare ''--agent'' set_agent, valued ''--model'' eval_set_model,
      valued ''--endpoint'' eval_set_endpoint, valued ''--api-key-env'' eval_set_api_key_env,
      valued ''--header'' eval_set_header, valued ''--allow-cmd'' eval_set_allow_cmd,
      valued ''--budget-steps'' eval_set_budget_steps, valued ''--budget-actions'' eval_set_budget_actions,
      valued ''--budget-tokens'' eval_set_budget_tokens, valued ''--exec-policy'' eval_set_exec_policy,
      valued ''--budget-shape'' eval_set_budget_shape, valued ''--max-tokens'' eval_set_max_tokens,
      bare ''--keep-thinking'' eval_set_keep_thinking, bare ''--in-container'' set_in_container]"

definition eval_model :: "eval_builder \<Rightarrow> string + string option" where
  "eval_model b =
     (if eb_agent b
      then (case eb_model b of Some m \<Rightarrow> Inr (Some m) | None \<Rightarrow> Inl ''--agent requires --model ID'')
      else Inr (eb_model b))"

definition eval_endpoint :: "process_env \<Rightarrow> eval_builder \<Rightarrow> string + string option" where
  "eval_endpoint env b =
     (if eb_agent b then map_sum id Some (resolve_endpoint (eb_endpoint b) (env ''OPENAI_BASE_URL''))
      else Inr (eb_endpoint b))"

definition parse_eval :: "process_env \<Rightarrow> string \<Rightarrow> string list \<Rightarrow> string + eval_args" where
  "parse_eval env usage argv =
     try_then (parse_table argv ''eval'' usage (\<lambda>_. usage) EVAL_FLAGS empty_eval) (\<lambda>b.
       if eb_agent b \<and> eb_winnability_only b then Inl ''--agent and --winnability-only are mutually exclusive''
       else if eb_in_container b \<and> \<not> eb_agent b then Inl ''--in-container requires --agent''
       else
         try_then (eval_model b) (\<lambda>m.
         try_then (eval_endpoint env b) (\<lambda>e.
         try_then (required ''--tasks-dir'' (eb_tasks_dir b)) (\<lambda>td.
           Inr \<lparr>ea_tasks_dir = components td, ea_ids = eb_ids b,
                ea_out_dir = components (or_default ''/tmp/rof-eval-out'' (eb_out_dir b)),
                ea_report = map_option components (eb_report b), ea_winnability_only = eb_winnability_only b,
                ea_lenient_apply = eb_lenient_apply b, ea_agent = eb_agent b, ea_endpoint = e, ea_model = m,
                ea_api_key_env = eb_api_key_env b, ea_headers = eb_headers b, ea_allow_cmd = eb_allow_cmd b,
                ea_exec_policy = or_default Allowlist (eb_exec_policy b), ea_budget_steps = eb_budget_steps b,
                ea_budget_actions = eb_budget_actions b, ea_budget_tokens = eb_budget_tokens b,
                ea_budget_shape = eb_budget_shape b, ea_max_tokens = eb_max_tokens b,
                ea_keep_thinking = eb_keep_thinking b, ea_in_container = eb_in_container b\<rparr>))))"

section \<open>Provenance\<close>

definition apply_mode_for :: "eval_args \<Rightarrow> apply_mode" where
  "apply_mode_for a = (if ea_lenient_apply a then Lenient else Strict)"

definition PILOT_BUDGET_TOKENS :: u64 where "PILOT_BUDGET_TOKENS = 300000"
definition PILOT_BUDGET_STEPS :: u32 where "PILOT_BUDGET_STEPS = 60"
definition PILOT_BUDGET_ACTIONS :: u32 where "PILOT_BUDGET_ACTIONS = 120"

definition budget_recipe :: "eval_args \<Rightarrow> u64 \<times> u32 \<times> u32" where
  "budget_recipe a =
     (or_default PILOT_BUDGET_TOKENS (ea_budget_tokens a), or_default PILOT_BUDGET_STEPS (ea_budget_steps a),
      or_default PILOT_BUDGET_ACTIONS (ea_budget_actions a))"

definition estimand_for :: "eval_args \<Rightarrow> estimand" where
  "estimand_for a =
     (if \<not> ea_agent a then Ungraded else if ea_in_container a then InContainerReward else HarborOracle)"

definition exec_policy_for :: "eval_args \<Rightarrow> exec_policy_label" where
  "exec_policy_for a = (case ea_exec_policy a of Allowlist \<Rightarrow> LabelAllowlist | AnyCommand \<Rightarrow> LabelAny)"

definition budget_shape_for :: "eval_args \<Rightarrow> budget_shape_label" where
  "budget_shape_for a = (case ea_budget_shape a of Some MissPlusOut \<Rightarrow> LabelMissPlusOut | _ \<Rightarrow> LabelGross)"

definition eval_winnability_caps :: tool_caps where
  "eval_winnability_caps = \<lparr>can_create = True, can_patch = True, exec_prefixes = []\<rparr>"

definition provenance_of :: "string option \<Rightarrow> eval_args \<Rightarrow> run_provenance" where
  "provenance_of sha a =
     (case budget_recipe a of (n_tokens, n_steps, n_actions) \<Rightarrow>
        \<lparr>pv_git_sha = sha, pv_estimand = estimand_for a, pv_budget_tokens = n_tokens, pv_budget_steps = n_steps,
         pv_budget_actions = n_actions, pv_budget_shape = budget_shape_for a, pv_exec_policy = exec_policy_for a,
         pv_apply_mode = apply_mode_for a\<rparr>)"

text \<open>\<open>agent_args\<close> of \<open>eval_agent.rs\<close>: the arguments of the run of one instance.\<close>

definition agent_args :: "eval_args \<Rightarrow> path \<Rightarrow> string \<Rightarrow> path \<Rightarrow> run_args" where
  "agent_args a work goal events =
     \<lparr>ra_goal = goal, ra_workdir = work, ra_model = value_or_empty (ea_model a), ra_endpoint = ea_endpoint a,
      ra_api_key_env = or_default ''OPENAI_API_KEY'' (ea_api_key_env a), ra_headers = ea_headers a,
      ra_allow_cmd = ea_allow_cmd a, ra_exec_policy = ea_exec_policy a,
      ra_budget_steps = Some (or_default PILOT_BUDGET_STEPS (ea_budget_steps a)),
      ra_budget_actions = Some (or_default PILOT_BUDGET_ACTIONS (ea_budget_actions a)),
      ra_budget_tokens = Some (or_default PILOT_BUDGET_TOKENS (ea_budget_tokens a)),
      ra_budget_shape = ea_budget_shape a, ra_max_tokens = ea_max_tokens a, ra_context_files = [],
      ra_dump_events = Some (path_text events), ra_log_path = None, ra_no_log = False,
      ra_keep_thinking = ea_keep_thinking a, ra_proof_cmd = None, ra_incentives = FullLevel, ra_bets = False,
      ra_compaction = None, ra_thinking_keep = None, ra_collapse_hysteresis = None, ra_allow_dirty = False,
      ra_pass_env = [], ra_exec_wrap = None\<rparr>"

section \<open>What the parser accepts\<close>

definition eval_ok :: "eval_builder \<Rightarrow> bool" where
  "eval_ok b \<longleftrightarrow> fits 1 U32_MAX (eb_budget_steps b) \<and> fits 1 U32_MAX (eb_budget_actions b)
     \<and> fits 0 U64_MAX (eb_budget_tokens b) \<and> fits 0 U64_MAX (eb_max_tokens b)
     \<and> (\<forall>h \<in> set (eb_headers b). CHR '':'' \<in> set h)"

lemma other_eval_fields_ok [simp]:
  "eval_ok (eb_tasks_dir_update h0 b) = eval_ok b"
  "eval_ok (eb_ids_update h1 b) = eval_ok b"
  "eval_ok (eb_out_dir_update h2 b) = eval_ok b"
  "eval_ok (eb_report_update h3 b) = eval_ok b"
  "eval_ok (eb_winnability_only_update h4 b) = eval_ok b"
  "eval_ok (eb_lenient_apply_update h5 b) = eval_ok b"
  "eval_ok (eb_agent_update h6 b) = eval_ok b"
  "eval_ok (eb_keep_thinking_update h7 b) = eval_ok b"
  "eval_ok (eb_in_container_update h8 b) = eval_ok b"
  "eval_ok (eb_model_update h9 b) = eval_ok b"
  "eval_ok (eb_endpoint_update h10 b) = eval_ok b"
  "eval_ok (eb_api_key_env_update h11 b) = eval_ok b"
  "eval_ok (eb_allow_cmd_update h12 b) = eval_ok b"
  "eval_ok (eb_exec_policy_update h13 b) = eval_ok b"
  "eval_ok (eb_budget_shape_update h14 b) = eval_ok b"
  by (simp_all add: eval_ok_def)

lemma eval_numbers_ok:
  "eval_ok b \<Longrightarrow> 0 < n \<Longrightarrow> n \<le> U32_MAX \<Longrightarrow> eval_ok (b\<lparr>eb_budget_steps := Some n\<rparr>)"
  "eval_ok b \<Longrightarrow> 0 < n \<Longrightarrow> n \<le> U32_MAX \<Longrightarrow> eval_ok (b\<lparr>eb_budget_actions := Some n\<rparr>)"
  "eval_ok b \<Longrightarrow> n \<le> U64_MAX \<Longrightarrow> eval_ok (b\<lparr>eb_budget_tokens := Some n\<rparr>)"
  "eval_ok b \<Longrightarrow> n \<le> U64_MAX \<Longrightarrow> eval_ok (b\<lparr>eb_max_tokens := Some n\<rparr>)"
  "eval_ok b \<Longrightarrow> CHR '':'' \<in> set h \<Longrightarrow> eval_ok (b\<lparr>eb_headers := eb_headers b @ [h]\<rparr>)"
  by (simp_all add: eval_ok_def fits_def)

lemmas eval_setter_defs =
  set_tasks_dir_def set_ids_def set_out_dir_def set_report_def set_winnability_only_def set_lenient_apply_def
  set_agent_def eval_set_model_def eval_set_endpoint_def eval_set_api_key_env_def eval_set_header_def
  eval_set_allow_cmd_def eval_set_budget_tokens_def eval_set_exec_policy_def eval_set_budget_shape_def
  eval_set_budget_steps_def eval_set_budget_actions_def eval_set_max_tokens_def eval_set_keep_thinking_def
  set_in_container_def

lemma split_once_some: "split_once d s = Some ab \<Longrightarrow> d \<in> set s"
  by (simp add: split_once_def split: if_splits)

lemma eval_setters_keep_ok: "f \<in> set EVAL_FLAGS \<Longrightarrow> eval_ok b \<Longrightarrow> fl_set f b v = Inr b' \<Longrightarrow> eval_ok b'"
proof -
  have sums: "map_sum id h r = Inr b' \<longleftrightarrow> (\<exists>x. r = Inr x \<and> b' = h x)" for h and r :: "string + 'x" and b' :: eval_builder
    by (cases r) auto
  have "list_all (\<lambda>f. \<forall>b v b'. eval_ok b \<longrightarrow> fl_set f b v = Inr b' \<longrightarrow> eval_ok b') EVAL_FLAGS"
    unfolding EVAL_FLAGS_def list.pred_inject valued_def bare_def flag.simps
    by (intro conjI allI impI TrueI)
      (auto simp: eval_setter_defs sums intro!: eval_numbers_ok dest: parse_u64_bound parse_u32_bound split_once_some
        split: option.splits if_splits sum.splits)
  then show "f \<in> set EVAL_FLAGS \<Longrightarrow> eval_ok b \<Longrightarrow> fl_set f b v = Inr b' \<Longrightarrow> eval_ok b'"
    by (auto simp: list_all_iff)
qed

lemma resolved_endpoint: "resolve_endpoint flag env = Inr e \<Longrightarrow> trim e \<noteq> []"
  by (auto simp: resolve_endpoint_def split: option.splits if_splits)

text \<open>flags of an evaluation that parse ask for the agent only with a model and an
  endpoint and never together with the winnability check alone, for a container only with the agent; every header
  has a colon; and the arguments made of them for the run of any instance satisfy what the parser of
  \<open>rof run\<close> guarantees.\<close>

theorem parsed_eval_is_consistent:
  assumes "parse_eval env usage argv = Inr a"
  shows "(if ea_agent a then ea_model a \<noteq> None \<and> (\<exists>e. ea_endpoint a = Some e \<and> trim e \<noteq> []) \<and> \<not> ea_winnability_only a
      else \<not> ea_in_container a)
    \<and> (\<forall>h \<in> set (ea_headers a). CHR '':'' \<in> set h) \<and> args_ok (agent_args a work goal events)"
proof -
  obtain b where t: "parse_table argv ''eval'' usage (\<lambda>_. usage) EVAL_FLAGS empty_eval = Inr b"
    using assms by (auto simp: parse_eval_def try_then_def split: sum.splits)
  then have "parse_flags (\<lambda>_. usage) EVAL_FLAGS empty_eval (drop 2 argv) = Inr b" by (simp add: parse_table_def split: if_splits)
  moreover have "eval_ok empty_eval" by (simp add: eval_ok_def empty_eval_def fits_def)
  ultimately have ok: "eval_ok b" using parse_flags_keeps[of EVAL_FLAGS eval_ok] eval_setters_keep_ok by blast
  obtain m e td where m: "eval_model b = Inr m" and e: "eval_endpoint env b = Inr e"
    and excl: "\<not> (eb_agent b \<and> eb_winnability_only b)" "\<not> (eb_in_container b \<and> \<not> eb_agent b)"
    and a: "ea_agent a = eb_agent b \<and> ea_model a = m \<and> ea_endpoint a = e \<and> ea_winnability_only a = eb_winnability_only b
      \<and> ea_in_container a = eb_in_container b \<and> ea_headers a = eb_headers b \<and> ea_budget_steps a = eb_budget_steps b
      \<and> ea_budget_actions a = eb_budget_actions b \<and> ea_budget_tokens a = eb_budget_tokens b \<and> ea_max_tokens a = eb_max_tokens b"
    using assms t by (auto simp: parse_eval_def try_then_def split: sum.splits if_splits)
  have "m \<noteq> None" if "eb_agent b" using m that by (cases "eb_model b") (auto simp: eval_model_def)
  moreover have "\<exists>x. e = Some x \<and> trim x \<noteq> []" if "eb_agent b"
  proof (cases "resolve_endpoint (eb_endpoint b) (env ''OPENAI_BASE_URL'')")
    case (Inr x)
    then show ?thesis using e that resolved_endpoint by (auto simp: eval_endpoint_def)
  qed (use e that in \<open>simp add: eval_endpoint_def\<close>)
  moreover have "args_ok (agent_args a work goal events)"
    using ok a by (auto simp: args_ok_def agent_args_def eval_ok_def fits_def or_default_def is_fraction_def U32_MAX_def
        U64_MAX_def PILOT_BUDGET_STEPS_def PILOT_BUDGET_ACTIONS_def PILOT_BUDGET_TOKENS_def split: option.splits)
  ultimately show ?thesis using a excl ok by (auto simp: eval_ok_def)
qed

theorem parsed_eval_is_consistent_witness:
  "\<exists>a. parse_eval [''OPENAI_BASE_URL'' \<mapsto> ''u''] [] [''rof'', ''eval'', ''--agent'', ''--tasks-dir'', ''/t'', ''--model=m'', ''--header'', ''a:b''] = Inr a
     \<and> ea_model a \<noteq> None \<and> args_ok (agent_args a [] [] [])"
proof -
  let ?p = "parse_eval [''OPENAI_BASE_URL'' \<mapsto> ''u''] [] [''rof'', ''eval'', ''--agent'', ''--tasks-dir'', ''/t'', ''--model=m'', ''--header'', ''a:b'']"
  have "(case ?p of Inr a \<Rightarrow> ea_agent a | Inl _ \<Rightarrow> False)" by code_simp
  then obtain a where a: "?p = Inr a" "ea_agent a" by (auto split: sum.splits)
  show ?thesis using a parsed_eval_is_consistent[OF a(1), of "[]" "[]" "[]"] by auto
qed

section \<open>The report names the run\<close>

text \<open>the block a report carries is the arm that ran: the budget of every instance's run
  has the steps, actions and tokens it records, its configuration charges tokens in the shape it records, and its
  commands go unchecked exactly when it says so.\<close>

theorem provenance_is_the_run:
  "max_steps (config (budget_for (agent_args a work goal events) t)) = pv_budget_steps (provenance_of sha a)
   \<and> actions_per_trial (config (budget_for (agent_args a work goal events) t)) = pv_budget_actions (provenance_of sha a)
   \<and> max_tokens (config (budget_for (agent_args a work goal events) t)) = pv_budget_tokens (provenance_of sha a)
   \<and> max_wallclock (config (budget_for (agent_args a work goal events) t)) = nanos 3600
   \<and> (rc_shape (config_of (agent_args a work goal events)) = MissPlusOut
        \<longleftrightarrow> pv_budget_shape (provenance_of sha a) = LabelMissPlusOut)
   \<and> (ra_exec_policy (agent_args a work goal events) = AnyCommand \<longleftrightarrow> pv_exec_policy (provenance_of sha a) = LabelAny)
   \<and> pv_apply_mode (provenance_of sha a) = apply_mode_for a
   \<and> (pv_estimand (provenance_of sha a) = InContainerReward \<longleftrightarrow> ea_agent a \<and> ea_in_container a)"
proof -
  have "budget_for (agent_args a work goal events) t = new_guard ((with_steps ((config_for UnattendedBatch)
      \<lparr>max_wallclock := nanos 3600\<rparr>) (pv_budget_steps (provenance_of sha a)))
      \<lparr>actions_per_trial := pv_budget_actions (provenance_of sha a), max_tokens := pv_budget_tokens (provenance_of sha a)\<rparr>) t"
    by (simp add: budget_for_def agent_args_def provenance_of_def budget_recipe_def Let_def)
  then show ?thesis
    by (auto simp: new_guard_def with_steps_def config_of_def agent_args_def provenance_of_def budget_recipe_def
        budget_shape_for_def exec_policy_for_def estimand_for_def or_default_def default_run_config_def Let_def
        split: option.splits budget_shape.splits exec_policy.splits)
qed

end
