(* ===== verification/Rof.thy ===== *)
theory Rof
  imports Cli Guarantees
begin

text \<open>
  The driver of \<open>rof run\<close>, \<open>crates/rof/src/main.rs\<close>: it builds the policy, the registry, the bets hook and the
  budget, runs the loop over the tree service, the six tools and the provider, and turns the end of the run into
  a patch, an exit code and the lines it prints.

  What the driver reaches outside the program is the record \<open>machine\<close>: files, git, processes, HTTP, the clock,
  the interrupt, the log file, the proof command. The loop's world is a \<open>git_ctx\<close> on that machine's world with the
  summary of the last diff, which the loop passes from \<open>diff\<close> to \<open>patch\<close>. The loop makes its own tree service, as the
  code does; the driver's, whose start is frozen before the run, computes the patch after it. A future that loses
  the race against the interrupt is dropped half way: \<open>mc_cut_model\<close> and \<open>mc_cut_tool\<close> say when, and in what world.

  Each event the loop emits is also a line of the dump file. Here those lines are written when the run is over, in the
  order of the events.
\<close>

section \<open>The machine\<close>

record 'w machine = "'w tree_env" +
  mc_files :: "'w append_fs"
  mc_proc :: "'w proc_env"
  mc_stage :: "'w stage_fs"
  mc_walk :: "path \<Rightarrow> 'w \<Rightarrow> node"
  mc_http :: "'w http_env"
  mc_wire :: wire_lib
  mc_lib :: lib
  mc_clock :: "'w \<Rightarrow> nat \<times> 'w"
  mc_interrupt :: "'w \<Rightarrow> bool \<times> 'w"
  mc_cut_model :: "request \<Rightarrow> 'w \<Rightarrow> 'w option"
  mc_cut_tool :: "invocation \<Rightarrow> 'w \<Rightarrow> 'w option"
  mc_log_open :: "string \<Rightarrow> 'w \<Rightarrow> (string + unit) \<times> 'w"
  mc_log_append :: "item \<Rightarrow> 'w \<Rightarrow> bool \<times> 'w"
  mc_probe :: "path \<Rightarrow> string list \<Rightarrow> 'w \<Rightarrow> bool \<times> 'w"
  mc_listing :: "path \<Rightarrow> 'w \<Rightarrow> dir_entry list option \<times> 'w"
  mc_pin :: "path \<Rightarrow> string \<Rightarrow> 'w \<Rightarrow> string option \<times> 'w"
  mc_view :: "json \<Rightarrow> string + view_args"
  mc_search :: "json \<Rightarrow> string + search_args"
  mc_edit :: "json \<Rightarrow> string + edit_args"
  mc_write :: "json \<Rightarrow> string + write_args"
  mc_cmd :: "json \<Rightarrow> string + string"
  mc_encode :: "agent_event \<Rightarrow> string option"

type_synonym 'w llm = "string \<Rightarrow> request \<Rightarrow> 'w \<Rightarrow> (llm_error + response) \<times> 'w"

section \<open>Bets, policy, tools\<close>

definition gate_post_batch :: "bool \<Rightarrow> claim \<Rightarrow> hunk list \<Rightarrow> commit_verdict" where
  "gate_post_batch incremental cl hs =
     (if hs = [] then Committed
      else if incremental then gate_batch_commit cl hs
      else gate_commit cl (list_all snd hs))"

definition hook_of :: "run_args \<Rightarrow> claim \<Rightarrow> hunk list \<Rightarrow> commit_verdict" where
  "hook_of a cl hs = (if ra_bets a then gate_post_batch (ra_proof_cmd a \<noteq> None) cl hs else Committed)"

definition policy_for :: "run_args \<Rightarrow> policy" where
  "policy_for a =
     \<lparr>po_root = ra_workdir a, po_allowed_commands = [], po_allowed_prefixes = ra_allow_cmd a, po_syntax_cmd = None,
      po_denied_globs = default_denied_globs, po_pass_env = ra_pass_env a,
      po_allow_any_cmd = (ra_exec_policy a = AnyCommand), po_exec_wrap = ra_exec_wrap a\<rparr>"

definition AGENT_TOOLS :: "string list" where
  "AGENT_TOOLS = [''view'', ''search'', ''edit'', ''write'', ''exec'', ''test'']"

definition agent_registry :: registry where
  "agent_registry =
     foldl register (new_registry (grant_check [(''agent'', AGENT_TOOLS)]))
       [view_tool, search_tool, edit_tool, write_tool, exec_tool, test_tool]"

definition run_tool :: "('w, 'm) machine_scheme \<Rightarrow> policy \<Rightarrow> invocation \<Rightarrow> 'w \<Rightarrow> (tool_error + tool_outcome) \<times> 'w" where
  "run_tool m p iv w =
     (let n = inv_name iv in
      if n = ''view'' then (execute_view m p (mc_view m) iv w, w)
      else if n = ''search'' then (execute_search m (mc_walk m) p (mc_search m) iv w, w)
      else if n = ''edit'' then execute_edit (mc_proc m) (mc_stage m) m p (mc_edit m) iv w
      else if n = ''write'' then execute_write (mc_proc m) (mc_stage m) m p (mc_write m) iv w
      else if n = ''exec'' then execute_exec (mc_proc m) p (mc_cmd m) iv w
      else execute_test (mc_proc m) p (mc_cmd m) iv w)"

section \<open>The world of the loop\<close>

type_synonym 'w loop_world = "'w git_ctx \<times> diff_summary"

definition on_disk :: "('w \<Rightarrow> 'a \<times> 'w) \<Rightarrow> 'w loop_world \<Rightarrow> 'a \<times> 'w loop_world" where
  "on_disk f lw = (case f (gx_world (fst lw)) of (r, w) \<Rightarrow> (r, (fst lw)\<lparr>gx_world := w\<rparr>, snd lw))"

definition on_tree :: "('w, 'a) git_prog \<Rightarrow> 'w loop_world \<Rightarrow> (string + 'a) \<times> 'w loop_world" where
  "on_tree f lw = (case f (fst lw) of (r, c) \<Rightarrow> (r, c, snd lw))"

definition tree_diff :: "('w, 'm) tree_env_scheme \<Rightarrow> 'w loop_world \<Rightarrow> (string + unit) \<times> 'w loop_world" where
  "tree_diff te lw =
     (case diff te (fst lw) of
        (Inl e, c) \<Rightarrow> (Inl e, c, snd lw)
      | (Inr d, c) \<Rightarrow> (Inr (), c, d))"

definition unless_cut :: "('w \<Rightarrow> 'w option) \<Rightarrow> ('w \<Rightarrow> 'a \<times> 'w) \<Rightarrow> 'w \<Rightarrow> 'a option \<times> 'w" where
  "unless_cut was_cut f w =
     (case was_cut w of Some w' \<Rightarrow> (None, w') | None \<Rightarrow> (case f w of (r, w') \<Rightarrow> (Some r, w')))"

definition loop_env :: "('w, 'm) machine_scheme \<Rightarrow> 'w llm \<Rightarrow> run_args \<Rightarrow> 'w loop_world env" where
  "loop_env m provider a =
     (let wd = ra_workdir a in
      \<lparr>en_lib = mc_lib m, en_cfg = config_of a, en_registry = agent_registry, en_agent = ''agent'',
       en_workdir = path_text wd,
       w_clock = on_disk (mc_clock m), w_cancel = on_disk (mc_interrupt m),
       w_complete = (\<lambda>model req. on_disk (unless_cut (mc_cut_model m req) (provider model req))),
       w_execute = (\<lambda>iv. on_disk (unless_cut (mc_cut_tool m iv) (run_tool m (policy_for a) iv))),
       w_log_open = (\<lambda>p. on_disk (mc_log_open m p)), w_append = (\<lambda>it. on_disk (mc_log_append m it)),
       w_ensure = on_tree (ensure m), w_baseline = on_tree (baseline m), w_rollback = on_tree (rollback m),
       w_restore = (\<lambda>hs. on_tree (andthen (restore_hunks m hs) (\<lambda>_. ret ()))),
       w_diff = tree_diff m, w_patch = (\<lambda>lw. on_tree (patch m (snd lw)) lw),
       w_probe = (\<lambda>argv. on_disk (mc_probe m wd argv)),
       w_listing = on_disk (mc_listing m wd), w_read_file = (\<lambda>f. on_disk (mc_pin m wd f)),
       w_bets_head = (\<lambda>_ lw. (Continue, lw)), w_bets_batch = (\<lambda>cl hs lw. (hook_of a cl hs, lw)),
       w_bets_step = (\<lambda>lw. (Continue, lw))\<rparr>)"

section \<open>One run\<close>

record run_result =
  rr_outcome :: "outcome option"
  rr_patch :: "string + string"
  rr_events :: "agent_event list"
  rr_stderr :: "string list"

definition ablation_text :: "ablation_metrics \<Rightarrow> string" where
  "ablation_text x =
     ''AblationMetrics { rollbacks: '' @ dec (rollbacks x) @ '', proven_hunks: '' @ dec (proven_hunks x)
     @ '', claim_mismatches: '' @ dec (claim_mismatches x) @ '', branch_wins: '' @ dec (branch_wins x)
     @ '', branch_spend_cents: '' @ dec (branch_spend_cents x) @ '' }''"

definition on_path :: "(path \<Rightarrow> 'w \<Rightarrow> 'w) \<Rightarrow> path option \<Rightarrow> 'w \<Rightarrow> 'w" where
  "on_path f p w = (case p of Some q \<Rightarrow> f q w | None \<Rightarrow> w)"

definition dump_path :: "run_args \<Rightarrow> path option" where
  "dump_path a = map_option components (ra_dump_events a)"

definition git_start :: "path \<Rightarrow> 'w \<Rightarrow> 'w git_ctx" where
  "git_start r w = \<lparr>gx_tree = new_tree r, gx_world = w, gx_cmds = []\<rparr>"

text \<open>The world the loop starts in, the driver's tree service, and whether the dump is attached.\<close>

definition prepare_run :: "('w, 'm) machine_scheme \<Rightarrow> run_args \<Rightarrow> 'w \<Rightarrow> bool \<times> tree_service \<times> 'w" where
  "prepare_run m a w =
     (let wd = ra_workdir a;
          w1 = on_path (af_remove (mc_files m)) (resolve_log_path a) w;
          w2 = on_path (af_remove (mc_files m)) (dump_path a) w1;
          c = snd (ensure m (git_start wd w2));
          w3 = on_path (exclude_sidecar m wd) (resolve_log_path a) (gx_world c);
          w4 = on_path (exclude_sidecar m wd) (dump_path a) w3
      in case dump_path a of
           None \<Rightarrow> (False, gx_tree c, w4)
         | Some p \<Rightarrow> (case attach_dump (mc_files m) p w4 of (r, w5) \<Rightarrow> (r = Inr (), gx_tree c, w5)))"

definition start_state :: "run_args \<Rightarrow> nat \<Rightarrow> loop_state" where
  "start_state a t = (new_state t)\<lparr>ls_budget := budget_for a t\<rparr>"

definition no_diff :: diff_summary where
  "no_diff = \<lparr>df_changed = [], df_stat = [], df_untracked = []\<rparr>"

definition dump_events :: "('w, 'm) machine_scheme \<Rightarrow> bool \<Rightarrow> run_args \<Rightarrow> agent_event list \<Rightarrow> 'w \<Rightarrow> 'w" where
  "dump_events m attached a evs w =
     (if attached then on_path (\<lambda>p w. foldl (\<lambda>w ev. append_line (mc_files m) (mc_encode m) p ev w) w evs) (dump_path a) w
      else w)"

definition with_patch :: "outcome option \<Rightarrow> string + string \<Rightarrow> outcome option" where
  "with_patch oc p =
     (case (oc, p) of (Some Done, Inl e) \<Rightarrow> Some (Failed FailSnapshot (''no baseline: '' @ e)) | _ \<Rightarrow> oc)"

definition execute :: "nat \<Rightarrow> ('w, 'm) machine_scheme \<Rightarrow> 'w llm \<Rightarrow> run_args \<Rightarrow> nat \<Rightarrow> 'w \<Rightarrow> run_result \<times> 'w" where
  "execute n m provider a t w =
     (let (attached, tree, w1) = prepare_run m a w;
          en = loop_env m provider a;
          em = (if attached then emitter_on new_emitter (\<lambda>_. False) else new_emitter);
          (oc, c) = run n en [InUser (ra_goal a)]
             (start_ctx en (start_state a t) em False t (git_start (ra_workdir a) w1, no_diff));
          evs = history (cx_em c);
          w2 = dump_events m attached a evs (gx_world (fst (cx_world c)));
          (p, g) = patch_since_start_full m \<lparr>gx_tree = tree, gx_world = w2, gx_cmds = []\<rparr>
      in (\<lparr>rr_outcome = with_patch oc p, rr_patch = p, rr_events = evs,
           rr_stderr = [''ablation '' @ ablation_text (ablation (ls_experiment (cx_st c))), ''events '' @ summarize evs]\<rparr>,
          gx_world g))"

section \<open>The command\<close>

record exit_report =
  xr_code :: nat
  xr_stdout :: string
  xr_stderr :: "string list"

definition stop_with :: "nat \<Rightarrow> string \<Rightarrow> exit_report option" where
  "stop_with code e = Some \<lparr>xr_code = code, xr_stdout = [], xr_stderr = [e]\<rparr>"

definition missing_credentials_message :: "string \<Rightarrow> string \<Rightarrow> string" where
  "missing_credentials_message v e = ''rof: '' @ e @ ''; set $'' @ v @ '' or pass --api-key-env NAME''"

fun add_headers :: "oai_client \<Rightarrow> string list \<Rightarrow> string + oai_client" where
  "add_headers c [] = Inr c"
| "add_headers c (h # hs) =
     (case split_once (CHR '':'') h of
        Some (n, v) \<Rightarrow> add_headers (with_header c n v) hs
      | None \<Rightarrow> Inl (''--header needs NAME:VALUE, got '' @ debug_str h))"

definition client_for :: "run_args \<Rightarrow> string \<Rightarrow> string + oai_client" where
  "client_for a endpoint =
     add_headers (with_key_env (new_client endpoint (profile_for (ra_keep_thinking a))) (ra_api_key_env a)) (ra_headers a)"

definition process_var :: "('w, 'm) machine_scheme \<Rightarrow> 'w \<Rightarrow> process_env" where
  "process_var m w v = he_env (mc_http m) v w"

text \<open>Everything up to the credential check: what a run starts with, or the code and the line the command ends with.\<close>

definition startup :: "('w, 'm) machine_scheme \<Rightarrow> string \<Rightarrow> string list \<Rightarrow> 'w \<Rightarrow>
    ((nat \<times> string) + (run_args \<times> oai_client)) \<times> 'w" where
  "startup m usage argv w =
     (case try_then (parse_run_args usage argv) (apply_env_defaults (process_var m w)) of
        Inl e \<Rightarrow> (Inl (2, e), w)
      | Inr a \<Rightarrow>
          (case validate_workdir m (process_var m w) (ra_workdir a) (ra_allow_dirty a) w of
             (Inl e, w1) \<Rightarrow> (Inl (2, e), w1)
           | (Inr _, w1) \<Rightarrow>
               (case try_then (resolve_endpoint (ra_endpoint a) (process_var m w1 ''OPENAI_BASE_URL'')) (client_for a) of
                  Inl e \<Rightarrow> (Inl (2, e), w1)
                | Inr client \<Rightarrow>
                    (case check_credentials (mc_http m) client w1 of
                       Inl e \<Rightarrow> (Inl (EXIT_NO_CREDENTIALS,
                          missing_credentials_message (ra_api_key_env a) (llm_error_display e)), w1)
                     | Inr _ \<Rightarrow> (Inr (a, client), w1)))))"

definition report_run :: "('w, 'm) machine_scheme \<Rightarrow> run_args \<Rightarrow> run_result \<Rightarrow> 'w \<Rightarrow> exit_report option \<times> 'w" where
  "report_run m a r w =
     (let (closed, w1) = (case ra_dump_events a of
            None \<Rightarrow> (Inr (), w)
          | Some p \<Rightarrow> (case finalize_dump (mc_files m) (mc_encode m) (components p) (rr_events r) w of
              (Inl e, w') \<Rightarrow> (Inl (''cannot write '' @ p @ '': '' @ e), w') | (Inr _, w') \<Rightarrow> (Inr (), w')))
      in (case closed of
            Inl e \<Rightarrow> (map_option (\<lambda>_. \<lparr>xr_code = 2, xr_stdout = [], xr_stderr = rr_stderr r @ [e]\<rparr>) (rr_outcome r), w1)
          | Inr _ \<Rightarrow>
              (map_option (\<lambda>oc. \<lparr>xr_code = exit_code oc,
                 xr_stdout = (case rr_patch r of Inr p \<Rightarrow> if p = [] then [] else p @ newline | Inl _ \<Rightarrow> []),
                 xr_stderr = rr_stderr r @ (case rr_patch r of Inl e \<Rightarrow> [''warning: no baseline: '' @ e] | Inr _ \<Rightarrow> [])\<rparr>)
                 (rr_outcome r), w1)))"

definition run_command :: "nat \<Rightarrow> ('w, 'm) machine_scheme \<Rightarrow> string \<Rightarrow> string list \<Rightarrow> nat \<Rightarrow> 'w \<Rightarrow> exit_report option \<times> 'w" where
  "run_command n m usage argv t w =
     (case startup m usage argv w of
        (Inl (code, e), w1) \<Rightarrow> (stop_with code e, w1)
      | (Inr (a, client), w1) \<Rightarrow>
          (case execute n m (oai_complete (mc_http m) (mc_wire m) client) a t w1 of
             (r, w2) \<Rightarrow> report_run m a r w2))"

section \<open>The gates come first\<close>

lemma startup_stops:
  assumes "startup m usage argv w = (Inl (code, e), w1)"
  shows "code \<in> {2, 4} \<and> (w1 = w \<or> (\<exists>env (a :: run_args). w1 = snd (validate_workdir m env (ra_workdir a) (ra_allow_dirty a) w)))"
proof (cases "try_then (parse_run_args usage argv) (apply_env_defaults (process_var m w))")
  case (Inl e0)
  then show ?thesis using assms by (simp add: startup_def)
next
  case (Inr a)
  obtain v w2 where v: "validate_workdir m (process_var m w) (ra_workdir a) (ra_allow_dirty a) w = (v, w2)" by fastforce
  then have "w1 = w2 \<and> code \<in> {2, 4}"
    using assms Inr by (cases v) (auto simp: startup_def EXIT_NO_CREDENTIALS_def split: sum.splits)
  then show ?thesis using v by (metis snd_conv)
qed

lemma startup_passes:
  assumes "startup m usage argv w = (Inr (a, client), w1)"
  shows "\<exists>a0 key canon. parse_run_args usage argv = Inr a0 \<and> apply_env_defaults (process_var m w) a0 = Inr a
    \<and> validate_workdir m (process_var m w) (ra_workdir a) (ra_allow_dirty a) w = (Inr canon, w1)
    \<and> he_env (mc_http m) (oa_key_env client) w1 = Some key \<and> trim key \<noteq> []"
proof -
  have trim_Nil: "trim [] = []" by code_simp
  obtain a0 where a: "parse_run_args usage argv = Inr a0" "apply_env_defaults (process_var m w) a0 = Inr a"
    and rest: "\<exists>canon. validate_workdir m (process_var m w) (ra_workdir a) (ra_allow_dirty a) w = (Inr canon, w1)"
    "\<exists>u. check_credentials (mc_http m) client w1 = Inr u"
    using assms by (fastforce simp: startup_def try_then_def split: sum.splits prod.splits)
  then show ?thesis
    using trim_Nil by (auto simp: check_credentials_def Adapter.resolve_def Let_def split: option.splits if_splits)
qed

lemma client_key: "client_for a endpoint = Inr client \<Longrightarrow> oa_key_env client = ra_api_key_env a"
proof -
  have "add_headers c hs = Inr client \<Longrightarrow> oa_key_env client = oa_key_env c" for c hs
    by (induction c hs rule: add_headers.induct) (auto simp: with_header_def split: option.splits)
  then show "client_for a endpoint = Inr client \<Longrightarrow> ?thesis" by (simp add: client_for_def with_key_env_def)
qed

lemma startup_key: "startup m usage argv w = (Inr (a, client), w1) \<Longrightarrow> oa_key_env client = ra_api_key_env a"
  using client_key by (fastforce simp: startup_def try_then_def split: sum.splits prod.splits)


section \<open>What an exit says\<close>

lemma exit_zero: "exit_code oc = 0 \<longleftrightarrow> oc = Done"
  by (cases oc rule: exit_code.cases) auto

lemma exit_codes: "exit_code oc \<in> {0, 3, 5, 6, 7}"
  by (cases oc rule: exit_code.cases) auto

lemma full_patch_needs_start: "fst (patch_since_start_full te c) = Inr p \<Longrightarrow> ts_start (gx_tree c) \<noteq> None"
  by (auto simp: patch_since_start_full_def tree_get_def prog_defs split: option.splits)

lemma execute_parts:
  assumes "execute n m provider a t w = (r, w2)"
  shows "\<exists>oc. rr_outcome r = with_patch oc (rr_patch r)"
    and "rr_patch r = Inr p \<Longrightarrow> ts_start (fst (snd (prepare_run m a w))) \<noteq> None"
proof -
  show "\<exists>oc. rr_outcome r = with_patch oc (rr_patch r)"
    using assms by (auto simp: execute_def Let_def split: prod.splits)
  show "ts_start (fst (snd (prepare_run m a w))) \<noteq> None" if "rr_patch r = Inr p"
    using assms that full_patch_needs_start[of m _ p]
    by (auto simp: execute_def Let_def split: prod.splits) (metis fst_conv git_ctx.select_convs(1))
qed

lemma with_patch_done: "with_patch oc p = Some Done \<Longrightarrow> oc = Some Done \<and> (\<exists>q. p = Inr q)"
  by (auto simp: with_patch_def split: option.splits outcome.splits sum.splits)

lemma zero_facts:
  assumes run: "run_command n m usage argv t w = (Some rep, w')" and zero: "xr_code rep = 0"
  shows "\<exists>a client w1 r w2 p. startup m usage argv w = (Inr (a, client), w1)
    \<and> execute n m (oai_complete (mc_http m) (mc_wire m) client) a t w1 = (r, w2)
    \<and> rr_outcome r = Some Done \<and> rr_patch r = Inr p \<and> ts_start (fst (snd (prepare_run m a w1))) \<noteq> None
    \<and> xr_stdout rep = (if p = [] then [] else p @ newline)"
proof -
  obtain s w1 where s: "startup m usage argv w = (s, w1)" by fastforce
  obtain a client where a: "s = Inr (a, client)"
  proof (cases s)
    case (Inl x)
    obtain code e where x: "x = (code, e)" by fastforce
    then have "code \<in> {2, 4}" using startup_stops[of m usage argv w code e w1] s Inl by blast
    then show ?thesis using run zero s Inl x by (auto simp: run_command_def stop_with_def)
  qed (use that in fastforce)
  obtain r w2 where e: "execute n m (oai_complete (mc_http m) (mc_wire m) client) a t w1 = (r, w2)" by fastforce
  have rep: "report_run m a r w2 = (Some rep, w')" using run s a e by (simp add: run_command_def)
  then have fin: "rr_outcome r = Some Done" and out: "xr_stdout rep =
      (case rr_patch r of Inr p \<Rightarrow> if p = [] then [] else p @ newline | Inl _ \<Rightarrow> [])"
    using zero by (auto simp: report_run_def Let_def exit_zero split: prod.splits sum.splits option.splits)
  obtain p where p: "rr_patch r = Inr p" using execute_parts(1)[OF e] fin with_patch_done by metis
  show ?thesis using s a e fin out p execute_parts(2)[OF e p] by auto
qed


section \<open>Every command ends\<close>

definition RUN_FUEL :: nat where "RUN_FUEL = U32_MAX + U32_MAX div 4 + 2"

lemma start_state_ok:
  assumes "args_ok a"
  shows "loop_ok (U32_MAX + U32_MAX div 4 + 1) (start_state a t)" "ls_in_flight (start_state a t) = None"
    "open_tools (start_state a t) = 0"
proof -
  have b: "config_ok (config (budget_for a t))" "counters (budget_for a t) = zero_counters"
    "max_refunds (config (budget_for a t)) = max_steps (config (budget_for a t)) div 4"
    using budget_facts[OF assms] by simp_all
  have guard: "guard_ok (budget_for a t)"
    using b by (simp add: guard_ok_def zero_counters_def)
  have "max_steps (config (budget_for a t)) \<le> U32_MAX" using b(1) by (simp add: config_ok_def)
  then have "guard_allowance (budget_for a t) \<le> U32_MAX + U32_MAX div 4 + 1"
    unfolding guard_allowance_def b using div_le_mono[of _ U32_MAX 4] by (simp add: zero_counters_def) (meson add_mono le_SucI)
  moreover have "loop_ok (guard_allowance (ls_budget (new_state t))) (new_state t)" using calm_new[of t] by (simp add: calm_def)
  ultimately show "loop_ok (U32_MAX + U32_MAX div 4 + 1) (start_state a t)"
    using guard by (simp add: start_state_def loop_ok_def gate_ok_def)
  show "ls_in_flight (start_state a t) = None" "open_tools (start_state a t) = 0"
    by (simp_all add: start_state_def new_state_def open_tools_def)
qed

lemma execute_outcome:
  "\<exists>em lw p. rr_outcome (fst (execute n m provider a t w)) = with_patch (fst (run n (loop_env m provider a)
     [InUser (ra_goal a)] (start_ctx (loop_env m provider a) (start_state a t) em False t lw))) p"
  unfolding execute_def Let_def case_prod_unfold fst_conv run_result.select_convs by (intro exI) (rule refl)

text \<open>Whether its commands are wrapped changes nothing of the budget a run has.\<close>

lemma unwrapped_state: "start_state (a\<lparr>ra_exec_wrap := v\<rparr>) t = start_state a t"
  by (cases a) (simp only: run_args.update_convs, unfold start_state_def budget_for_def Let_def run_args.select_convs, rule refl)

lemma execute_ends:
  assumes "args_ok (a\<lparr>ra_exec_wrap := None\<rparr>)"
  shows "\<exists>oc. rr_outcome (fst (execute RUN_FUEL m provider a t w)) = Some oc"
proof -
  let ?en = "loop_env m provider a" and ?inputs = "[InUser (ra_goal a)]"
  note started = start_state_ok[OF assms, of t, unfolded unwrapped_state]
  obtain em lw p where e: "rr_outcome (fst (execute RUN_FUEL m provider a t w))
     = with_patch (fst (run RUN_FUEL ?en ?inputs (start_ctx ?en (start_state a t) em False t lw))) p"
    using execute_outcome[of RUN_FUEL m provider a t w] by blast
  have "\<exists>oc. fst (run RUN_FUEL ?en ?inputs (start_ctx ?en (start_state a t) em False t lw)) = Some oc"
    by (rule run_ends[OF calm_from[OF started]]) (simp add: RUN_FUEL_def)
  then show ?thesis unfolding e by (auto simp: with_patch_def split: outcome.splits sum.splits)
qed

lemma env_defaults_ok: "apply_env_defaults env a0 = Inr a \<Longrightarrow> args_ok a0 \<Longrightarrow> args_ok a"
proof -
  have read: "read_env_usize env v = Inr r \<Longrightarrow> fits 0 U64_MAX r" for v r
    using parse_u64_bound by (auto simp: read_env_usize_def fits_def split: option.splits if_splits)
  show "apply_env_defaults env a0 = Inr a \<Longrightarrow> args_ok a0 \<Longrightarrow> args_ok a"
    by (auto simp: apply_env_defaults_def try_then_def args_ok_def split: sum.splits if_splits dest!: read)
qed

text \<open>whatever is typed, whatever the environment, the provider, the tools, git and the disk do,
  the command ends within a fuel no arguments exceed, and its code is one of the documented ones.\<close>

theorem every_command_ends:
  "\<exists>rep. fst (run_command RUN_FUEL m usage argv t w) = Some rep \<and> xr_code rep \<in> {0, 2, 3, 4, 5, 6, 7}"
proof -
  obtain s w1 where s: "startup m usage argv w = (s, w1)" by fastforce
  show ?thesis
  proof (cases s)
    case (Inl x)
    obtain code e where x: "x = (code, e)" by fastforce
    then have stop: "startup m usage argv w = (Inl (code, e), w1)" using s Inl by simp
    then show ?thesis using startup_stops[OF stop] by (auto simp: run_command_def stop_with_def)
  next
    case (Inr x)
    obtain a client where x: "x = (a, client)" by fastforce
    then have pass: "startup m usage argv w = (Inr (a, client), w1)" using s Inr by simp
    then have "args_ok a" using startup_passes[OF pass] parsed_args_ok env_defaults_ok by blast
    then have "args_ok (a\<lparr>ra_exec_wrap := None\<rparr>)" by (simp add: args_ok_def)
    moreover obtain r w2 where e: "execute RUN_FUEL m (oai_complete (mc_http m) (mc_wire m) client) a t w1 = (r, w2)"
      by fastforce
    ultimately obtain oc where oc: "rr_outcome r = Some oc" using execute_ends by (metis fst_conv)
    then have "\<exists>rep. fst (report_run m a r w2) = Some rep \<and> xr_code rep \<in> {0, 2, 3, 4, 5, 6, 7}"
      using exit_codes[of oc] by (auto simp: report_run_def Let_def split: prod.splits sum.splits)
    then show ?thesis using pass e by (simp add: run_command_def)
  qed
qed

end
