(* ===== verification/EvalRun.thy ===== *)
theory EvalRun
  imports EvalArgs Rof
begin

text \<open>
  The evaluation, \<open>run_eval\<close> of \<open>crates/rof/src/eval_cmd.rs\<close> and the agent leg of \<open>crates/rof/src/eval_agent.rs\<close>: for
  every instance of a slice a fresh work tree, a run through the wiring of \<open>Rof\<close>, a grading in the container the
  agent worked in or by the harbor command, a row of the report; then the report; and \<open>main\<close>, which chooses
  between the two commands.

  The programs of this theory run in a \<open>bench_ctx\<close>: the machine's world, the lines printed, and the commands spawned,
  a history variable that nothing reads. Their error is the exit code of an early return. What the machine adds to
  that of \<open>Rof\<close> is the record \<open>bench\<close>. A directory that is copied is read as a tree before the copy starts; the
  targets lie outside it.
\<close>

section \<open>The bench\<close>

datatype disk_tree = DiskFile | DiskDir disk_entries
  and disk_entries = NoMore | Unreadable string | Entry string disk_tree disk_entries

record proc_exit =
  px_code :: "int option"
  px_stdout :: string
  px_stderr :: string

text \<open>A command: program, arguments, directory and limit in seconds; no answer is a command cut off by its limit.\<close>

record 'w bench = "'w machine" +
  bn_list :: "path \<Rightarrow> 'w \<Rightarrow> string + (string + string \<times> (string + bool)) list"
  bn_disk :: "path \<Rightarrow> 'w \<Rightarrow> disk_entries"
  bn_copy :: "path \<Rightarrow> path \<Rightarrow> 'w \<Rightarrow> (string + unit) \<times> 'w"
  bn_remove_tree :: "path \<Rightarrow> 'w \<Rightarrow> 'w"
  bn_executable :: "path \<Rightarrow> 'w \<Rightarrow> 'w"
  bn_now :: "'w \<Rightarrow> nat"
  bn_engine :: "'w proc_ops"
  bn_command :: "string \<Rightarrow> string list \<Rightarrow> path option \<Rightarrow> nat option \<Rightarrow> 'w \<Rightarrow> (string + proc_exit) option \<times> 'w"
  bn_parse_json :: "string \<Rightarrow> json option"
  bn_print_json :: "json \<Rightarrow> string"
  bn_decode :: "string \<Rightarrow> string + agent_event"
  bn_hash :: "string \<Rightarrow> u64"
  bn_git_sha :: "string option"
  bn_print_report :: "run_report \<Rightarrow> string"

definition slice_of :: "('w, 'm) bench_scheme \<Rightarrow> 'w slice_fs" where
  "slice_of b = tool_fs.extend (tool_fs.truncate b) (slice_fs.fields (bn_list b))"

record 'w bench_ctx =
  bx_world :: 'w
  bx_out :: string
  bx_err :: "string list"
  bx_log :: "(string \<times> string list \<times> bool) list"

type_synonym ('w, 'a) bench_prog = "('w bench_ctx, nat, 'a) prog"

definition say :: "string \<Rightarrow> ('w, unit) bench_prog" where
  "say s = modify (\<lambda>c. c\<lparr>bx_err := bx_err c @ [s]\<rparr>)"

definition look :: "('w \<Rightarrow> 'a) \<Rightarrow> ('w, 'a) bench_prog" where
  "look f = gets (\<lambda>c. f (bx_world c))"

definition attempt :: "('w \<Rightarrow> 'a \<times> 'w) \<Rightarrow> ('w, 'a) bench_prog" where
  "attempt f = act (\<lambda>c. case f (bx_world c) of (r, w) \<Rightarrow> (r, c\<lparr>bx_world := w\<rparr>))"

definition alter :: "('w \<Rightarrow> 'w) \<Rightarrow> ('w, unit) bench_prog" where
  "alter f = modify (\<lambda>c. c\<lparr>bx_world := f (bx_world c)\<rparr>)"

definition ended_well :: "(string + proc_exit) option \<Rightarrow> bool" where
  "ended_well r = (case r of Some (Inr x) \<Rightarrow> px_code x = Some 0 | _ \<Rightarrow> False)"

definition command :: "('w, 'm) bench_scheme \<Rightarrow> string \<Rightarrow> string list \<Rightarrow> path option \<Rightarrow> nat option \<Rightarrow>
    ('w, (string + proc_exit) option) bench_prog" where
  "command b program args dir limit = act (\<lambda>c.
     case bn_command b program args dir limit (bx_world c) of
       (r, w) \<Rightarrow> (r, c\<lparr>bx_world := w, bx_log := bx_log c @ [(program, args, ended_well r)]\<rparr>))"

section \<open>Goal and work tree\<close>

definition GOAL_TAIL :: string where
  "GOAL_TAIL = newline @ newline @ ''Rules: all paths are relative to the workdir (a /app prefix maps to the workdir root). The exec tool runs single commands with NO shell (no pipes, &&, or redirection) one at a time; its stdin is closed, so heredocs and stdin reads return nothing; write scripts to files and run them when you need composition. Do not add test-harness files. When your work is complete, reply with a text message and no tool calls.''"

definition agent_goal :: "string \<Rightarrow> string" where
  "agent_goal instruction = replace_str ''/app'' ''the workdir'' (replace_str ''/app/'' [] instruction) @ GOAL_TAIL"

definition SOLVE_SH :: string where
  "SOLVE_SH = ''#!/bin/bash'' @ newline @ ''set -euo pipefail'' @ newline @ ''SCRIPT_DIR='' @ DQ @ ''$(cd '' @ DQ
     @ ''$(dirname '' @ DQ @ ''$0'' @ DQ @ '')'' @ DQ @ '' && pwd)'' @ DQ @ newline @ ''cp -r '' @ DQ @ ''$SCRIPT_DIR/files/.''
     @ DQ @ '' /app/'' @ newline"

definition EXCLUDED_DIRS :: "string list" where "EXCLUDED_DIRS = [''.git'', ''__pycache__'', ''.pytest_cache'']"
definition WAL_SIDECAR :: string where "WAL_SIDECAR = ''.rof-events.jsonl''"

definition below :: "path \<Rightarrow> string \<Rightarrow> path" where
  "below p name = join_path p (components name)"

definition then_do :: "(string + unit) \<times> 'w \<Rightarrow> ('w \<Rightarrow> (string + unit) \<times> 'w) \<Rightarrow> (string + unit) \<times> 'w" where
  "then_do rw f = (case rw of (Inl e, w) \<Rightarrow> (Inl e, w) | (Inr _, w) \<Rightarrow> f w)"

text \<open>The entries of one directory; \<open>outer\<close> marks the root of the work tree.\<close>

fun pack_dir :: "('w, 'm) bench_scheme \<Rightarrow> path \<Rightarrow> path \<Rightarrow> bool \<Rightarrow> disk_entries \<Rightarrow> 'w \<Rightarrow> (string + unit) \<times> 'w" where
  "pack_dir b src dst outer NoMore w = (Inr (), w)"
| "pack_dir b src dst outer (Unreadable e) w = (Inl e, w)"
| "pack_dir b src dst outer (Entry name (DiskDir es) rest) w =
     (if outer \<and> name \<in> set EXCLUDED_DIRS then pack_dir b src dst outer rest w
      else then_do (then_do (te_create_dirs b (below dst name) w)
                     (\<lambda>w. pack_dir b (below src name) (below dst name) False es w))
             (\<lambda>w. pack_dir b src dst outer rest w))"
| "pack_dir b src dst outer (Entry name DiskFile rest) w =
     (if name = WAL_SIDECAR \<or> suffix ''.pyc'' name then pack_dir b src dst outer rest w
      else then_do (bn_copy b (below src name) (below dst name) w) (\<lambda>w. pack_dir b src dst outer rest w))"

definition pack_workdir :: "('w, 'm) bench_scheme \<Rightarrow> path \<Rightarrow> path \<Rightarrow> 'w \<Rightarrow> (string + unit) \<times> 'w" where
  "pack_workdir b src dst w = then_do (te_create_dirs b dst w) (\<lambda>w1. pack_dir b src dst True (bn_disk b src w) w1)"

fun copy_entries :: "('w, 'm) bench_scheme \<Rightarrow> path \<Rightarrow> path \<Rightarrow> disk_entries \<Rightarrow> 'w \<Rightarrow> (string + unit) \<times> 'w" where
  "copy_entries b src dst NoMore w = (Inr (), w)"
| "copy_entries b src dst (Unreadable e) w = (Inl e, w)"
| "copy_entries b src dst (Entry name (DiskDir es) rest) w =
     then_do (then_do (te_create_dirs b (below dst name) w)
               (\<lambda>w. copy_entries b (below src name) (below dst name) es w))
       (\<lambda>w. copy_entries b src dst rest w)"
| "copy_entries b src dst (Entry name DiskFile rest) w =
     then_do (bn_copy b (below src name) (below dst name) w) (\<lambda>w. copy_entries b src dst rest w)"

definition copy_tree :: "('w, 'm) bench_scheme \<Rightarrow> path \<Rightarrow> path \<Rightarrow> 'w \<Rightarrow> (string + unit) \<times> 'w" where
  "copy_tree b src dst w = then_do (te_create_dirs b dst w) (\<lambda>w1. copy_entries b src dst (bn_disk b src w) w1)"

definition fresh_workdir :: "('w, 'm) bench_scheme \<Rightarrow> path \<Rightarrow> path \<Rightarrow> 'w \<Rightarrow> (string + unit) \<times> 'w" where
  "fresh_workdir b task_dir work w =
     then_do (te_create_dirs b work (bn_remove_tree b work w)) (\<lambda>w1.
       case bn_list b (below task_dir ''environment'') w1 of
         Inr _ \<Rightarrow> copy_tree b (below task_dir ''environment'') work w1
       | Inl _ \<Rightarrow> (Inr (), w1))"

section \<open>Verdicts\<close>

definition job_json :: "string \<Rightarrow> path \<Rightarrow> path \<Rightarrow> json" where
  "job_json ident grade_dir jobs_dir =
     JObj [(''job_name'', JStr (''eval-'' @ ident)), (''jobs_dir'', JStr (path_text jobs_dir)),
       (''tasks'', JArr [JObj [(''path'', JStr (path_text grade_dir))]]),
       (''agents'', JArr [JObj [(''name'', JStr ''oracle'')]])]"

definition parse_reward :: "json \<Rightarrow> real option" where
  "parse_reward r =
     (case r of
        JInt n \<Rightarrow> Some (real_of_int n)
      | JFloat x \<Rightarrow> Some x
      | JObj [(k, _)] \<Rightarrow> (case parse_f64 k of Some (Finite x) \<Rightarrow> Some x | _ \<Rightarrow> None)
      | _ \<Rightarrow> None)"

definition first_value :: "json \<Rightarrow> json option" where
  "first_value v = (case v of JObj ((_, x) # _) \<Rightarrow> Some x | _ \<Rightarrow> None)"

definition harbor_reward :: "json \<Rightarrow> real option" where
  "harbor_reward v =
     Option.bind (Option.bind (Option.bind (json_get ''stats'' v) (json_get ''evals'')) first_value) (\<lambda>ev.
       Option.bind (Option.bind (json_get ''reward_stats'' ev) (json_get ''reward'')) parse_reward)"

definition reward_verdict :: "('w, 'm) bench_scheme \<Rightarrow> path \<Rightarrow> 'w \<Rightarrow> verdict" where
  "reward_verdict b result w =
     (case tf_read_text b result w of
        Inl _ \<Rightarrow> ErrorNoReport
      | Inr t \<Rightarrow>
          (case Option.bind (bn_parse_json b t) harbor_reward of
             Some r \<Rightarrow> if \<bar>r - 1\<bar> < 1 / 10 ^ 9 then Resolved else if r = 0 then Unresolved else ErrorNoReport
           | None \<Rightarrow> ErrorNoReport))"

definition last_passed_failed :: "string \<Rightarrow> string option" where
  "last_passed_failed txt =
     (let ls = str_lines txt; window = (if 4 < length ls then drop (length ls - 4) ls else ls)
      in map_option trim
           (List.find (\<lambda>l. str_contains l ''passed'' \<or> str_contains l ''failed'') (rev window)))"

fun first_verifier :: "('w, 'm) bench_scheme \<Rightarrow> path \<Rightarrow> (string + string \<times> (string + bool)) list \<Rightarrow> 'w \<Rightarrow> string option" where
  "first_verifier b jobs [] w = None"
| "first_verifier b jobs (e # es) w =
     (case e of
        Inr (name, Inr True) \<Rightarrow>
          (let p = below (below (below jobs name) ''verifier'') ''test-stdout.txt'' in
           if \<not> te_is_file b p w then first_verifier b jobs es w
           else (case tf_read_text b p w of Inl _ \<Rightarrow> None | Inr t \<Rightarrow> last_passed_failed t))
      | _ \<Rightarrow> first_verifier b jobs es w)"

definition verifier_string :: "('w, 'm) bench_scheme \<Rightarrow> path \<Rightarrow> 'w \<Rightarrow> string option" where
  "verifier_string b jobs w = (case bn_list b jobs w of Inl _ \<Rightarrow> None | Inr es \<Rightarrow> first_verifier b jobs es w)"

definition has_run_end :: "('w, 'm) bench_scheme \<Rightarrow> path \<Rightarrow> 'w \<Rightarrow> bool" where
  "has_run_end b events w =
     (case tf_read_text b events w of
        Inl _ \<Rightarrow> False
      | Inr t \<Rightarrow> list_ex (\<lambda>l. trim l \<noteq> [] \<and> (case bn_decode b l of Inr ev \<Rightarrow> is_run_end ev | Inl _ \<Rightarrow> False))
          (str_lines t))"

section \<open>The container\<close>

definition env_container_name :: "string \<Rightarrow> string" where
  "env_container_name ident = ''eval-'' @ ident @ ''-env''"

definition docker_exec_wrap :: "string \<Rightarrow> string list" where
  "docker_exec_wrap container = [''docker'', ''exec'', container]"

definition parent_or_self :: "path \<Rightarrow> path" where
  "parent_or_self p = (case parent p of Some q \<Rightarrow> q | None \<Rightarrow> p)"

definition env_container_run_args :: "string \<Rightarrow> path \<Rightarrow> path \<Rightarrow> string \<Rightarrow> string list" where
  "env_container_run_args img work tasks_dir ident =
     [''run'', ''-d'', ''--name'', env_container_name ident, ''-v'', path_text work @ '':/app'',
      ''-v'', path_text (below (below tasks_dir ident) ''tests'') @ '':/tests:ro'',
      ''-v'', path_text (below (parent_or_self work) ''verifier-logs'') @ '':/logs'', ''-w'', ''/app'', ''--cpus=2'',
      ''--memory=4096m'', ''--entrypoint'', ''tail'', img, ''-f'', ''/dev/null'']"

definition rm_env_container :: "('w, 'm) bench_scheme \<Rightarrow> string \<Rightarrow> ('w, unit) bench_prog" where
  "rm_env_container b ident =
     andthen (command b ''docker'' [''rm'', ''-f'', env_container_name ident] None None) (\<lambda>_. ret ())"

definition wipe_workdir_via_docker :: "('w, 'm) bench_scheme \<Rightarrow> string \<Rightarrow> path \<Rightarrow> ('w, unit) bench_prog" where
  "wipe_workdir_via_docker b img work =
     andthen (command b ''docker'' [''run'', ''--rm'', ''-v'', path_text work @ '':/w'', ''--entrypoint'', ''sh'', img, ''-c'',
       ''rm -rf /w/* /w/.[!.]* /w/..?* 2>/dev/null; true''] None None) (\<lambda>_. ret ())"

definition start_env_container :: "('w, 'm) bench_scheme \<Rightarrow> instance_spec \<Rightarrow> path \<Rightarrow> path \<Rightarrow> ('w, string + string) bench_prog" where
  "start_env_container b inst work tasks_dir =
     andthen (rm_env_container b (is_id inst)) (\<lambda>_.
     andthen (attempt (te_create_dirs b (below (below (parent_or_self work) ''verifier-logs'') ''verifier''))) (\<lambda>_.
     andthen (command b ''docker'' (env_container_run_args (is_image inst) work tasks_dir (is_id inst)) None None) (\<lambda>r.
       ret (case r of
              Some (Inr x) \<Rightarrow>
                if px_code x = Some 0 then Inr (env_container_name (is_id inst))
                else Inl (''docker run failed: '' @ trim (utf8_lossy (px_stderr x)))
            | Some (Inl e) \<Rightarrow> Inl (''cannot spawn docker: '' @ e)
            | None \<Rightarrow> Inl ''cannot spawn docker: ''))))"

definition grade_exit_verdict :: "int option \<Rightarrow> string \<Rightarrow> verdict" where
  "grade_exit_verdict code err =
     (if code = Some 0 then Resolved
      else if code \<in> {Some 125, Some 126, Some 127} \<or> str_contains err ''Error response from daemon'' then InfraFailure
      else Unresolved)"

definition grade_live_verdict :: "int option \<Rightarrow> string \<Rightarrow> verdict option \<Rightarrow> verdict" where
  "grade_live_verdict code err reward = (case reward of Some v \<Rightarrow> v | None \<Rightarrow> grade_exit_verdict code err)"

fun code_debug :: "int option \<Rightarrow> string" where
  "code_debug None = ''None''"
| "code_debug (Some n) = ''Some('' @ (if n < 0 then ''-'' @ dec (nat (- n)) else dec (nat n)) @ '')''"

fun verdict_debug :: "verdict \<Rightarrow> string" where
  "verdict_debug Resolved = ''Resolved''"
| "verdict_debug Unresolved = ''Unresolved''"
| "verdict_debug ErrorNoReport = ''ErrorNoReport''"
| "verdict_debug EmptyPatch = ''EmptyPatch''"
| "verdict_debug InfraFailure = ''InfraFailure''"
| "verdict_debug Ambiguous = ''Ambiguous''"

definition answered_exit :: "(string + proc_exit) option \<Rightarrow> proc_exit option" where
  "answered_exit r = (case r of Some (Inr x) \<Rightarrow> Some x | _ \<Rightarrow> None)"

definition say_some :: "(string \<Rightarrow> string) \<Rightarrow> string option \<Rightarrow> ('w, unit) bench_prog" where
  "say_some f v = (case v of Some x \<Rightarrow> say (f x) | None \<Rightarrow> ret ())"

definition grade_live_container :: "('w, 'm) bench_scheme \<Rightarrow> instance_spec \<Rightarrow> string \<Rightarrow> path \<Rightarrow> ('w, verdict) bench_prog" where
  "grade_live_container b inst container home =
     andthen (command b ''docker'' [''exec'', container, ''bash'', ''/tests/test.sh''] None
       (Some (wrap_add64 (is_timeout_secs inst) 300))) (\<lambda>r.
       case answered_exit r of
         None \<Rightarrow>
           andthen (say (''infra '' @ is_id inst @ '': docker exec timed out or failed to spawn'')) (\<lambda>_. ret InfraFailure)
       | Some x \<Rightarrow>
           (let err = utf8_lossy (px_stderr x); txt = utf8_lossy (px_stdout x) @ err in
            andthen (attempt (tf_write b (below home ''verifier-stdout.txt'') txt)) (\<lambda>_.
            andthen (say (is_id inst @ '' verifier exit: '' @ code_debug (px_code x))) (\<lambda>_.
            andthen (say_some (\<lambda>vs. is_id inst @ '' verifier: '' @ vs) (last_passed_failed txt)) (\<lambda>_.
            andthen (look (check_tb_reward b (bn_parse_json b)
              (below (below (below home ''verifier-logs'') ''verifier'') ''reward.txt''))) (\<lambda>rw.
              let reward = (case rw of Inr v \<Rightarrow> Some v | Inl _ \<Rightarrow> None);
                  verdict = grade_live_verdict (px_code x) err reward in
              andthen (say_some (\<lambda>v. is_id inst @ '' verifier reward file: '' @ v) (map_option verdict_debug reward)) (\<lambda>_.
              andthen (if verdict = InfraFailure
                then say (''infra '' @ is_id inst @ '': docker daemon error at grading (container died?)'')
                else ret ()) (\<lambda>_. ret verdict))))))))"

section \<open>The harbor command\<close>

definition infra_verdict :: "string \<Rightarrow> string \<Rightarrow> ('w, verdict) bench_prog" where
  "infra_verdict ident e = andthen (say (''infra '' @ ident @ '': '' @ e)) (\<lambda>_. ret InfraFailure)"

definition attempt_or :: "('w \<Rightarrow> (string + unit) \<times> 'w) \<Rightarrow> (string \<Rightarrow> ('w, 'a) bench_prog) \<Rightarrow> ('w, 'a) bench_prog \<Rightarrow>
    ('w, 'a) bench_prog" where
  "attempt_or f on_fail m = andthen (attempt f) (\<lambda>r. case r of Inl e \<Rightarrow> on_fail e | Inr _ \<Rightarrow> m)"

definition run_harbor :: "('w, 'm) bench_scheme \<Rightarrow> instance_spec \<Rightarrow> eval_args \<Rightarrow> path \<Rightarrow> ('w, verdict) bench_prog" where
  "run_harbor b inst a job =
     (let jobs = below (below (ea_out_dir a) ''jobs'') (''eval-'' @ is_id inst); result = below jobs ''result.json'' in
      andthen (command b ''harbor'' [''run'', ''-c'', path_text job, ''-y'', ''-q''] (Some (ea_out_dir a))
        (Some (wrap_add64 (is_timeout_secs inst) 300))) (\<lambda>r.
      andthen (look (tf_exists b result)) (\<lambda>there.
        if (case answered_exit r of None \<Rightarrow> False | Some x \<Rightarrow> px_code x = Some 0 \<or> there)
        then
          andthen (look (verifier_string b jobs)) (\<lambda>vs.
          andthen (say_some (\<lambda>v. is_id inst @ '' verifier: '' @ v) vs) (\<lambda>_. look (reward_verdict b result)))
        else infra_verdict (is_id inst) ''harbor run timed out or produced no result'')))"

definition grade :: "('w, 'm) bench_scheme \<Rightarrow> instance_spec \<Rightarrow> eval_args \<Rightarrow> path \<Rightarrow> ('w, verdict) bench_prog" where
  "grade b inst a work =
     (let home = below (ea_out_dir a) (is_id inst);
          grade_dir = below home ''grade-task'';
          solve = below (below grade_dir ''solution'') ''solve.sh'';
          job = below home ''grade-job.yaml'';
          on_fail = (\<lambda>s e. infra_verdict (is_id inst) (s @ e)) in
      andthen (alter (bn_remove_tree b grade_dir)) (\<lambda>_.
      attempt_or (copy_tree b (below (ea_tasks_dir a) (is_id inst)) grade_dir)
        (on_fail (''cannot build '' @ path_text grade_dir @ '': ''))
      (andthen (alter (bn_remove_tree b (below grade_dir ''solution''))) (\<lambda>_.
      attempt_or (pack_workdir b work (below (below grade_dir ''solution'') ''files'')) (on_fail ''cannot pack workdir: '')
      (attempt_or (tf_write b solve SOLVE_SH) (on_fail ''cannot write solve.sh: '')
      (andthen (alter (bn_executable b solve)) (\<lambda>_.
      attempt_or (tf_write b job (bn_print_json b (job_json (is_id inst) grade_dir (below (ea_out_dir a) ''jobs''))))
        (on_fail (''cannot write '' @ path_text job @ '': ''))
      (run_harbor b inst a job))))))))"

section \<open>One instance\<close>

definition infra_report :: "('w, 'm) bench_scheme \<Rightarrow> instance_spec \<Rightarrow> eval_args \<Rightarrow> path \<Rightarrow> verdict \<Rightarrow> u64 \<Rightarrow> 'w \<Rightarrow> instance_report" where
  "infra_report b inst a home v wall w =
     (case instance_report_with_mode b (bn_decode b) (bn_hash b) (is_id inst) v (below home ''events.jsonl'') wall []
        (apply_mode_for a) None w of
        Inr r \<Rightarrow> r
      | Inl _ \<Rightarrow> \<lparr>ir_id = is_id inst, ir_verdict = v, ir_tokens_in = None, ir_tokens_out = None, ir_dollars = None,
          ir_wall_secs = wall, ir_steps = 0, ir_halt_reason = None, ir_patch_digest = [],
          ir_apply_mode = apply_mode_for a, ir_apply_detail = None\<rparr>)"

definition infra_row :: "('w, 'm) bench_scheme \<Rightarrow> instance_spec \<Rightarrow> eval_args \<Rightarrow> path \<Rightarrow> u64 \<Rightarrow> ('w, instance_report) bench_prog" where
  "infra_row b inst a home wall = look (infra_report b inst a home InfraFailure wall)"

definition wall_since :: "('w, 'm) bench_scheme \<Rightarrow> nat \<Rightarrow> ('w, u64) bench_prog" where
  "wall_since b start = look (\<lambda>w. as_secs (bn_now b w - start))"

text \<open>The container of the run, if one is asked for, or why it cannot be had.\<close>

definition container_for :: "('w, 'm) bench_scheme \<Rightarrow> instance_spec \<Rightarrow> eval_args \<Rightarrow> path \<Rightarrow> ('w, string + string option) bench_prog" where
  "container_for b inst a work =
     (if \<not> ea_in_container a then ret (Inr None)
      else if is_image inst = [] then ret (Inl ''no docker_image in task.toml'')
      else andthen (start_env_container b inst work (ea_tasks_dir a)) (\<lambda>r. ret (map_sum id Some r)))"

definition rm_if_started :: "('w, 'm) bench_scheme \<Rightarrow> instance_spec \<Rightarrow> string option \<Rightarrow> ('w, unit) bench_prog" where
  "rm_if_started b inst container = (case container of Some _ \<Rightarrow> rm_env_container b (is_id inst) | None \<Rightarrow> ret ())"

definition report_row :: "('w, 'm) bench_scheme \<Rightarrow> instance_spec \<Rightarrow> eval_args \<Rightarrow> verdict \<Rightarrow> path \<Rightarrow> u64 \<Rightarrow> string \<Rightarrow>
    ('w, instance_report) bench_prog" where
  "report_row b inst a v events wall ptext =
     andthen (look (instance_report_with_mode b (bn_decode b) (bn_hash b) (is_id inst) v events wall ptext (apply_mode_for a)
       None)) (\<lambda>r.
       case r of
         Inr row \<Rightarrow> ret row
       | Inl e \<Rightarrow> andthen (say (''cannot report '' @ is_id inst @ '': '' @ e)) (\<lambda>_. throw 2))"

definition graded :: "('w, 'm) bench_scheme \<Rightarrow> instance_spec \<Rightarrow> eval_args \<Rightarrow> path \<Rightarrow> path \<Rightarrow> path \<Rightarrow> string option \<Rightarrow>
    ('w, verdict) bench_prog" where
  "graded b inst a home work events container =
     andthen (look (has_run_end b events)) (\<lambda>ended.
       if \<not> ended then ret InfraFailure
       else (case container of
               Some name \<Rightarrow> grade_live_container b inst name home
             | None \<Rightarrow> grade b inst a work))"

definition run_and_grade :: "('w, 'm) bench_scheme \<Rightarrow> instance_spec \<Rightarrow> eval_args \<Rightarrow> oai_client \<Rightarrow> path \<Rightarrow> path \<Rightarrow> nat \<Rightarrow>
    string option \<Rightarrow> ('w, instance_report) bench_prog" where
  "run_and_grade b inst a client home work start container =
     (let events = below home ''events.jsonl'';
          args = (agent_args a work (agent_goal (is_instruction inst)) events)
            \<lparr>ra_exec_wrap := map_option docker_exec_wrap container\<rparr> in
      andthen (attempt (\<lambda>w. execute RUN_FUEL b (oai_complete (mc_http b) (mc_wire b) client) args (bn_now b w) w)) (\<lambda>r.
      andthen (for_each say (rr_stderr r)) (\<lambda>_.
      andthen (attempt (finalize_dump (mc_files b) (mc_encode b) (components (path_text events)) (rr_events r))) (\<lambda>closed.
        case closed of
          Inl e \<Rightarrow>
            andthen (say (''infra '' @ is_id inst @ '': cannot write '' @ path_text events @ '': '' @ e)) (\<lambda>_.
            andthen (wall_since b start) (\<lambda>wall.
            andthen (rm_if_started b inst container) (\<lambda>_. infra_row b inst a home wall)))
        | Inr _ \<Rightarrow>
            andthen (wall_since b start) (\<lambda>wall.
            andthen (graded b inst a home work events container) (\<lambda>v.
            andthen (rm_if_started b inst container) (\<lambda>_.
              report_row b inst a v events wall (case rr_patch r of Inr p \<Rightarrow> p | Inl _ \<Rightarrow> []))))))))"

definition agent_instance :: "('w, 'm) bench_scheme \<Rightarrow> eval_args \<Rightarrow> oai_client \<Rightarrow> tool_caps \<Rightarrow> instance_spec \<Rightarrow>
    ('w, instance_report) bench_prog" where
  "agent_instance b a client caps inst =
     (let task_dir = below (ea_tasks_dir a) (is_id inst);
          home = below (ea_out_dir a) (is_id inst);
          work = below home ''work'' in
      andthen (look (check_winnability (slice_of b) task_dir caps)) (\<lambda>bads.
      andthen (for_each (\<lambda>bad. say (''unwinnable '' @ is_id inst @ '': '' @ bad)) bads) (\<lambda>_.
      attempt_or (te_create_dirs b home) (\<lambda>_. andthen (say (''cannot create '' @ path_text home)) (\<lambda>_. throw 2))
      (andthen (if ea_in_container a \<and> is_image inst \<noteq> [] then wipe_workdir_via_docker b (is_image inst) work else ret ()) (\<lambda>_.
      attempt_or (fresh_workdir b task_dir work)
        (\<lambda>e. andthen (say (''infra '' @ is_id inst @ '': workdir: '' @ e)) (\<lambda>_. infra_row b inst a home 0))
      (andthen (look (bn_now b)) (\<lambda>start.
      andthen (attempt (\<lambda>w. validate_workdir b (process_var b w) work False w)) (\<lambda>ok.
        case ok of
          Inl _ \<Rightarrow>
            andthen (say (''infra '' @ is_id inst @ '': workdir refused: '' @ path_text work)) (\<lambda>_.
            andthen (wall_since b start) (infra_row b inst a home))
        | Inr _ \<Rightarrow>
            andthen (container_for b inst a work) (\<lambda>cont.
              case cont of
                Inl e \<Rightarrow>
                  andthen (say (''infra '' @ is_id inst @ '': '' @ e)) (\<lambda>_.
                  andthen (wall_since b start) (infra_row b inst a home))
              | Inr container \<Rightarrow> run_and_grade b inst a client home work start container)))))))))"

fun agent_rows :: "('w, 'm) bench_scheme \<Rightarrow> eval_args \<Rightarrow> oai_client \<Rightarrow> tool_caps \<Rightarrow> instance_spec list \<Rightarrow>
    ('w, instance_report list) bench_prog" where
  "agent_rows b a client caps [] = ret []"
| "agent_rows b a client caps (i # rest) =
     andthen (agent_instance b a client caps i) (\<lambda>r.
     andthen (agent_rows b a client caps rest) (\<lambda>rs. ret (r # rs)))"

section \<open>The two legs\<close>

definition finish_report :: "('w, 'm) bench_scheme \<Rightarrow> eval_args \<Rightarrow> instance_report list \<Rightarrow> ('w, nat) bench_prog" where
  "finish_report b a reports =
     (let txt = bn_print_report b \<lparr>rr_instances = reports, rr_provenance = Some (provenance_of (bn_git_sha b) a)\<rparr> in
      case ea_report a of
        Some p \<Rightarrow>
          andthen (case parent p of Some dir \<Rightarrow> andthen (attempt (te_create_dirs b dir)) (\<lambda>_. ret ()) | None \<Rightarrow> ret ()) (\<lambda>_.
          attempt_or (tf_write b p txt)
            (\<lambda>e. andthen (say (''cannot write '' @ path_text p @ '': '' @ e)) (\<lambda>_. ret 2)) (ret 0))
      | None \<Rightarrow> andthen (modify (\<lambda>c. c\<lparr>bx_out := bx_out c @ txt @ newline\<rparr>)) (\<lambda>_. ret 0))"

fun eval_headers :: "oai_client \<Rightarrow> string list \<Rightarrow> oai_client" where
  "eval_headers c [] = c"
| "eval_headers c (h # hs) =
     eval_headers (case split_once (CHR '':'') h of Some (n, v) \<Rightarrow> with_header c n v | None \<Rightarrow> c) hs"

definition run_agent_leg :: "('w, 'm) bench_scheme \<Rightarrow> eval_args \<Rightarrow> instance_spec list \<Rightarrow> tool_caps \<Rightarrow> ('w, nat) bench_prog" where
  "run_agent_leg b a instances caps =
     (case ea_endpoint a of
        None \<Rightarrow> andthen (say ''no endpoint: pass --endpoint URL or set OPENAI_BASE_URL'') (\<lambda>_. throw 2)
      | Some endpoint \<Rightarrow>
          (let key = or_default ''OPENAI_API_KEY'' (ea_api_key_env a);
               client = eval_headers (with_key_env (new_client endpoint (profile_for (ea_keep_thinking a))) key) (ea_headers a) in
           andthen (look (check_credentials (mc_http b) client)) (\<lambda>cred.
             case cred of
               Inl e \<Rightarrow>
                 andthen (say (missing_credentials_message key (llm_error_display e))) (\<lambda>_. throw EXIT_NO_CREDENTIALS)
             | Inr _ \<Rightarrow> andthen (agent_rows b a client caps instances) (finish_report b a))))"

fun first_reward :: "('w, 'm) bench_scheme \<Rightarrow> path \<Rightarrow> string list \<Rightarrow> 'w \<Rightarrow> verdict" where
  "first_reward b workdir [] w = ErrorNoReport"
| "first_reward b workdir (n # ns) w =
     (if te_is_file b (below workdir n) w
      then (case check_tb_reward b (bn_parse_json b) (below workdir n) w of
              Inr v \<Rightarrow> v | Inl _ \<Rightarrow> first_reward b workdir ns w)
      else first_reward b workdir ns w)"

definition eval_verdict_from_workdir :: "('w, 'm) bench_scheme \<Rightarrow> path \<Rightarrow> 'w \<Rightarrow> verdict" where
  "eval_verdict_from_workdir b workdir w = first_reward b workdir [''reward.txt'', ''reward.json''] w"

definition engine_verdict :: "('w, 'm) bench_scheme \<Rightarrow> instance_spec \<Rightarrow> path \<Rightarrow> ('w, verdict) bench_prog" where
  "engine_verdict b inst work =
     andthen (attempt (run_instance (bn_engine b) inst work)) (\<lambda>r.
       case r of
         Inr oc \<Rightarrow>
           (case ct_reward oc of
              Some hit \<Rightarrow> ret (if hit then Resolved else Unresolved)
            | None \<Rightarrow> look (eval_verdict_from_workdir b work))
       | Inl e \<Rightarrow> infra_verdict (is_id inst) e)"

definition engine_instance :: "('w, 'm) bench_scheme \<Rightarrow> eval_args \<Rightarrow> instance_spec \<Rightarrow> ('w, instance_report) bench_prog" where
  "engine_instance b a inst =
     (let work = below (ea_out_dir a) (is_id inst); events = below work ''events.jsonl'' in
      attempt_or (te_create_dirs b work) (\<lambda>_. andthen (say (''cannot create '' @ path_text work)) (\<lambda>_. throw 2))
      (andthen (look (bn_now b)) (\<lambda>start.
      andthen (engine_verdict b inst work) (\<lambda>v.
      andthen (wall_since b start) (\<lambda>wall.
      andthen (attempt (tf_write b events [])) (\<lambda>_. report_row b inst a v events wall []))))))"

fun engine_rows :: "('w, 'm) bench_scheme \<Rightarrow> eval_args \<Rightarrow> tool_caps \<Rightarrow> instance_spec list \<Rightarrow>
    ('w, instance_report list) bench_prog" where
  "engine_rows b a caps [] = ret []"
| "engine_rows b a caps (i # rest) =
     andthen (look (check_winnability (slice_of b) (below (ea_tasks_dir a) (is_id i)) caps)) (\<lambda>bads.
     andthen (for_each (\<lambda>bad. say (''unwinnable '' @ is_id i @ '': '' @ bad)) bads) (\<lambda>_.
       if ea_winnability_only a then engine_rows b a caps rest
       else
         andthen (engine_instance b a i) (\<lambda>r.
         andthen (engine_rows b a caps rest) (\<lambda>rs. ret (r # rs)))))"

text \<open>What \<open>preflight\<close> prints of an instance it lists.\<close>

definition excluding :: "string \<Rightarrow> string" where
  "excluding ident = ''pre-flight: excluding '' @ ident @ '' (broken oracle/tests/image)''"

definition run_eval :: "('w, 'm) bench_scheme \<Rightarrow> eval_args \<Rightarrow> ('w, nat) bench_prog" where
  "run_eval b a =
     andthen (look (load_tb_slice (slice_of b) (ea_tasks_dir a) (ea_ids a))) (\<lambda>loaded.
       case loaded of
         Inl e \<Rightarrow> andthen (say (''cannot load slice: '' @ e)) (\<lambda>_. throw 2)
       | Inr instances \<Rightarrow>
           andthen (for_each say (map excluding (preflight instances))) (\<lambda>_.
             if ea_agent a then run_agent_leg b a instances eval_winnability_caps
             else andthen (engine_rows b a eval_winnability_caps instances) (finish_report b a)))"

section \<open>The program\<close>

definition bench_start :: "'w \<Rightarrow> 'w bench_ctx" where
  "bench_start w = \<lparr>bx_world = w, bx_out = [], bx_err = [], bx_log = []\<rparr>"

definition main :: "('w, 'm) bench_scheme \<Rightarrow> string \<Rightarrow> string \<Rightarrow> string list \<Rightarrow> 'w \<Rightarrow> exit_report option \<times> 'w" where
  "main b usage eval_usage argv w =
     (if 1 < length argv \<and> argv ! 1 = ''eval''
      then (case parse_eval (process_var b w) eval_usage argv of
              Inl e \<Rightarrow> (stop_with 2 e, w)
            | Inr a \<Rightarrow>
                (case run_eval b a (bench_start w) of
                   (r, c) \<Rightarrow> (Some \<lparr>xr_code = (case r of Inl code \<Rightarrow> code | Inr code \<Rightarrow> code), xr_stdout = bx_out c,
                                xr_stderr = bx_err c\<rparr>, bx_world c)))
      else run_command RUN_FUEL b usage argv (bn_now b w) w)"

section \<open>Every instance has its row\<close>

definition yields :: "('a \<Rightarrow> bool) \<Rightarrow> ('c, 'e, 'a) prog \<Rightarrow> bool" where
  "yields P m \<longleftrightarrow> triple (\<lambda>_. True) m (\<lambda>a _. P a) (\<lambda>_ _. True)"

named_theorems yields_rules \<open>how a property of every answer goes through a program\<close>

lemma yields_ret [yields_rules]: "P a \<Longrightarrow> yields P (ret a)"
  by (simp add: yields_def triple_ret)

lemma yields_throw [yields_rules]: "yields P (throw e)"
  by (simp add: yields_def triple_throw)

lemma yields_andthen [yields_rules]: "(\<And>a. yields P (k a)) \<Longrightarrow> yields P (andthen m k)"
  unfolding yields_def by (rule triple_andthen[where R = "\<lambda>_ _. True"]) (simp_all add: triple_def split: prod.split sum.split)

lemma yields_look [yields_rules]: "(\<And>w. P (f w)) \<Longrightarrow> yields P (look f)"
  by (simp add: yields_def look_def triple_gets)

lemma yields_sum [yields_rules]:
  "(\<And>a. x = Inl a \<Longrightarrow> yields P (m a)) \<Longrightarrow> (\<And>b. x = Inr b \<Longrightarrow> yields P (k b)) \<Longrightarrow>
   yields P (case x of Inl a \<Rightarrow> m a | Inr b \<Rightarrow> k b)"
  by (cases x) auto

lemma yields_attempt_or [yields_rules]: "(\<And>e. yields P (h e)) \<Longrightarrow> yields P m \<Longrightarrow> yields P (attempt_or f h m)"
  unfolding attempt_or_def by (intro yields_rules)

definition row_of :: "eval_args \<Rightarrow> instance_spec \<Rightarrow> instance_report \<Rightarrow> bool" where
  "row_of a inst r \<longleftrightarrow> ir_id r = is_id inst \<and> ir_apply_mode r = apply_mode_for a"

lemma mode_row:
  "instance_report_with_mode f decode hash ident v events wall ptext mode detail w = Inr r \<Longrightarrow>
   ir_id r = ident \<and> ir_apply_mode r = mode"
  by (auto simp: instance_report_with_mode_def try_then_def split: sum.splits prod.splits)

lemma row_infra [yields_rules]: "yields (row_of a inst) (infra_row b inst a home wall)"
  unfolding infra_row_def
  by (rule yields_look) (auto simp: infra_report_def row_of_def dest: mode_row split: sum.split)

lemma row_report [yields_rules]: "yields (row_of a inst) (report_row b inst a v events wall ptext)"
proof -
  have "row_of a inst row" if "report_row b inst a v events wall ptext c = (Inr row, c')" for c row c'
    using that mode_row[of b "bn_decode b" "bn_hash b" "is_id inst" v events wall ptext "apply_mode_for a" None "bx_world c"]
    by (auto simp: report_row_def look_def say_def prog_defs row_of_def split: sum.splits)
  then show ?thesis by (auto simp: yields_def intro: tripleI)
qed

lemma row_run [yields_rules]: "yields (row_of a inst) (run_and_grade b inst a client home work start container)"
  unfolding run_and_grade_def Let_def by (intro yields_rules)

lemma row_agent: "yields (row_of a inst) (agent_instance b a client caps inst)"
  unfolding agent_instance_def Let_def by (intro yields_rules)

lemma row_engine: "yields (row_of a inst) (engine_instance b a inst)"
  unfolding engine_instance_def Let_def by (intro yields_rules)

lemma yieldsD: "yields P m \<Longrightarrow> m c = (Inr a, c') \<Longrightarrow> P a"
  by (auto simp: yields_def dest: tripleD_ok)

lemma agent_rows_spec: "yields (\<lambda>rows. list_all2 (row_of a) insts rows) (agent_rows b a client caps insts)"
proof (induction insts)
  case Nil
  then show ?case by (simp add: yields_ret)
next
  case (Cons inst insts)
  have "list_all2 (row_of a) (inst # insts) rows" if run: "agent_rows b a client caps (inst # insts) c = (Inr rows, c')" for c rows c'
  proof -
    obtain r c1 rs where r: "agent_instance b a client caps inst c = (Inr r, c1)"
      and rs: "agent_rows b a client caps insts c1 = (Inr rs, c')" and rows: "rows = r # rs"
      using run by (auto simp: prog_defs split: prod.splits sum.splits)
    show ?thesis using yieldsD[OF row_agent r] yieldsD[OF Cons.IH rs] rows by simp
  qed
  then show ?case by (auto simp: yields_def intro: tripleI)
qed

lemma engine_rows_spec:
  "\<not> ea_winnability_only a \<Longrightarrow> yields (\<lambda>rows. list_all2 (row_of a) insts rows) (engine_rows b a caps insts)"
proof (induction insts)
  case Nil
  then show ?case by (simp add: yields_ret)
next
  case (Cons inst insts)
  have "list_all2 (row_of a) (inst # insts) rows" if run: "engine_rows b a caps (inst # insts) c = (Inr rows, c')" for c rows c'
  proof -
    obtain c0 r c1 rs where r: "engine_instance b a inst c0 = (Inr r, c1)"
      and rs: "engine_rows b a caps insts c1 = (Inr rs, c')" and rows: "rows = r # rs"
      using run Cons.prems by (auto simp: prog_defs split: prod.splits sum.splits)
    show ?thesis using yieldsD[OF row_engine r] yieldsD[OF Cons.IH[OF Cons.prems] rs] rows by simp
  qed
  then show ?case by (auto simp: yields_def intro: tripleI)
qed

lemma says_all: "\<exists>c'. for_each (\<lambda>x. say (f x)) xs c = (Inr (), c')"
  by (induction xs arbitrary: c) (simp_all add: say_def prog_defs)

lemma winnability_only_rows:
  "ea_winnability_only a \<Longrightarrow> \<exists>c'. engine_rows b a caps insts c = (Inr [], c')"
proof (induction insts arbitrary: c)
  case Nil
  then show ?case by (simp add: prog_defs)
next
  case (Cons inst insts)
  obtain c1 where "for_each (\<lambda>bad. say (''unwinnable '' @ is_id inst @ '': '' @ bad))
      (check_winnability (slice_of b) (below (ea_tasks_dir a) (is_id inst)) caps (bx_world c)) c = (Inr (), c1)"
    using says_all[of "\<lambda>bad. ''unwinnable '' @ is_id inst @ '': '' @ bad" _ c] by blast
  then show ?case using Cons.IH[of c1] Cons.prems by (simp add: andthen_def look_def gets_def)
qed


section \<open>No container is left\<close>

text \<open>The names of the containers that were started and not yet told to go.\<close>

definition live_step :: "string set \<Rightarrow> string \<times> string list \<times> bool \<Rightarrow> string set" where
  "live_step S e =
     (case e of (program, args, ok) \<Rightarrow>
        if program \<noteq> ''docker'' then S
        else if take 3 args = [''run'', ''-d'', ''--name''] \<and> ok then insert (args ! 3) S
        else if take 2 args = [''rm'', ''-f''] then S - set (drop 2 args) else S)"

definition live :: "(string \<times> string list \<times> bool) list \<Rightarrow> string set" where
  "live cmds = foldl live_step {} cmds"

definition running :: "string set \<Rightarrow> 'w bench_ctx \<Rightarrow> bool" where
  "running S c \<longleftrightarrow> live (bx_log c) = S"

text \<open>Programs that neither stop early nor touch a container.\<close>

definition steady :: "string set \<Rightarrow> ('w, 'a) bench_prog \<Rightarrow> bool" where
  "steady S m \<longleftrightarrow> triple (running S) m (\<lambda>_. running S) (\<lambda>_ _. False)"

named_theorems steady_rules \<open>steadiness goes through programs\<close>

lemma steady_triple: "steady S m \<Longrightarrow> triple (running S) m (\<lambda>_. running S) E"
  unfolding steady_def by (erule triple_conseq) auto

lemma steady_ret [steady_rules]: "steady S (ret a)"
  by (simp add: steady_def triple_ret)

lemma steady_andthen [steady_rules]: "steady S m \<Longrightarrow> (\<And>a. steady S (k a)) \<Longrightarrow> steady S (andthen m k)"
  unfolding steady_def by (rule triple_andthen)

lemma steady_if [steady_rules]: "(b \<Longrightarrow> steady S m) \<Longrightarrow> (\<not> b \<Longrightarrow> steady S n) \<Longrightarrow> steady S (if b then m else n)"
  by simp

lemma steady_option [steady_rules]:
  "steady S m \<Longrightarrow> (\<And>a. steady S (k a)) \<Longrightarrow> steady S (case x of None \<Rightarrow> m | Some a \<Rightarrow> k a)"
  by (cases x) auto

lemma steady_sum [steady_rules]:
  "(\<And>a. steady S (m a)) \<Longrightarrow> (\<And>b. steady S (k b)) \<Longrightarrow> steady S (case x of Inl a \<Rightarrow> m a | Inr b \<Rightarrow> k b)"
  by (cases x) auto

lemma steady_for_each [steady_rules]: "(\<And>x. steady S (f x)) \<Longrightarrow> steady S (for_each f xs)"
  by (induction xs) (auto intro: steady_rules)

lemma steady_say [steady_rules]: "steady S (say s)"
  by (auto simp: steady_def say_def running_def intro: triple_modify)

lemma steady_look [steady_rules]: "steady S (look f)"
  by (auto simp: steady_def look_def intro: triple_gets)

lemma steady_attempt [steady_rules]: "steady S (attempt f)"
  by (auto simp: steady_def attempt_def running_def intro!: triple_act split: prod.splits)

lemma steady_alter [steady_rules]: "steady S (alter f)"
  by (auto simp: steady_def alter_def running_def intro: triple_modify)

lemma running_command:
  "triple (running S) (command b program args dir limit)
     (\<lambda>r. running (live_step S (program, args, ended_well r))) E"
  by (auto simp: triple_def command_def prog_defs running_def live_def split: prod.split)

lemma steady_command [steady_rules]:
  assumes "program \<noteq> ''docker'' \<or> hd args = ''exec'' \<or> take 2 args = [''run'', ''--rm'']"
  shows "steady S (command b program args dir limit)"
proof -
  have "live_step S (program, args, ok) = S" for ok
    using assms by (cases args; cases "tl args") (auto simp: live_step_def)
  then show ?thesis using running_command[of S b program args dir limit "\<lambda>_ _. False"] by (simp add: steady_def)
qed

lemma steady_attempt_or [steady_rules]:
  "(\<And>e. steady S (h e)) \<Longrightarrow> steady S m \<Longrightarrow> steady S (attempt_or f h m)"
  unfolding attempt_or_def by (intro steady_rules)

lemma steady_some [steady_rules]: "steady S (say_some f v)"
  unfolding say_some_def by (intro steady_rules)

lemma steady_infra [steady_rules]: "steady S (infra_verdict ident e)"
  unfolding infra_verdict_def by (intro steady_rules)

lemma steady_row [steady_rules]: "steady S (infra_row b inst a home wall)"
  unfolding infra_row_def by (intro steady_rules)

lemma steady_wall [steady_rules]: "steady S (wall_since b start)"
  unfolding wall_since_def by (intro steady_rules)

lemma steady_live [steady_rules]: "steady S (grade_live_container b inst container home)"
  unfolding grade_live_container_def Let_def by (intro steady_rules) simp

lemma steady_grade [steady_rules]: "steady S (grade b inst a work)"
  unfolding grade_def run_harbor_def Let_def by (intro steady_rules) simp

lemma steady_graded [steady_rules]: "steady S (graded b inst a home work events container)"
  unfolding graded_def by (intro steady_rules)

lemma steady_wipe [steady_rules]: "steady S (wipe_workdir_via_docker b img work)"
  unfolding wipe_workdir_via_docker_def by (intro steady_rules) simp

text \<open>Programs that start with no container running and leave none, however they end.\<close>

definition clears :: "string set \<Rightarrow> ('w, 'a) bench_prog \<Rightarrow> bool" where
  "clears S m \<longleftrightarrow> triple (running S) m (\<lambda>_. running {}) (\<lambda>_. running {})"

lemma clears_steady: "steady {} m \<Longrightarrow> clears {} m"
  unfolding clears_def by (rule steady_triple)

lemma clears_throw: "clears {} (throw e)"
  by (simp add: clears_def triple_throw)

lemma clears_after: "steady S m \<Longrightarrow> (\<And>a. clears S (k a)) \<Longrightarrow> clears S (andthen m k)"
  unfolding clears_def by (rule triple_andthen[OF steady_triple])

lemma clears_then: "clears S m \<Longrightarrow> (\<And>a. clears {} (k a)) \<Longrightarrow> clears S (andthen m k)"
  unfolding clears_def by (rule triple_andthen)

lemma clears_sum:
  "(\<And>a. clears S (m a)) \<Longrightarrow> (\<And>b. clears S (k b)) \<Longrightarrow> clears S (case x of Inl a \<Rightarrow> m a | Inr b \<Rightarrow> k b)"
  by (cases x) auto

lemma clears_attempt_or: "(\<And>e. clears S (h e)) \<Longrightarrow> clears S m \<Longrightarrow> clears S (attempt_or f h m)"
  unfolding attempt_or_def by (intro clears_after clears_sum steady_rules)

definition held :: "string \<Rightarrow> string option \<Rightarrow> string set" where
  "held ident container = (case container of Some _ \<Rightarrow> {env_container_name ident} | None \<Rightarrow> {})"

lemma rm_clears: "clears (held ident container) (rm_env_container b ident)"
proof -
  have "live_step (held ident container) (''docker'', [''rm'', ''-f'', env_container_name ident], ok) = {}" for ok
    by (auto simp: live_step_def held_def split: option.splits)
  then show ?thesis
    using running_command[of "held ident container" b "''docker''" "[''rm'', ''-f'', env_container_name ident]" None None]
    unfolding rm_env_container_def clears_def by (intro triple_andthen[where R = "\<lambda>_. running {}"] triple_ret) simp_all
qed

lemma rm_if_started_clears: "clears (held (is_id inst) container) (rm_if_started b inst container)"
proof (cases container)
  case None
  then show ?thesis by (auto simp: rm_if_started_def held_def intro: clears_steady steady_rules)
next
  case (Some n)
  then show ?thesis using rm_clears[of "is_id inst" container] by (simp add: rm_if_started_def)
qed

lemma report_row_clears: "clears {} (report_row b inst a v events wall ptext)"
  unfolding report_row_def by (intro clears_after clears_sum clears_throw clears_steady steady_rules)

lemma run_and_grade_clears:
  "clears (held (is_id inst) container) (run_and_grade b inst a client home work start container)"
  unfolding run_and_grade_def Let_def
  by (intro clears_after[OF steady_attempt] clears_after[OF steady_for_each[OF steady_say]] clears_sum
      clears_after[OF steady_say] clears_after[OF steady_wall] clears_after[OF steady_graded]
      clears_then[OF rm_if_started_clears] report_row_clears clears_steady steady_rules)

lemma container_is_started:
  "triple (running {}) (container_for b inst a work)
     (\<lambda>r. running (case r of Inr container \<Rightarrow> held (is_id inst) container | Inl _ \<Rightarrow> {})) (\<lambda>_. running {})"
proof -
  let ?args = "env_container_run_args (is_image inst) work (ea_tasks_dir a) (is_id inst)"
  have step: "live_step {} (''docker'', ?args, ok) = (if ok then {env_container_name (is_id inst)} else {})" for ok
    by (simp add: live_step_def env_container_run_args_def)
  have "triple (running {}) (start_env_container b inst work (ea_tasks_dir a))
     (\<lambda>r. running (case r of Inr n \<Rightarrow> {env_container_name (is_id inst)} | Inl _ \<Rightarrow> {})) (\<lambda>_. running {})"
    unfolding start_env_container_def
  proof (intro triple_andthen)
    show "triple (running {}) (rm_env_container b (is_id inst)) (\<lambda>_. running {}) (\<lambda>_. running {})"
      using rm_clears[of "is_id inst" None] by (simp add: held_def clears_def)
    show "triple (running {}) (attempt f) (\<lambda>_. running {}) (\<lambda>_. running {})" for f :: "'a \<Rightarrow> (string + unit) \<times> 'a"
      by (rule steady_triple[OF steady_attempt])
    show "triple (running {}) (command b ''docker'' ?args None None)
        (\<lambda>r. running (if ended_well r then {env_container_name (is_id inst)} else {})) (\<lambda>_. running {})"
      using running_command[of "{}" b "''docker''" ?args None None] by (simp add: step)
  qed (auto simp: ended_well_def intro!: triple_ret split: option.splits sum.splits if_splits)
  moreover have "(case map_sum id Some r of Inl x \<Rightarrow> {} | Inr container \<Rightarrow> held (is_id inst) container)
      = (case r of Inl x \<Rightarrow> {} | Inr n \<Rightarrow> {env_container_name (is_id inst)})" for r :: "string + string"
    by (cases r) (simp_all add: held_def)
  ultimately show ?thesis
    unfolding container_for_def
    by (intro triple_if triple_ret triple_andthen) (auto simp: held_def intro!: triple_ret)
qed

lemma agent_instance_clears: "clears {} (agent_instance b a client caps inst)"
proof -
  have run: "clears {} (andthen (container_for b inst a work) (\<lambda>cont. case cont of
      Inl e \<Rightarrow> m e | Inr container \<Rightarrow> run_and_grade b inst a client home work start container))"
    if "\<And>e. clears {} (m e)" for m home work start
    unfolding clears_def
  proof (rule triple_andthen[OF container_is_started])
    fix r :: "string + string option"
    show "triple (running (case r of Inl _ \<Rightarrow> {} | Inr container \<Rightarrow> held (is_id inst) container))
       (case r of Inl e \<Rightarrow> m e | Inr container \<Rightarrow> run_and_grade b inst a client home work start container)
       (\<lambda>_. running {}) (\<lambda>_. running {})"
      using that run_and_grade_clears by (cases r) (simp_all add: clears_def)
  qed
  show ?thesis
    unfolding agent_instance_def Let_def
    by (intro clears_after[OF steady_look] clears_after[OF steady_for_each[OF steady_say]] clears_attempt_or
        clears_after[OF steady_say] clears_throw clears_after[OF steady_if] clears_after[OF steady_attempt]
        clears_sum run clears_steady steady_rules)
qed

lemma agent_rows_clears: "clears {} (agent_rows b a client caps insts)"
proof (induction insts)
  case Nil
  then show ?case by (auto intro: clears_steady steady_rules)
next
  case (Cons inst insts)
  then show ?case
    by (simp, intro clears_then[OF agent_instance_clears] clears_then[OF Cons.IH] clears_steady[OF steady_ret])
qed

lemma finish_steady: "steady S (finish_report b a reports)"
proof -
  have "steady S (modify (\<lambda>c. c\<lparr>bx_out := f c\<rparr>))" for f :: "'w bench_ctx \<Rightarrow> string"
    by (auto simp: steady_def running_def intro: triple_modify)
  then show ?thesis unfolding finish_report_def Let_def by (intro steady_rules)
qed

lemma agent_leg_clears: "clears {} (run_agent_leg b a instances caps)"
proof (cases "ea_endpoint a")
  case None
  then show ?thesis unfolding run_agent_leg_def by (simp, intro clears_after[OF steady_say] clears_throw)
next
  case (Some e)
  then show ?thesis unfolding run_agent_leg_def Let_def
    by (simp, intro clears_after[OF steady_look] clears_sum clears_after[OF steady_say] clears_throw
        clears_then[OF agent_rows_clears] clears_steady[OF finish_steady])
qed

lemma engine_rows_clears: "clears {} (engine_rows b a caps insts)"
proof (induction insts)
  case Nil
  then show ?case by (auto intro: clears_steady steady_rules)
next
  case (Cons inst insts)
  have "clears {} (engine_instance b a inst)"
  proof -
    have "steady {} (engine_verdict b inst work)" for work
      unfolding engine_verdict_def by (intro steady_rules)
    then show ?thesis
      unfolding engine_instance_def Let_def
      by (intro clears_attempt_or clears_after[OF steady_say] clears_throw clears_after[OF steady_look] clears_after
          clears_after[OF steady_wall] clears_after[OF steady_attempt] report_row_clears)
  qed
  then have "clears {} (andthen (engine_instance b a inst) (\<lambda>r. andthen (engine_rows b a caps insts) (\<lambda>rs. ret (r # rs))))"
    by (intro clears_then[OF _ clears_then[OF Cons.IH]] clears_steady[OF steady_ret])
  then show ?case
    unfolding engine_rows.simps using Cons.IH
    by (intro clears_after[OF steady_look] clears_after[OF steady_for_each[OF steady_say]]) (simp split: if_split)
qed

text \<open>however an evaluation ends, with its report, early with a code, or with instances that
  failed anywhere on their way, every container it started has since been told to go.\<close>

theorem no_container_is_left:
  "live (bx_log (snd (run_eval b a (bench_start w)))) = {}"
proof -
  have "clears {} (run_eval b a)"
    unfolding run_eval_def
    by (intro clears_after[OF steady_look] clears_sum clears_after[OF steady_say] clears_throw
        clears_after[OF steady_for_each[OF steady_say]])
      (simp, intro conjI impI agent_leg_clears clears_then[OF engine_rows_clears] clears_steady[OF finish_steady])
  then have "keeps (running {}) (run_eval b a)" unfolding clears_def by (rule triple_keeps)
  then show ?thesis using keepsD[of "running {}" "run_eval b a" "bench_start w"]
    by (simp add: running_def live_def bench_start_def)
qed

section \<open>What an earlier grading leaves behind\<close>

text \<open>The directory of an instance is not emptied between evaluations. In the container leg a reward file decides
  whatever the verifier's exit says, and in the harbor leg a result that exists decides although the command failed:
  neither is known to come from this grading.\<close>

lemma any_reward_decides:
  assumes "bn_command b ''docker'' [''exec'', n, ''bash'', ''/tests/test.sh''] None
      (Some (wrap_add64 (is_timeout_secs inst) 300)) (bx_world c) = (Some (Inr x), w)"
    and "tf_write b (below home ''verifier-stdout.txt'') (utf8_lossy (px_stdout x) @ utf8_lossy (px_stderr x)) w = (u, w1)"
    and "tf_read_text b (below (below (below home ''verifier-logs'') ''verifier'') ''reward.txt'') w1 = Inr t"
  shows "fst (grade_live_container b inst n home c) = Inr (tb_reward (bn_parse_json b) t)"
  using assms
  by (simp add: grade_live_container_def command_def attempt_def look_def say_def say_some_def answered_exit_def prog_defs
      check_tb_reward_def grade_live_verdict_def Let_def split: option.split)

lemma any_result_decides:
  assumes "bn_command b ''harbor'' [''run'', ''-c'', path_text job, ''-y'', ''-q''] (Some (ea_out_dir a))
      (Some (wrap_add64 (is_timeout_secs inst) 300)) (bx_world c) = (Some (Inr x), w)"
    and "tf_exists b (below (below (below (ea_out_dir a) ''jobs'') (''eval-'' @ is_id inst)) ''result.json'') w"
  shows "fst (run_harbor b inst a job c)
    = Inr (reward_verdict b (below (below (below (ea_out_dir a) ''jobs'') (''eval-'' @ is_id inst)) ''result.json'') w)"
  using assms
  by (simp add: run_harbor_def command_def look_def say_def say_some_def answered_exit_def prog_defs Let_def split: option.split)

section \<open>Every invocation ends\<close>

text \<open>\<open>stops Q m\<close>: the answer of \<open>m\<close> satisfies \<open>Q\<close>, and an early return has the code of a usage error, of a run that could
  not be set up, or of missing credentials.\<close>

definition stops :: "('a \<Rightarrow> bool) \<Rightarrow> ('c, nat, 'a) prog \<Rightarrow> bool" where
  "stops Q m \<longleftrightarrow> triple (\<lambda>_. True) m (\<lambda>a _. Q a) (\<lambda>e _. e \<in> {2, EXIT_NO_CREDENTIALS})"

abbreviation stops_early :: "('c, nat, 'a) prog \<Rightarrow> bool" where
  "stops_early \<equiv> stops (\<lambda>_. True)"

named_theorems stops_rules \<open>how the codes of early returns go through a program\<close>

lemma stops_prims [stops_rules]:
  "Q a \<Longrightarrow> stops Q (ret a)" "stops Q (throw 2)" "stops Q (throw EXIT_NO_CREDENTIALS)"
  "stops_early (look f)" "stops_early (say s)" "stops_early (attempt g)" "stops_early (alter h)"
  "stops_early (command b p args d l)" "stops_early (modify u)" "stops_early (say_some v s')"
  by (simp_all add: stops_def triple_def prog_defs look_def say_def attempt_def alter_def command_def say_some_def
      split: prod.split option.split)

lemma stops_andthen [stops_rules]: "stops_early m \<Longrightarrow> (\<And>a. stops Q (k a)) \<Longrightarrow> stops Q (andthen m k)"
  unfolding stops_def by (rule triple_andthen)

lemma stops_if [stops_rules]: "(b \<Longrightarrow> stops Q m) \<Longrightarrow> (\<not> b \<Longrightarrow> stops Q n) \<Longrightarrow> stops Q (if b then m else n)"
  by simp

lemma stops_sum [stops_rules]:
  "(\<And>a. x = Inl a \<Longrightarrow> stops Q (m a)) \<Longrightarrow> (\<And>b. x = Inr b \<Longrightarrow> stops Q (k b)) \<Longrightarrow>
   stops Q (case x of Inl a \<Rightarrow> m a | Inr b \<Rightarrow> k b)"
  by (cases x) auto

lemma stops_option [stops_rules]:
  "stops Q m \<Longrightarrow> (\<And>a. stops Q (k a)) \<Longrightarrow> stops Q (case x of None \<Rightarrow> m | Some a \<Rightarrow> k a)"
  by (cases x) auto

lemma stops_for_each [stops_rules]: "(\<And>x. stops_early (f x)) \<Longrightarrow> stops_early (for_each f xs)"
  unfolding stops_def by (rule triple_for_each)

lemma stops_attempt_or [stops_rules]: "(\<And>e. stops Q (h e)) \<Longrightarrow> stops Q m \<Longrightarrow> stops Q (attempt_or f h m)"
  unfolding attempt_or_def by (intro stops_rules)

lemma stops_grading [stops_rules]:
  "stops_early (rm_env_container b i)" "stops_early (rm_if_started b inst cont)" "stops_early (infra_row b inst a home wall)"
  "stops_early (wall_since b t)" "stops_early (report_row b inst a v events wall p)" "stops_early (infra_verdict i e)"
  "stops_early (wipe_workdir_via_docker b img work)"
  unfolding rm_env_container_def rm_if_started_def infra_row_def wall_since_def report_row_def infra_verdict_def
    wipe_workdir_via_docker_def
  by (intro stops_rules TrueI)+

lemma stops_graded [stops_rules]: "stops_early (graded b inst a home work events cont)"
  unfolding graded_def grade_live_container_def grade_def run_harbor_def Let_def by (intro stops_rules TrueI)

lemma stops_agent [stops_rules]: "stops_early (agent_instance b a client caps inst)"
  unfolding agent_instance_def run_and_grade_def container_for_def start_env_container_def Let_def
  by (intro stops_rules TrueI)

lemma stops_agent_rows [stops_rules]: "stops_early (agent_rows b a client caps insts)"
  by (induction insts) (simp_all add: stops_rules)

lemma stops_engine_rows [stops_rules]: "stops_early (engine_rows b a caps insts)"
proof (induction insts)
  case (Cons i rest)
  show ?case
    unfolding engine_rows.simps engine_instance_def engine_verdict_def Let_def by (intro stops_rules TrueI Cons.IH)
qed (simp add: stops_rules)

lemma stops_report [stops_rules]: "stops (\<lambda>code. code \<in> {0, 2}) (finish_report b a reports)"
  unfolding finish_report_def Let_def by (intro stops_rules TrueI) simp_all

lemma stops_eval: "stops (\<lambda>code. code \<in> {0, 2}) (run_eval b a)"
  unfolding run_eval_def run_agent_leg_def Let_def by (intro stops_rules TrueI)

lemma eval_codes: "run_eval b a c = (r, c') \<Longrightarrow> (case r of Inl code \<Rightarrow> code | Inr code \<Rightarrow> code) \<in> {0, 2, 4}"
  using stops_eval[of b a] unfolding stops_def triple_def
  by (drule_tac spec[of _ c]) (auto simp: EXIT_NO_CREDENTIALS_def split: sum.splits)

text \<open>C26 (every_invocation_ends): whatever is typed, and whatever the environment, the endpoint, the model, the tools, git,
  docker, the harbor command and the disk do, both commands end: the program leaves with a report whose code is one of
  the documented ones.\<close>

theorem every_invocation_ends:
  "\<exists>rep. fst (main b usage eval_usage argv w) = Some rep \<and> xr_code rep \<in> {0, 2, 3, 4, 5, 6, 7}"
proof (cases "1 < length argv \<and> argv ! 1 = ''eval''")
  case True
  show ?thesis
  proof (cases "parse_eval (process_var b w) eval_usage argv")
    case (Inr a)
    obtain r c where "run_eval b a (bench_start w) = (r, c)" by fastforce
    then show ?thesis using True Inr eval_codes[of b a "bench_start w" r c] by (auto simp: main_def)
  qed (use True in \<open>simp add: main_def stop_with_def\<close>)
next
  case False
  then show ?thesis using every_command_ends[of b usage argv "bn_now b w" w] unfolding main_def by auto
qed

end
