(* ===== verification/Deeds.thy ===== *)
theory Deeds
  imports EvalRun
begin

text \<open>
  What a run may do to the machine it works on, stated without the code: the inductive relation \<open>deed\<close> lists every
  single effect a run may have, with what must hold for it. The lemmas carry it through the tools, the overlay and the
  driver: whatever the model answers, the world a run ends in is reached from the one it began in by deeds alone.
\<close>

section \<open>What the tools may do\<close>

text \<open>A file a tool may write: below the root, not in git's own directory, on no denied glob, and its path passes
  the check for links in the world it is written in.\<close>

definition file_allowed :: "('w, 'm) fs_scheme \<Rightarrow> path \<Rightarrow> path \<Rightarrow> 'w \<Rightarrow> bool" where
  "file_allowed f r q w \<longleftrightarrow>
     under r q \<and> \<not> has_git q \<and> \<not> list_ex (denied_by (relative_text r q)) default_denied_globs
     \<and> symlink_safe f r q True w = Inr ()"

text \<open>A directory a tool may make: one step beyond the root or a directory that passes the check.\<close>

definition dir_allowed :: "('w, 'm) fs_scheme \<Rightarrow> path \<Rightarrow> path \<Rightarrow> 'w \<Rightarrow> bool" where
  "dir_allowed f r d w \<longleftrightarrow>
     (\<exists>prev c. d = join_path prev [c] \<and> (prev = r \<or> symlink_safe f r prev True w = Inr ()))"

text \<open>Words a tool may run, and the variables it may hand over.\<close>

definition words_allowed :: "run_args \<Rightarrow> string list \<Rightarrow> bool" where
  "words_allowed a argv \<longleftrightarrow>
     list_all (\<lambda>tok. \<not> is_shell_op tok) argv
     \<and> (ra_exec_policy a = AnyCommand \<or>
        list_ex (\<lambda>q. trim q \<noteq> [] \<and> (join '' '' argv = trim q \<or> prefix (trim q @ '' '') (join '' '' argv))) (ra_allow_cmd a))"

lemma nothing_allowed: "ra_exec_policy a = Allowlist \<Longrightarrow> list_all (\<lambda>q. trim q = []) (ra_allow_cmd a) \<Longrightarrow> \<not> words_allowed a argv"
  by (auto simp: words_allowed_def list_all_iff list_ex_iff)

definition keyless :: "(string \<times> string) list \<Rightarrow> bool" where
  "keyless e \<longleftrightarrow> list_all (\<lambda>(n, v). \<not> suffix ''API_KEY'' n) e"

inductive tool_deed :: "('w, 'm) machine_scheme \<Rightarrow> run_args \<Rightarrow> 'w \<Rightarrow> 'w \<Rightarrow> bool" for m a where
  wrote: "file_allowed m (ra_workdir a) q w \<Longrightarrow> tool_deed m a w (snd (tf_write m q s w))"
| created: "file_allowed m (ra_workdir a) q w \<Longrightarrow> tool_deed m a w (snd (tf_create_new m q w))"
| filled: "file_allowed m (ra_workdir a) q w \<Longrightarrow> tf_create_new m q w = (Inr (), w') \<Longrightarrow>
    tool_deed m a w' (snd (tf_fill m q s w'))"
| replaced: "file_allowed m (ra_workdir a) q w \<Longrightarrow> tf_create_new m q w = (Inl e, w') \<Longrightarrow>
    tool_deed m a w' (snd (tf_write m q s w'))"
| made_dir: "dir_allowed m (ra_workdir a) d w \<Longrightarrow> tool_deed m a w (snd (tf_create_dir m d w))"
| started_child: "words_allowed a argv \<Longrightarrow> keyless e \<Longrightarrow>
    full = (case ra_exec_wrap a of None \<Rightarrow> argv | Some wrap \<Rightarrow> wrap @ argv) \<Longrightarrow>
    tool_deed m a w (snd (pe_spawn (mc_proc m) full (ra_workdir a) e w))"
| awaited: "tool_deed m a w (snd (pe_wait (mc_proc m) t w))"
| killed: "tool_deed m a w (pe_kill (mc_proc m) w)"

abbreviation tool_deeds :: "('w, 'm) machine_scheme \<Rightarrow> run_args \<Rightarrow> 'w \<Rightarrow> 'w \<Rightarrow> bool" where
  "tool_deeds m a \<equiv> (tool_deed m a)\<^sup>*\<^sup>*"

lemma then_deed: "tool_deeds m a w w' \<Longrightarrow> tool_deed m a w' w'' \<Longrightarrow> tool_deeds m a w w''"
  by (rule rtranclp.rtrancl_into_rtrancl)

lemma policy_facts [simp]:
  "po_root (policy_for a) = ra_workdir a" "po_denied_globs (policy_for a) = default_denied_globs"
  "po_syntax_cmd (policy_for a) = None"
  by (simp_all add: policy_for_def)

lemma no_gate [simp]: "check_syntax pe sf (policy_for a) s w = (Inr (), w)"
  by (simp add: check_syntax_def)

lemma resolved_allowed:
  assumes "resolve_under f r arg True default_denied_globs w = Inr q"
  shows "file_allowed f r q w"
proof -
  have "under r q \<and> \<not> has_git q \<and> \<not> list_ex (denied_by (relative_text r q)) default_denied_globs
      \<and> symlink_safe f r q True w = Inr ()"
    using assms
    by (cases "symlink_safe f r q True w")
      (auto simp: resolve_under_def Let_def try_then_def split: if_splits sum.splits option.splits)
  then show ?thesis unfolding file_allowed_def by blast
qed

lemma edit_deeds: "tool_deeds m a w (snd (execute_edit pe sf m (policy_for a) parse iv w))"
proof -
  define plan where "plan = try_then (parse_args parse (inv_args iv)) (\<lambda>args.
      try_then (planned_edit m (policy_for a) args w) (\<lambda>pl. Inr (args, pl)))"
  show ?thesis
  proof (cases plan)
    case (Inl e)
    then show ?thesis by (simp add: execute_edit_def plan_def)
  next
    case (Inr r)
    obtain args q new where r: "r = (args, q, new)" by (cases r)
    have "planned_edit m (policy_for a) args w = Inr (q, new)"
      using Inr r unfolding plan_def by (auto simp: try_then_Inr)
    then have "resolve_under m (ra_workdir a) (ea_path args) True default_denied_globs w = Inr q"
      unfolding planned_edit_def resolved_def failed_def by (auto simp: try_then_Inr map_sum_Inr split: if_splits)
    then have "tool_deed m a w (snd (tf_write m q new w))" by (intro tool_deed.wrote resolved_allowed)
    moreover have "snd (execute_edit pe sf m (policy_for a) parse iv w) = snd (tf_write m q new w)"
      using Inr r by (simp add: execute_edit_def plan_def split: sum.split prod.split)
    ultimately show ?thesis by auto
  qed
qed

lemma create_dirs_deeds:
  assumes "cur = ra_workdir a \<or> symlink_safe m (ra_workdir a) cur True w = Inr ()"
  shows "tool_deeds m a w (snd (create_dirs m (ra_workdir a) cur cs w))"
  using assms
proof (induction cs arbitrary: cur w)
  case (Cons c cs)
  let ?cur = "join_path cur [c]"
  obtain made w1 where made: "(if tf_exists m ?cur w then (Inr (), w) else tf_create_dir m ?cur w) = (made, w1)"
    by fastforce
  have "dir_allowed m (ra_workdir a) ?cur w" using Cons.prems unfolding dir_allowed_def by blast
  then have w1: "tool_deeds m a w w1"
    using made tool_deed.made_dir[of m a ?cur w] by (auto split: if_splits)
  show ?case
  proof (cases made)
    case (Inl e)
    then show ?thesis using made w1 by simp
  next
    case (Inr u)
    show ?thesis
    proof (cases "symlink_safe m (ra_workdir a) ?cur True w1")
      case (Inl e)
      then show ?thesis using made \<open>made = Inr u\<close> w1 by simp
    next
      case safe: (Inr v)
      then have "tool_deeds m a w1 (snd (create_dirs m (ra_workdir a) ?cur cs w1))" using Cons.IH[of ?cur w1] safe by auto
      then show ?thesis using made \<open>made = Inr u\<close> safe w1 by simp
    qed
  qed
qed simp

lemma resolve_for_write_deeds:
  assumes "resolve_for_write m (policy_for a) arg w = (r, w')"
  shows "tool_deeds m a w w' \<and> (\<forall>q. r = Inr q \<longrightarrow> file_allowed m (ra_workdir a) q w')"
proof -
  have dirs: "tool_deeds m a w (snd (create_parent_dirs m (ra_workdir a) arg w))"
    by (simp add: create_parent_dirs_def create_dirs_deeds)
  show ?thesis
    using assms dirs
    by (auto simp: resolve_for_write_def resolved_def map_sum_Inr intro: resolved_allowed
        split: sum.splits path_error.splits prod.splits)
qed

lemma put_file_deeds:
  assumes "file_allowed m (ra_workdir a) q w"
  shows "tool_deeds m a w (snd (put_file m q body w))"
proof -
  obtain r w1 where c: "tf_create_new m q w = (r, w1)" by fastforce
  then have w1: "tool_deeds m a w w1" using tool_deed.created[OF assms] by auto
  show ?thesis
  proof (cases r)
    case (Inl e)
    then have "tool_deed m a w1 (snd (tf_write m q body w1))" using tool_deed.replaced[OF assms] c by simp
    then show ?thesis using c Inl w1 then_deed[OF w1] by (auto simp: put_file_def split: open_error.splits)
  next
    case (Inr u)
    then have "tool_deed m a w1 (snd (tf_fill m q body w1))" using tool_deed.filled[OF assms] c by simp
    then show ?thesis using c Inr w1 then_deed[OF w1] by (auto simp: put_file_def)
  qed
qed

lemma write_deeds: "tool_deeds m a w (snd (execute_write pe sf m (policy_for a) parse iv w))"
proof (cases "parse_args parse (inv_args iv)")
  case (Inl e)
  then show ?thesis by (simp add: execute_write_def)
next
  case (Inr args)
  show ?thesis
  proof (cases "EDIT_REPLACE_CAP < length (wa_content args)")
    case True
    then show ?thesis using Inr by (simp add: execute_write_def)
  next
    case False
    obtain r w1 where r: "resolve_for_write m (policy_for a) (wa_path args) w = (r, w1)" by fastforce
    note ok = resolve_for_write_deeds[OF r]
    show ?thesis
    proof (cases r)
      case (Inl e)
      then show ?thesis using \<open>parse_args parse (inv_args iv) = Inr args\<close> False r ok by (simp add: execute_write_def)
    next
      case allowed: (Inr q)
      then have "file_allowed m (ra_workdir a) q w1" using ok by simp
      then have "tool_deeds m a w (snd (put_file m q (wa_content args) w1))"
        by (intro rtranclp_trans[OF conjunct1[OF ok] put_file_deeds])
      moreover have "snd (execute_write pe sf m (policy_for a) parse iv w) \<in> {w1, snd (put_file m q (wa_content args) w1)}"
        using Inr False r allowed by (simp add: execute_write_def split: sum.split prod.split)
      ultimately show ?thesis using ok by auto
    qed
  qed
qed

lemma gate_words: "List.find is_shell_op argv = None \<Longrightarrow> allowed_command (policy_for a) argv \<Longrightarrow> words_allowed a argv"
  by (auto simp: words_allowed_def allowed_command_def prefix_allowed_def policy_for_def find_None_iff list_all_iff list_ex_iff)

lemma child_keyless: "keyless (child_env p lookup)"
  using child_env_clean[of _ _ p lookup] by (auto simp: keyless_def list_all_iff env_name_blocked_def)

lemma command_deeds: "tool_deeds m a w (snd (run_allowed (mc_proc m) (policy_for a) cmd t w))"
proof -
  let ?argv = "split_cmd cmd" and ?p = "policy_for a"
  have spawned: "tool_deeds m a w (snd (spawn_allowed (mc_proc m) ?p ?argv w))"
    if ok: "List.find is_shell_op ?argv = None" "allowed_command ?p ?argv"
  proof -
    have "tool_deed m a w (snd (pe_spawn (mc_proc m) (spawn_argv ?p ?argv) (ra_workdir a)
        (child_env ?p (\<lambda>n. pe_var (mc_proc m) n w)) w))"
      by (rule tool_deed.started_child[OF gate_words[OF ok] child_keyless]) (simp add: spawn_argv_def policy_for_def)
    then show ?thesis by (auto simp: spawn_allowed_def Let_def split: sum.splits prod.splits)
  qed
  have waited: "tool_deeds m a w1 (snd (case pe_wait (mc_proc m) t w1 of
        (WaitError e, w2) \<Rightarrow> (x1 e, pe_kill (mc_proc m) w2) | (ChildTimeout, w2) \<Rightarrow> (x2, pe_kill (mc_proc m) w2)
      | (ChildCancelled, w2) \<Rightarrow> (x3, pe_kill (mc_proc m) w2) | (ReaderError e, w2) \<Rightarrow> (x4 e, w2)
      | (ChildExited ok out err, w2) \<Rightarrow> (x5 ok out err, w2)))"
    for w1 and x1 x4 :: "string \<Rightarrow> tool_error + (bool \<times> string \<times> bool)" and x2 x3 and x5 
  proof -
    obtain r w2 where r: "pe_wait (mc_proc m) t w1 = (r, w2)" by fastforce
    then have "tool_deed m a w1 w2" using tool_deed.awaited[of m a w1 t] by simp
    then have "tool_deeds m a w1 w2" "tool_deeds m a w1 (pe_kill (mc_proc m) w2)"
      using tool_deed.killed[of m a w2] by (auto intro: rtranclp.rtrancl_into_rtrancl)
    then show ?thesis using r by (cases r) simp_all
  qed
  show ?thesis
  proof (cases "List.find is_shell_op ?argv = None \<and> allowed_command ?p ?argv")
    case True
    obtain r w1 where s: "spawn_allowed (mc_proc m) ?p ?argv w = (r, w1)" by fastforce
    then have w1: "tool_deeds m a w w1" using spawned True by (metis snd_conv)
    show ?thesis
    proof (cases r)
      case (Inl e)
      then show ?thesis using True s w1 by (simp add: run_allowed_def run_allowed_argv_def)
    next
      case (Inr u)
      then show ?thesis
        using True s rtranclp_trans[OF w1 waited] by (simp add: run_allowed_def run_allowed_argv_def)
    qed
  qed (auto simp: run_allowed_def run_allowed_argv_def split: option.splits)
qed

lemma tool_runs: "tool_deeds m a w (snd (run_tool m (policy_for a) iv w))"
proof -
  have "snd (execute_exec (mc_proc m) (policy_for a) (mc_cmd m) iv w) = w \<or>
      (\<exists>cmd. snd (execute_exec (mc_proc m) (policy_for a) (mc_cmd m) iv w) = snd (run_allowed (mc_proc m) (policy_for a) cmd EXEC_TIMEOUT w))"
    "snd (execute_test (mc_proc m) (policy_for a) (mc_cmd m) iv w) = w \<or>
      (\<exists>cmd. snd (execute_test (mc_proc m) (policy_for a) (mc_cmd m) iv w) = snd (run_allowed (mc_proc m) (policy_for a) cmd EXEC_TIMEOUT w))"
    unfolding execute_exec_def execute_test_def
    by (auto split: sum.splits prod.splits) (metis snd_conv)+
  then have "tool_deeds m a w (snd (execute_exec (mc_proc m) (policy_for a) (mc_cmd m) iv w))"
    "tool_deeds m a w (snd (execute_test (mc_proc m) (policy_for a) (mc_cmd m) iv w))"
    using command_deeds[of m a w] by (metis rtranclp.rtrancl_refl)+
  then show ?thesis by (simp add: run_tool_def Let_def edit_deeds write_deeds)
qed

section \<open>What a run may do\<close>

definition sidecar :: "run_args \<Rightarrow> path \<Rightarrow> bool" where
  "sidecar a p \<longleftrightarrow> resolve_log_path a = Some p \<or> dump_path a = Some p"

inductive deed :: "('w, 'm) machine_scheme \<Rightarrow> 'w llm \<Rightarrow> run_args \<Rightarrow> 'w \<Rightarrow> 'w \<Rightarrow> bool" for m provider a where
  tool_did: "tool_deed m a w w' \<Longrightarrow> deed m provider a w w'"
| model_asked: "deed m provider a w (snd (provider (ra_model a) req w))"
| model_cut: "mc_cut_model m req w = Some w' \<Longrightarrow> deed m provider a w w'"
| git_ran: "deed m provider a w (snd (te_git m (hermetic_git (ra_workdir a) args) stdin w))"
| info_made: "deed m provider a w (snd (te_create_dirs m (info_dir (ra_workdir a)) w))"
| exclude_written: "deed m provider a w (snd (tf_write m (exclude_file (ra_workdir a)) s w))"
| proof_ran: "ra_proof_cmd a = Some cmd \<Longrightarrow> deed m provider a w (snd (mc_probe m (ra_workdir a) (split_whitespace cmd) w))"
| log_opened: "resolve_log_path a = Some p \<Longrightarrow> deed m provider a w (snd (mc_log_open m (path_text p) w))"
| log_appended: "deed m provider a w (snd (mc_log_append m it w))"
| stale_removed: "sidecar a p \<Longrightarrow> deed m provider a w (af_remove (mc_files m) p w)"
| dump_dir: "dump_path a = Some p \<Longrightarrow> parent p = Some d \<Longrightarrow> deed m provider a w (snd (af_create_dirs (mc_files m) d w))"
| dump_opened: "dump_path a = Some p \<Longrightarrow> deed m provider a w (snd (af_open (mc_files m) p w))"
| dump_line: "dump_path a = Some p \<Longrightarrow> deed m provider a w (af_append (mc_files m) p s w)"
| listed: "deed m provider a w (snd (mc_listing m (ra_workdir a) w))"
| pinned: "deed m provider a w (snd (mc_pin m (ra_workdir a) f w))"
| clock_read: "deed m provider a w (snd (mc_clock m w))"
| interrupt_read: "deed m provider a w (snd (mc_interrupt m w))"

abbreviation deeds :: "('w, 'm) machine_scheme \<Rightarrow> 'w llm \<Rightarrow> run_args \<Rightarrow> 'w \<Rightarrow> 'w \<Rightarrow> bool" where
  "deeds m provider a \<equiv> (deed m provider a)\<^sup>*\<^sup>*"

lemma one_deed: "deed m provider a w w' \<Longrightarrow> deeds m provider a w w'"
  by (rule r_into_rtranclp)

lemma tool_deeds_are_deeds: "tool_deeds m a w w' \<Longrightarrow> deeds m provider a w w'"
  by (induction rule: rtranclp_induct) (auto intro: rtranclp.rtrancl_into_rtrancl deed.tool_did)

text \<open>The interpretation of the overlay's interface: its tree stays where it is, and it moves the world by deeds.\<close>

definition reached :: "('w, 'm) machine_scheme \<Rightarrow> 'w llm \<Rightarrow> run_args \<Rightarrow> 'w \<Rightarrow> 'w git_ctx \<Rightarrow> bool" where
  "reached m provider a w0 c \<longleftrightarrow> ts_root (gx_tree c) = ra_workdir a \<and> deeds m provider a w0 (gx_world c)"

lemma reached_more:
  "reached m provider a w0 c \<Longrightarrow> ts_root (gx_tree c') = ts_root (gx_tree c) \<Longrightarrow> deeds m provider a (gx_world c) (gx_world c') \<Longrightarrow>
   reached m provider a w0 c'"
  by (auto simp: reached_def intro: rtranclp_trans)

lemma reached_git: "reached m provider a w0 c \<Longrightarrow> reached m provider a w0 (snd (run_git m args stdin c))"
  by (rule reached_more, assumption)
    (auto simp: reached_def run_git_def act_def Let_def split: prod.splits intro!: one_deed, metis deed.git_ran snd_conv)

lemma reached_files:
  assumes "reached m provider a w0 c"
  shows "reached m provider a w0 (snd (disk_try (te_create_dirs m (info_dir (ts_root (gx_tree c)))) c))"
    and "reached m provider a w0 (snd (disk_try (tf_write m (exclude_file (ts_root (gx_tree c))) s) c))"
proof -
  have "deed m provider a w (snd (te_create_dirs m (info_dir (ts_root (gx_tree c))) w))"
    "deed m provider a w (snd (tf_write m (exclude_file (ts_root (gx_tree c))) s w))" for w
    using assms deed.info_made deed.exclude_written unfolding reached_def by metis+
  then show "reached m provider a w0 (snd (disk_try (te_create_dirs m (info_dir (ts_root (gx_tree c)))) c))"
    "reached m provider a w0 (snd (disk_try (tf_write m (exclude_file (ts_root (gx_tree c))) s) c))"
    using one_deed by (auto intro!: reached_more[OF assms] simp: disk_try_def case_prod_beta)
qed

interpretation machine_tree: tree_invariant m "reached m provider a w0" for m provider a w0
proof unfold_locales
  show "keeps (reached m provider a w0) (run_git m args stdin)" for args stdin
    by (rule keepsI) (rule reached_git)
  have start: "ts_start (gx_tree (snd (run_git m args stdin c))) = ts_start (gx_tree c)" for args stdin c
    by (simp add: run_git_def act_def Let_def split: prod.splits)
  show "keeps (\<lambda>c. reached m provider a w0 c \<and> (\<exists>s. ts_start (gx_tree c) = Some s)) (run_git m args stdin)" for args stdin
    by (rule keepsI) (simp add: start reached_git)
qed (simp_all add: reached_files, simp add: reached_def)

text \<open>The world of the driver is a tree service on the machine's world.\<close>

definition advances :: "('w, 'm) machine_scheme \<Rightarrow> 'w llm \<Rightarrow> run_args \<Rightarrow> 'w loop_world \<Rightarrow> 'w loop_world \<Rightarrow> bool" where
  "advances m provider a lw lw' \<longleftrightarrow> (\<forall>w0. reached m provider a w0 (fst lw) \<longrightarrow> reached m provider a w0 (fst lw'))"

lemma advances_disk: "(\<And>w. deeds m provider a w (snd (f w))) \<Longrightarrow> advances m provider a lw (snd (on_disk f lw))"
  by (auto simp: advances_def on_disk_def case_prod_beta intro: reached_more)

lemma advances_deed: "(\<And>w. deed m provider a w (snd (f w))) \<Longrightarrow> advances m provider a lw (snd (on_disk f lw))"
  by (rule advances_disk) (rule one_deed)

lemma advances_tree:
  "(\<And>w0. keeps (reached m provider a w0) p) \<Longrightarrow> advances m provider a lw (snd (on_tree p lw))"
  by (auto simp: advances_def on_tree_def case_prod_beta dest: keepsD)

lemma unless_cut_deeds:
  "(\<And>w w'. was_cut w = Some w' \<Longrightarrow> deeds m provider a w w') \<Longrightarrow> (\<And>w. deeds m provider a w (snd (f w))) \<Longrightarrow>
   deeds m provider a w (snd (unless_cut was_cut f w))"
  by (auto simp: unless_cut_def case_prod_beta split: option.split)

lemma config_facts [simp]:
  "rc_model (config_of a) = ra_model a" "rc_proof_cmd (config_of a) = ra_proof_cmd a"
  "rc_log_path (config_of a) = map_option path_text (resolve_log_path a)"
  by (simp_all add: config_of_def Let_def split: option.split)

text \<open>A tool that is cut short has done a part of what it may do.\<close>

definition cut_short :: "('w, 'm) machine_scheme \<Rightarrow> run_args \<Rightarrow> bool" where
  "cut_short m a \<longleftrightarrow> (\<forall>iv w w'. mc_cut_tool m iv w = Some w' \<longrightarrow> tool_deeds m a w w')"

lemma loop_moves:
  assumes "cut_short m a"
  shows "moving_world (loop_env m provider a) (advances m provider a)"
proof
  fix lw
  let ?en = "loop_env m provider a"
  show "advances m provider a lw (snd (w_complete ?en (rc_model (en_cfg ?en)) req lw))" for req
    by (auto simp: loop_env_def Let_def intro!: advances_disk unless_cut_deeds
        intro: one_deed deed.model_cut deed.model_asked)
  show "advances m provider a lw (snd (w_execute ?en iv lw))" for iv
  proof -
    have "deeds m provider a w (snd (unless_cut (mc_cut_tool m iv) (run_tool m (policy_for a) iv) w))" for w
    proof (rule unless_cut_deeds)
      show "mc_cut_tool m iv w1 = Some w2 \<Longrightarrow> deeds m provider a w1 w2" for w1 w2
        by (rule tool_deeds_are_deeds) (use assms in \<open>auto simp: cut_short_def\<close>)
      show "deeds m provider a w1 (snd (run_tool m (policy_for a) iv w1))" for w1
        by (rule tool_deeds_are_deeds[OF tool_runs])
    qed
    then show ?thesis by (simp add: loop_env_def Let_def advances_disk)
  qed
  show "rc_log_path (en_cfg ?en) = Some p \<Longrightarrow> advances m provider a lw (snd (w_log_open ?en p lw))" for p
    by (auto simp: loop_env_def Let_def intro!: advances_deed deed.log_opened)
  show "rc_proof_cmd (en_cfg ?en) = Some cmd \<Longrightarrow> advances m provider a lw (snd (w_probe ?en (split_whitespace cmd) lw))" for cmd
    by (auto simp: loop_env_def Let_def intro!: advances_deed deed.proof_ran)
  show "advances m provider a lw (snd (w_diff ?en lw))"
    using machine_tree.keeps_diff_at[of m provider a _ None]
    by (auto simp: loop_env_def Let_def tree_diff_def advances_def diff_def split: prod.splits sum.splits dest: keepsD)
      (metis keepsD snd_conv)+
  show "advances m provider a lw (snd (w_patch ?en lw))"
    by (auto simp: loop_env_def Let_def patch_def intro!: advances_tree machine_tree.keeps_patch_at)
  show "advances m provider a lw (snd (w_restore ?en hs lw))" for hs
    by (auto simp: loop_env_def Let_def intro!: advances_tree keeps_rules machine_tree.keeps_restore)
  show "advances m provider a lw (snd (w_ensure ?en lw))" "advances m provider a lw (snd (w_baseline ?en lw))"
    "advances m provider a lw (snd (w_rollback ?en lw))"
    by (auto simp: loop_env_def Let_def baseline_def intro!: advances_tree machine_tree.keeps_ensure
        machine_tree.commit_keeps machine_tree.keeps_rollback)
qed (auto simp: loop_env_def Let_def advances_def[of _ _ _ lw lw for lw] intro!: advances_deed deed.intros)

lemma loop_confined:
  assumes "cut_short m a"
  shows "run_invariant (loop_env m provider a) (advances m provider a) (\<lambda>c. reached m provider a w0 (fst (cx_world c)))"
  by (intro run_invariant.intro quiet_invariant.intro quiet_invariant_axioms.intro run_invariant_axioms.intro loop_moves[OF assms])
    (auto simp: advances_def)

section \<open>Before and after the loop\<close>

lemma on_path_deeds: "(\<And>q w. p = Some q \<Longrightarrow> deeds m provider a w (f q w)) \<Longrightarrow> deeds m provider a w (on_path f p w)"
  by (auto simp: on_path_def split: option.split)

lemma overlay_paths:
  "git_dir r @ [Normal ''info''] = info_dir r" "info_dir r @ [Normal ''exclude''] = exclude_file r"
proof -
  have "components ''.git/info'' = [Normal ''.git'', Normal ''info'']" by code_simp
  then show "git_dir r @ [Normal ''info''] = info_dir r" "info_dir r @ [Normal ''exclude''] = exclude_file r"
    by (simp_all add: git_dir_def info_dir_def exclude_file_def join_path_def is_absolute_def)
qed

lemma exclude_deeds: "deeds m provider a w (exclude_sidecar m (ra_workdir a) p w)"
proof (cases "sidecar_name (ra_workdir a) p")
  case None
  then show ?thesis by (simp add: exclude_sidecar_def Let_def)
next
  case (Some rel)
  obtain r w1 where c: "te_create_dirs m (info_dir (ra_workdir a)) w = (r, w1)" by fastforce
  then have w1: "deeds m provider a w w1" using one_deed[OF deed.info_made[of m provider a w]] by simp
  have "deeds m provider a w1 (snd (tf_write m (exclude_file (ra_workdir a)) s w1))" for s
    by (rule one_deed) (rule deed.exclude_written)
  then have "deeds m provider a w (snd (tf_write m (exclude_file (ra_workdir a)) s w1))" for s
    by (rule rtranclp_trans[OF w1])
  then show ?thesis
    using Some c w1 by (cases r) (simp_all add: exclude_sidecar_def Let_def overlay_paths)
qed

lemma attach_deeds:
  assumes "dump_path a = Some p"
  shows "deeds m provider a w (snd (attach_dump (mc_files m) p w))"
proof -
  have rm: "deeds m provider a w (af_remove (mc_files m) p w)"
    using assms by (intro one_deed deed.stale_removed) (simp add: sidecar_def)
  have opened: "deeds m provider a v (snd (af_open (mc_files m) p v))" for v
    by (rule one_deed[OF deed.dump_opened[OF assms]])
  have "deeds m provider a v (snd (open_append (mc_files m) p v))" for v
  proof (cases "parent p")
    case None
    then show ?thesis using opened by (simp add: open_append_def)
  next
    case (Some d)
    obtain r v1 where c: "af_create_dirs (mc_files m) d v = (r, v1)" by fastforce
    then have v1: "deeds m provider a v v1" using one_deed[OF deed.dump_dir[OF assms Some, of m provider v]] by simp
    then show ?thesis
      using Some c opened[of v] rtranclp_trans[OF v1 opened] by (cases r) (simp_all add: open_append_def)
  qed
  then show ?thesis using rtranclp_trans[OF rm] by (simp add: attach_dump_def)
qed

lemma prepare_deeds:
  assumes "prepare_run m a w = (attached, tree, w')"
  shows "reached m provider a w \<lparr>gx_tree = tree, gx_world = w', gx_cmds = []\<rparr>"
proof -
  let ?wd = "ra_workdir a"
  define w2 where "w2 = on_path (af_remove (mc_files m)) (dump_path a) (on_path (af_remove (mc_files m)) (resolve_log_path a) w)"
  define c where "c = snd (ensure m (git_start ?wd w2))"
  define w4 where "w4 = on_path (exclude_sidecar m ?wd) (dump_path a) (on_path (exclude_sidecar m ?wd) (resolve_log_path a) (gx_world c))"
  have "deeds m provider a w w2" unfolding w2_def
    by (rule rtranclp_trans; rule on_path_deeds; rule one_deed; rule deed.stale_removed) (simp_all add: sidecar_def)
  then have "reached m provider a w (git_start ?wd w2)" by (simp add: reached_def git_start_def new_tree_def)
  then have c: "reached m provider a w c" unfolding c_def by (rule keepsD[OF machine_tree.keeps_ensure])
  have "deeds m provider a (gx_world c) w4" unfolding w4_def
    by (rule rtranclp_trans; rule on_path_deeds; rule exclude_deeds)
  then have w4: "deeds m provider a w w4" using c by (auto simp: reached_def intro: rtranclp_trans)
  have run: "prepare_run m a w = (case dump_path a of
      None \<Rightarrow> (False, gx_tree c, w4) | Some p \<Rightarrow> (case attach_dump (mc_files m) p w4 of (r, w5) \<Rightarrow> (r = Inr (), gx_tree c, w5)))"
    unfolding prepare_run_def Let_def c_def w2_def w4_def by (rule refl)
  show ?thesis
  proof (cases "dump_path a")
    case None
    then show ?thesis using assms run w4 c by (simp add: reached_def)
  next
    case (Some p)
    then show ?thesis
      using assms run c rtranclp_trans[OF w4 attach_deeds[OF Some]] by (auto simp: reached_def case_prod_beta)
  qed
qed

lemma dump_deeds: "deeds m provider a w (dump_events m attached a evs w)"
proof -
  have "deeds m provider a w (foldl (\<lambda>w ev. append_line (mc_files m) (mc_encode m) p ev w) w evs)"
    if p: "dump_path a = Some p" for p w
  proof (induction evs arbitrary: w)
    case (Cons ev evs)
    have "deeds m provider a w (append_line (mc_files m) (mc_encode m) p ev w)"
      using one_deed[OF deed.dump_line[OF p]] by (auto simp: append_line_def split: option.split)
    from rtranclp_trans[OF this Cons.IH] show ?case by simp
  qed simp
  then show ?thesis by (auto simp: dump_events_def intro: on_path_deeds)
qed


text \<open>A machine whose files read \<open>old\<close> and note what is written, on which a command may be killed at any time, and a
  model that asks for an edit whatever it is told.\<close>

definition demo_http :: "'w http_env" where
  "demo_http = \<lparr>he_env = (\<lambda>_ _. None),
     he_send = (\<lambda>_ _ _ _ _ w. (Inr \<lparr>rp_status = 200, rp_retry_after = None, rp_text = [], rp_json = Inr JNull\<rparr>, w)),
     he_status_text = dec, he_sleep = (\<lambda>_ w. w), he_instant = (\<lambda>_. 0), he_epoch_secs = (\<lambda>_. None),
     he_draw = (\<lambda>w. ((0, 0), w))\<rparr>"

definition demo_append :: "string list append_fs" where
  "demo_append = \<lparr>af_remove = (\<lambda>_ w. w), af_create_dirs = (\<lambda>_ w. (Inr (), w)), af_open = (\<lambda>_ w. (Inr (), w)),
     af_append = (\<lambda>_ s w. w @ [s]), af_read = (\<lambda>_ _. None)\<rparr>"

definition demo_machine :: "string list machine" where
  "demo_machine = tree_env.extend
     ((demo_tree False)\<lparr>tf_read_text := \<lambda>_ _. Inr ''old'', tf_is_dir := \<lambda>p _. p = [RootDir, Normal ''w''],
        tf_write := \<lambda>_ s w. (Inr (), w @ [s])\<rparr>)
     \<lparr>mc_files = demo_append, mc_proc = idle_env, mc_stage = idle_stage, mc_walk = (\<lambda>_ _. OtherNode), mc_http = demo_http,
      mc_wire = cut_lib, mc_lib = demo_lib, mc_clock = (\<lambda>w. (0, w)), mc_interrupt = (\<lambda>w. (False, w)),
      mc_cut_model = (\<lambda>_ _. None), mc_cut_tool = (\<lambda>iv w. if inv_name iv = TOOL_EXEC then Some w else None),
      mc_log_open = (\<lambda>_ w. (Inr (), w)), mc_log_append = (\<lambda>_ w. (True, w)), mc_probe = (\<lambda>_ _ w. (True, w)),
      mc_listing = (\<lambda>_ w. (None, w)), mc_pin = (\<lambda>_ _ w. (None, w)),
      mc_view = (\<lambda>_. Inl ''no''), mc_search = (\<lambda>_. Inl ''no''), mc_edit = edit_parse,
      mc_write = (\<lambda>_. Inl ''no''), mc_cmd = (\<lambda>_. Inr ''ls''), mc_encode = (\<lambda>_. None)\<rparr>"

definition edit_model :: "'w llm" where
  "edit_model _ _ w =
     (Inr \<lparr>rs_message = \<lparr>am_content = [], am_tool_calls = [\<lparr>tc_id = ''c'', tc_name = TOOL_EDIT, tc_args =
          JObj [(''path'', JStr ''src/a.rs''), (''search'', JStr ''old''), (''replace'', JStr ''new'')]\<rparr>],
        am_thinking = None\<rparr>, rs_stop = StToolUse,
        rs_usage = \<lparr>u_input = 1, u_output = 1, u_cache_read = 0, u_cache_write = 0, u_reasoning = None, u_cost = None\<rparr>,
        rs_latency_ms = 0, rs_attempts = 1, rs_raw_stop = None, rs_retry_usage = None\<rparr>, w)"


section \<open>The runs of an evaluation\<close>

text \<open>C27 (graded_runs_end): the run of an instance ends with an outcome within the fuel the program is given, whichever arguments
  the parser of the evaluation accepted and whatever the commands are wrapped in: no grading looks at a run that was
  given up.\<close>

theorem graded_runs_end:
  assumes "parse_eval env usage argv = Inr a"
  shows "\<exists>oc. rr_outcome (fst (execute RUN_FUEL b provider
      ((agent_args a work goal events)\<lparr>ra_exec_wrap := wrap\<rparr>) t w)) = Some oc"
proof -
  have "args_ok (agent_args a work goal events)" using parsed_eval_is_consistent[OF assms] by blast
  then show ?thesis by (intro execute_ends) (simp add: args_ok_def agent_args_def)
qed

theorem graded_runs_end_witness:
  "\<exists>a oc. ea_agent a \<and> rr_outcome (fst (execute RUN_FUEL demo_machine edit_model
      ((agent_args a [RootDir, Normal ''w''] ''goal'' [RootDir, Normal ''e''])\<lparr>ra_exec_wrap := Some [''docker'']\<rparr>) 0 [])) = Some oc"
proof -
  let ?p = "parse_eval [''OPENAI_BASE_URL'' \<mapsto> ''u''] [] [''rof'', ''eval'', ''--agent'', ''--tasks-dir'', ''/t'', ''--model=m'']"
  have "(case ?p of Inr a \<Rightarrow> ea_agent a | Inl _ \<Rightarrow> False)" by code_simp
  then obtain a where a: "?p = Inr a" "ea_agent a" by (auto split: sum.splits)
  show ?thesis using a(2) by (intro exI[of _ a]) (simp add: graded_runs_end[OF a(1)])
qed

section \<open>A directory beside the root\<close>

text \<open>The step beyond a checked directory that \<open>dir_allowed\<close> leaves open is taken: a path that goes up and comes back
  makes a directory beside the root before the check refuses it.\<close>

definition parent_fs :: "(path \<times> string) list tool_fs" where
  "parent_fs = note_fs\<lparr>fs_canonicalize := \<lambda>p w. if p = demo_root @ [ParentDir] then Inr [RootDir] else fs_canonicalize note_fs p w,
     tf_exists := \<lambda>p w. p = demo_root @ [ParentDir]\<rparr>"

lemma dotdot_parents_escape:
  "resolve_under parent_fs demo_root ''../new/../r/x/y.rs'' True default_denied_globs [] =
     Inl (MissingParent ''parent directory does not exist: create /r/../new/../r/x first, then re-issue'')
   \<and> create_parent_dirs parent_fs demo_root ''../new/../r/x/y.rs'' [] =
     (Inl (DeniedError LINK_ESCAPES), [([RootDir, Normal ''r'', ParentDir, Normal ''new''], ''dir'')])"
  by code_simp

end
