(* ===== verification/Spec2Isabelle.thy ===== *)
theory Spec2Isabelle
  imports Decisions Adapter FileTools EvalRun Deeds "HOL-Library.Code_Target_Numeral"
begin

text \<open>
  Verification of the rof coding-agent harness: the Rust workspace under \<open>src/crates\<close>.

  \<^bold>\<open>The program.\<close> A run of the harness drives a language model through turns of tool calls inside a
  working tree until the model declares itself done, a budget is exhausted, the provider fails for good
  or the user cancels. The driver (\<open>agent-loop\<close>) owns the loop state, builds each request from its
  transcript and from the file maps of \<open>context\<close>, calls a provider through the types of \<open>provider-core\<close>
  (in production the adapter \<open>provider-openai\<close>), claims the answer, executes its tool calls through the
  registry and gate of \<open>tool-core\<close>, charges everything to the guard of \<open>agent-budget\<close>, proves batches of
  edits with the rules of \<open>bets\<close>, and tells the outside world twice: frames go to the emitter of
  \<open>agent-event\<close>, rows to the append-only log of \<open>agent-log\<close>. The tools are those of \<open>tools-std\<close>, the tree they
  change is kept by the git overlay of \<open>snapshot\<close>. The command \<open>rof run\<close> wires one such run to the machine and prints
  its patch; \<open>rof eval\<close> runs the agent on a slice of tasks, in containers if asked to, and has each graded and
  reported with the rules of \<open>eval\<close>.

  \<^bold>\<open>Theories and what they model.\<close>
  \<^item> \<open>Prelude\<close>: saturating and wrapping integers, the scalars and text operations of the standard
    library on UTF-8 byte strings, association lists, errors as values.
  \<^item> \<open>Budget\<close>: \<open>agent-budget/src/{types,config,guard}.rs\<close>; the record \<open>budget_guard\<close> and one definition
    per method.
  \<^item> \<open>Bets\<close>: \<open>bets/src/{claim,commit,metrics,race}.rs\<close>.
  \<^item> \<open>Events\<close>: \<open>agent-event/src/{types,event,emitter,pairing}.rs\<close>; it also holds the datatype \<open>json\<close>.
  \<^item> \<open>Log\<close>: \<open>agent-log/src/{types,writer,reader}.rs\<close>; the file is a byte list, opening it repairs a torn tail.
  \<^item> \<open>ToolCore\<close>: \<open>tool-core/src/{tool,text,gate,registry}.rs\<close>; locale \<open>permission_gate\<close>.
  \<^item> \<open>Provider\<close>: \<open>provider-core/src/{types,errors,json,client}.rs\<close>.
  \<^item> \<open>Context\<close>: \<open>context/src/{types,window,collapse,compact,assemble,files}.rs\<close>.
  \<^item> \<open>Adapter\<close>: \<open>provider-openai/src/{pricing,retry,protocol,client}.rs\<close>; one exchange is \<open>once\<close>, the
    request loop is \<open>complete_loop\<close>.
  \<^item> \<open>Jail\<close>: \<open>tools-std/src/policy.rs\<close>: paths as component lists, glob matching, the confinement of a
    requested path to the working tree, with symbolic links followed.
  \<^item> \<open>Patching\<close>: \<open>tools-std/src/common.rs\<close>: the fuzzy matching of one search/replace hunk.
  \<^item> \<open>Shell\<close>: \<open>tools-std/src/{runner,exec,test_tool,condense}.rs\<close>: word splitting, the command policy,
    the two-ended bounded read of a child's output, and its condensing for the transcript.
  \<^item> \<open>FileTools\<close>: \<open>tools-std/src/{view,search,edit,write}.rs\<close>: the four file tools over that jail.
  \<^item> \<open>LoopState\<close>, \<open>Claims\<close>, \<open>BatchProof\<close>, \<open>Request\<close>: the pure half of \<open>agent-loop\<close> (\<open>state.rs\<close>, \<open>gate.rs\<close>,
    \<open>budget_nudge.rs\<close>, \<open>verify.rs\<close>, \<open>request.rs\<close> and the pure part of \<open>proof.rs\<close>); the record \<open>loop_state\<close>.
  \<^item> \<open>Effects\<close>: sequencing of fallible steps (\<open>andthen\<close> is \<open>?\<close>), and its rules \<open>triple\<close> and \<open>keeps\<close>.
  \<^item> \<open>RunLoop\<close>: \<open>run.rs\<close> with the effectful half of \<open>proof.rs\<close>, over the record \<open>env\<close> of what the world
    answers and the context \<open>ctx\<close>; every frame, synced row and executed tool is noted in \<open>cx_trace\<close>.
  \<^item> \<open>Snapshot\<close>: \<open>snapshot/src/{types,patch,git}.rs\<close>; every operation of the tree service is a program that notes
    the git commands it issues; locale \<open>tree_invariant\<close>.
  \<^item> \<open>Stats\<close>: \<open>eval/src/{gate,matrix}.rs\<close>: the bootstrap, the interval of a pass rate, the paired comparison.
  \<^item> \<open>Eval\<close>: \<open>eval/src/{oracle,slices,report,engine}.rs\<close>: verdicts, task files, winnability, report rows.
  \<^item> \<open>Trace\<close>: \<open>trace/src/lib.rs\<close> and \<open>rof/src/dump.rs\<close>: the sink and the dump of a run's events.
  \<^item> \<open>Cli\<close>: \<open>rof/src/{cli,workdir,exit}.rs\<close>: the flag table, the budgets and settings it yields, the guards of the
    work directory, the exit codes.
  \<^item> \<open>Rof\<close>: \<open>rof/src/main.rs\<close> for \<open>rof run\<close>: the record \<open>machine\<close> of all a run touches, and \<open>loop_env\<close>, which makes it
    the world of the driver, with the six tools, the overlay and the bets hook of the binary.
  \<^item> \<open>EvalArgs\<close>, \<open>EvalRun\<close>: \<open>rof/src/{eval_cmd,eval_agent}.rs\<close>: the flags of \<open>rof eval\<close>, its two legs as programs that
    note every command they start, and \<open>main\<close>.

  \<^bold>\<open>Theories that only prove.\<close>
  \<^item> \<open>Steps\<close>: the loop state as the step relation \<open>loop_step\<close>, with its invariant \<open>loop_ok\<close>.
  \<^item> \<open>Durable\<close>: what the file holds of the rows in memory.
  \<^item> \<open>Invariants\<close>, \<open>Runs\<close>: the locale \<open>moving_world\<close> of the ways the driver moves its world, and its extensions
    \<open>quiet_invariant\<close> and \<open>run_invariant\<close>, which carry any invariant of the state machine that the file and the
    world respect through the driver, to the end of a run.
  \<^item> \<open>Halting\<close>: every round is paid for from an allowance, so \<open>allowance + 1\<close> rounds end every run.
  \<^item> \<open>Guarantees\<close>, \<open>Decisions\<close>: the interpretations of those locales on the model, and the promises of
    whole runs that rest on them.
  \<^item> \<open>Deeds\<close>: the relation \<open>deed\<close> lists every single effect a run may have on the machine; through the locales of the
    overlay and of the driver, a whole \<open>rof run\<close> is a sequence of deeds. It ends with the runs of an evaluation and
    with the one directory the tools can make outside the root.

  \<^bold>\<open>Conventions.\<close> A string is its list of UTF-8 bytes. \<open>u32\<close>, \<open>u64\<close> and \<open>usize\<close> are naturals, with the
  saturating and wrapping operations of the source written out; only the jitter's hash needs words. An
  instant or a duration is a number of nanoseconds, an \<open>f64\<close> a real. A \<open>HashMap\<close> is an association list.
  A \<open>Result\<close> is a sum, an \<open>Option\<close> an option, a panic is ruled out by a theorem where it matters. Code
  that is not in the repository is an argument: the JSON printer and parser, the derived decoders, the
  Unicode tables outside ASCII, HTTP, the file system, the clock, the git tree, the tools, the tasks that
  cancel. What a theorem needs of them is a named hypothesis.

  \<^bold>\<open>Bounds.\<close> The driver's loop may in principle not end, so \<open>drive\<close> takes fuel; \<open>run_terminates\<close> shows
  that \<open>allowance + 1\<close> rounds always suffice, \<open>allowance\<close> being what the budget, the pending tool calls,
  the retries and the held declares still pay for. The request loop of the adapter needs no fuel: a rung
  of its ladder or one of eight attempts is used up each time. A command runs its driver with \<open>RUN_FUEL\<close>, the
  greatest allowance a step budget of 32 bits can pay for. All other recursion is structural or has a measure.

  \<^bold>\<open>Not modelled.\<close> The channel harness \<open>drive_tick\<close>, the fixtures and all test code; the usage texts, which are
  arguments; the example \<open>win_gate\<close> and the build script. Three orders of effects are simplified: the lines of the
  dump are written when the run is over, a tree that is searched or copied is what it is when the walk starts, and
  process groups and niceness are part of starting a process.
\<close>

end
